(* ===== verification/Prelude.thy ===== *)
theory Prelude
  imports Main "HOL-Library.Word"
begin

text \<open>
  Shared ground of the development: the machine types of the riscv64 build of the
  kernel (\<^verbatim>\<open>include/kmi/types.h\<close>, \<^verbatim>\<open>arch/riscv64/include/types.h\<close>), the named fact
  collections the component theories add to, and generic facts about words, function
  updates and option binds that several components use.
\<close>

unbundle bit_operations_syntax

type_synonym u8 = "8 word"
type_synonym u16 = "16 word"
type_synonym u32 = "32 word"
type_synonym u64 = "64 word"

text \<open>Addresses and pointers are 64-bit words and \<open>NULL\<close> is \<open>0\<close>.\<close>

type_synonym ptr = u64

abbreviation NULL :: ptr where "NULL \<equiv> 0"

text \<open>
  \<open>field_defs\<close> unfolds the field writes of a component's structures, \<open>bit_defs\<close> the
  bit manipulation macros.
\<close>

named_theorems field_defs
named_theorems bit_defs

section \<open>Words\<close>

lemma unat_u64_less: "unat (w::u64) < 2 ^ 64"
  using unsigned_less [where ?'a = nat, of w] by simp

lemma word_and_minus_odd:
  fixes w :: "'a::len word"
  assumes "odd w"
  shows "w AND - w = 1"
proof -
  have "even (NOT w)" using assms by (simp add: even_not_iff)
  then have "NOT w + 1 = NOT w OR 1"
    by (simp add: or_one_eq)
  then have "- w = NOT w OR 1"
    by (simp add: minus_eq_not_plus_1)
  then have "w AND - w = (w AND NOT w) OR (w AND 1)"
    by (simp add: bit.conj_disj_distrib)
  also have "\<dots> = w AND 1" by simp
  also have "\<dots> = 1" using assms by (simp add: and_one_eq odd_iff_mod_2_eq_one)
  finally show ?thesis .
qed

lemma word_lowest_bit:
  fixes w :: "'a::len word"
  assumes "w \<noteq> 0"
  obtains k u where "k < LENGTH('a)" "w = push_bit k u" "odd u" "bit w k" "\<forall>i<k. \<not> bit w i"
proof -
  obtain n where n: "bit w n" using assms by (auto simp: bit_eq_iff)
  define k where "k = (LEAST n. bit w n)"
  have k: "bit w k" and least: "\<forall>i<k. \<not> bit w i"
    unfolding k_def using n by (auto intro: LeastI dest: not_less_Least)
  have klen: "k < LENGTH('a)" using k by (simp add: bit_imp_le_length)
  have "w = push_bit k (drop_bit k w)"
  proof (rule bit_eqI)
    fix i assume "possible_bit TYPE('a word) i"
    show "bit w i = bit (push_bit k (drop_bit k w)) i"
      using least klen by (cases "i < k") (auto simp: bit_simps bit_imp_le_length)
  qed
  moreover have "odd (drop_bit k w)" using k by (simp add: bit_iff_odd_drop_bit)
  ultimately show ?thesis using that k least klen by blast
qed

lemma word_lowest_bit_isolate:
  fixes w :: "'a::len word"
  assumes "w = push_bit k u" "odd u"
  shows "w AND - w = push_bit k 1"
proof -
  have "- w = push_bit k (- u)" using assms(1) by (simp add: push_bit_eq_mult)
  then have "w AND - w = push_bit k (u AND - u)" using assms(1) by (simp add: push_bit_and)
  then show ?thesis using assms(2) by (simp add: word_and_minus_odd)
qed

end
