(* ===== verification/Bits.thy ===== *)
theory Bits
  imports Prelude
begin

text \<open>
  Bit manipulation: \<^verbatim>\<open>src/bits.c\<close> and the bit and bitmap helpers of
  \<^verbatim>\<open>include/kmi/bits.h\<close>. A bitmap is the byte array that starts at the pointer the C
  functions take, as a function from byte offsets to bytes: a write past the end of the
  bitmap lands in whatever follows it, as it does in C. Bit counts are \<open>size_t\<close> values
  that never wrap here, as \<open>nat\<close>.
\<close>

type_synonym bytes = "nat \<Rightarrow> u8"

section \<open>Integer bit manipulation\<close>

definition is_set :: "'a::len word \<Rightarrow> 'a word \<Rightarrow> bool" where
  [bit_defs]: "is_set x y \<longleftrightarrow> x AND y \<noteq> 0"

definition set_bits_mask :: "'a::len word \<Rightarrow> 'a word \<Rightarrow> 'a word" where
  [bit_defs]: "set_bits_mask x y = x OR y"

definition clear_bits :: "'a::len word \<Rightarrow> 'a word \<Rightarrow> 'a word" where
  [bit_defs]: "clear_bits x y = x AND NOT y"

definition is_nset :: "u64 \<Rightarrow> nat \<Rightarrow> bool" where
  [bit_defs]: "is_nset x y \<longleftrightarrow> is_set x (push_bit y 1)"

definition set_nbit :: "u64 \<Rightarrow> nat \<Rightarrow> u64" where
  [bit_defs]: "set_nbit x y = set_bits_mask x (push_bit y 1)"

definition clear_nbit :: "u64 \<Rightarrow> nat \<Rightarrow> u64" where
  [bit_defs]: "clear_nbit x y = clear_bits x (push_bit y 1)"

definition is_powerof2 :: "'a::len word \<Rightarrow> bool" where
  "is_powerof2 x \<longleftrightarrow> x AND (x - 1) = 0"

definition bswap16 :: "u16 \<Rightarrow> u16" where
  "bswap16 u = drop_bit 8 (u AND 0xff00) OR push_bit 8 (u AND 0x00ff)"

definition bswap32 :: "u32 \<Rightarrow> u32" where
  "bswap32 u = drop_bit 24 (u AND 0xff000000) OR drop_bit 8 (u AND 0x00ff0000) OR
     push_bit 8 (u AND 0x0000ff00) OR push_bit 24 (u AND 0x000000ff)"

definition bswap64 :: "u64 \<Rightarrow> u64" where
  "bswap64 u =
     drop_bit 56 (u AND 0xff00000000000000) OR
     drop_bit 40 (u AND 0x00ff000000000000) OR
     drop_bit 24 (u AND 0x0000ff0000000000) OR
     drop_bit 8 (u AND 0x000000ff00000000) OR
     push_bit 8 (u AND 0x00000000ff000000) OR
     push_bit 24 (u AND 0x0000000000ff0000) OR
     push_bit 40 (u AND 0x000000000000ff00) OR
     push_bit 56 (u AND 0x00000000000000ff)"

text \<open>The tail of \<open>ffs\<close>, on the isolated lowest set bit \<open>v & -v\<close>.\<close>

definition ffs_isolated :: "u32 \<Rightarrow> int" where
  "ffs_isolated v =
     (let c = 32;
          c = (if v \<noteq> 0 then c - 1 else c);
          c = (if v AND 0x0000FFFF \<noteq> 0 then c - 16 else c);
          c = (if v AND 0x00FF00FF \<noteq> 0 then c - 8 else c);
          c = (if v AND 0x0F0F0F0F \<noteq> 0 then c - 4 else c);
          c = (if v AND 0x33333333 \<noteq> 0 then c - 2 else c);
          c = (if v AND 0x55555555 \<noteq> 0 then c - 1 else c)
      in c + 1)"

definition ffs :: "u32 \<Rightarrow> int" where
  "ffs v =
     (if v = 0 then 0
      else if v = 0x80000000 then 32
      else ffs_isolated (v AND - v))"

section \<open>Bitmaps\<close>

definition bitmap_is_set :: "bytes \<Rightarrow> nat \<Rightarrow> bool" where
  "bitmap_is_set bitmap n =
     (let i = n div 8; r = n - i * 8 in is_nset (ucast (bitmap i)) r)"

definition bitmap_set :: "bytes \<Rightarrow> nat \<Rightarrow> bytes" where
  "bitmap_set bitmap n =
     (let i = n div 8; r = n - i * 8
      in bitmap(i := ucast (set_nbit (ucast (bitmap i)) r)))"

definition bitmap_clear :: "bytes \<Rightarrow> nat \<Rightarrow> bytes" where
  "bitmap_clear bitmap n =
     (let i = n div 8; r = n - i * 8
      in bitmap(i := ucast (clear_nbit (ucast (bitmap i)) r)))"

text \<open>\<open>memset(bitmap, 0, i)\<close> on the bytes of the bitmap.\<close>

definition bytes_zero :: "bytes \<Rightarrow> nat \<Rightarrow> bytes" where
  "bytes_zero bitmap i = (\<lambda>j. if j < i then 0 else bitmap j)"

fun clear_low_bits :: "bytes \<Rightarrow> nat \<Rightarrow> nat \<Rightarrow> bytes" where
  "clear_low_bits bitmap i 0 = bitmap"
| "clear_low_bits bitmap i (Suc r) =
     (let b = clear_low_bits bitmap i r
      in b(i := ucast (clear_nbit (ucast (b i)) r)))"

definition bitmap_clear_all :: "bytes \<Rightarrow> nat \<Rightarrow> bytes" where
  "bitmap_clear_all bitmap n =
     (let i = n div 8; r = n - i * 8
      in clear_low_bits (bytes_zero bitmap i) i r)"

text \<open>\<open>imap[c]\<close>: the \<open>int\<close> at index \<open>c\<close>, four little-endian bytes.\<close>

definition load_int :: "bytes \<Rightarrow> nat \<Rightarrow> u32" where
  "load_int bitmap c =
     ucast (bitmap (4 * c)) OR push_bit 8 (ucast (bitmap (4 * c + 1))) OR
     push_bit 16 (ucast (bitmap (4 * c + 2))) OR push_bit 24 (ucast (bitmap (4 * c + 3)))"

function find_int :: "bytes \<Rightarrow> u32 \<Rightarrow> nat \<Rightarrow> nat \<Rightarrow> nat" where
  "find_int bitmap target c i =
     (if c < i then
        (if load_int bitmap c \<noteq> target then c else find_int bitmap target (c + 1) i)
      else c)"
  by pat_completeness auto
termination
  by (relation "measure (\<lambda>(bitmap, target, c, i). i - c)") auto

function find_bit :: "bytes \<Rightarrow> bool \<Rightarrow> nat \<Rightarrow> nat \<Rightarrow> nat \<Rightarrow> nat option" where
  "find_bit bitmap want b a r =
     (if a < r then
        (if bitmap_is_set bitmap (b + a) = want then Some (b + a)
         else find_bit bitmap want b (a + 1) r)
      else None)"
  by pat_completeness auto
termination
  by (relation "measure (\<lambda>(bitmap, want, b, a, r). r - a)") auto

declare find_int.simps [simp del] find_bit.simps [simp del]

definition bitmap_find_first :: "bytes \<Rightarrow> nat \<Rightarrow> bool \<Rightarrow> nat" where
  "bitmap_find_first bitmap n seek =
     (let i = n div 32;
          target = (if seek then 0 else -1);
          c = find_int bitmap target 0 i;
          b = c * 32;
          check = (if seek then load_int bitmap c else NOT (load_int bitmap c))
      in if c \<noteq> i then nat (int b + ffs check - 1)
         else
           let r = n - i * 32
           in if r = 0 then n + 1
              else case find_bit bitmap seek b 0 r of Some k \<Rightarrow> k | None \<Rightarrow> n + 1)"

definition bitmap_find_first_unset :: "bytes \<Rightarrow> nat \<Rightarrow> nat" where
  "bitmap_find_first_unset bitmap n = bitmap_find_first bitmap n False"

definition bitmap_find_first_set :: "bytes \<Rightarrow> nat \<Rightarrow> nat" where
  "bitmap_find_first_set bitmap n = bitmap_find_first bitmap n True"

section \<open>Lemmas\<close>

lemma bit_mask_ucast:
  "is_nset (ucast (x::u8)) r \<longleftrightarrow> bit x r"
proof -
  have "is_nset (ucast x) r \<longleftrightarrow> bit (ucast x :: u64) r"
    by (simp add: bit_defs push_bit_of_1 and_exp_eq_0_iff_not_bit)
  also have "\<dots> \<longleftrightarrow> bit x r"
    by (auto simp: bit_simps dest: bit_imp_le_length)
  finally show ?thesis .
qed

lemma bitmap_is_set_bit: "bitmap_is_set b n \<longleftrightarrow> bit (b (n div 8)) (n mod 8)"
  by (simp add: bitmap_is_set_def bit_mask_ucast Let_def modulo_nat_def)

lemma bit_set_nbit_ucast:
  "r < 8 \<Longrightarrow> bit (ucast (set_nbit (ucast (x::u8)) r) :: u8) k \<longleftrightarrow> bit x k \<or> k = r"
  by (auto simp: bit_defs bit_simps dest: bit_imp_le_length)

lemma bit_clear_nbit_ucast:
  "bit (ucast (clear_nbit (ucast (x::u8)) r) :: u8) k \<longleftrightarrow> bit x k \<and> k \<noteq> r"
  by (auto simp: bit_defs bit_simps dest: bit_imp_le_length)

lemma div_mod_eq_iff: "n div 8 = m div 8 \<and> n mod 8 = m mod 8 \<longleftrightarrow> n = (m::nat)"
  by (metis mod_mult_div_eq)

lemma bitmap_is_set_set [simp]:
  "bitmap_is_set (bitmap_set b n) m \<longleftrightarrow> m = n \<or> bitmap_is_set b m"
proof -
  have r: "n - n div 8 * 8 = n mod 8" by (simp add: modulo_nat_def)
  show ?thesis
    using div_mod_eq_iff [of m n]
    by (auto simp: bitmap_is_set_bit bitmap_set_def Let_def r bit_set_nbit_ucast)
qed

lemma bitmap_is_set_clear [simp]:
  "bitmap_is_set (bitmap_clear b n) m \<longleftrightarrow> m \<noteq> n \<and> bitmap_is_set b m"
proof -
  have r: "n - n div 8 * 8 = n mod 8" by (simp add: modulo_nat_def)
  show ?thesis
    using div_mod_eq_iff [of m n]
    by (auto simp: bitmap_is_set_bit bitmap_clear_def Let_def r bit_clear_nbit_ucast)
qed

lemma bit_clear_low_bits:
  "bit (clear_low_bits b i r j) k \<longleftrightarrow> bit (b j) k \<and> (j = i \<longrightarrow> r \<le> k)"
  by (induction r) (auto simp: Let_def bit_clear_nbit_ucast)

lemma le_div_mod_8:
  "n \<le> m \<longleftrightarrow> n div 8 < m div 8 \<or> n div 8 = m div 8 \<and> n mod 8 \<le> m mod (8::nat)"
proof -
  obtain a b c d where e: "n div 8 = a" "n mod 8 = b" "m div 8 = c" "m mod 8 = d" by blast
  have "n = 8 * a + b" "m = 8 * c + d" "b < 8" "d < 8" using e by auto
  then show ?thesis unfolding e by auto
qed

lemma bitmap_is_set_clear_all [simp]:
  "bitmap_is_set (bitmap_clear_all b n) m \<longleftrightarrow> n \<le> m \<and> bitmap_is_set b m"
proof -
  have r: "n - n div 8 * 8 = n mod 8" by (simp add: modulo_nat_def)
  then show ?thesis
    by (auto simp: le_div_mod_8 [of n m] bitmap_is_set_bit bitmap_clear_all_def Let_def r bit_clear_low_bits
        bytes_zero_def)
qed

subsection \<open>Finding bits\<close>

lemma ffs_isolated_exp: "k < 32 \<Longrightarrow> ffs_isolated (2 ^ k) = int k + 1"
proof -
  assume "k < 32"
  then have "k \<in> set [0..<32]" by simp
  moreover have "\<forall>k \<in> set [0..<32]. ffs_isolated (2 ^ k) = int k + 1"
    by (simp add: ffs_isolated_def upt_rec)
  ultimately show ?thesis by blast
qed

lemma ffs_lowest:
  assumes "v \<noteq> 0"
  shows "\<exists>k<32. bit v k \<and> (\<forall>i<k. \<not> bit v i) \<and> ffs v = int k + 1"
proof -
  obtain k u where k: "k < LENGTH(32)" "v = push_bit k u" "odd u" "bit v k" "\<forall>i<k. \<not> bit v i"
    using word_lowest_bit [OF assms] by blast
  have top: "(0x80000000::u32) = push_bit 31 1" by simp
  have "k = 31" if "v = 0x80000000"
    using k(4) unfolding that top bit_push_bit_iff by (auto simp: bit_1_iff)
  moreover have "v AND - v = push_bit k 1" using k(2,3) by (rule word_lowest_bit_isolate)
  ultimately have "ffs v = int k + 1"
    using assms k(1) by (auto simp: ffs_def ffs_isolated_exp)
  then show ?thesis using k by auto
qed

lemma bit_load_int:
  assumes "k < 32"
  shows "bit (load_int b c) k \<longleftrightarrow> bitmap_is_set b (c * 32 + k)"
proof -
  have d: "(c * 32 + k) div 8 = 4 * c + k div 8" "(c * 32 + k) mod 8 = k mod 8"
    by presburger+
  have "k div 8 = 0 \<or> k div 8 = 1 \<or> k div 8 = 2 \<or> k div 8 = 3" using assms by linarith
  then show ?thesis
    unfolding bitmap_is_set_bit d load_int_def using assms
    by (elim disjE) (auto simp: bit_simps modulo_nat_def dest: bit_imp_le_length)
qed

lemma find_int_spec:
  "c \<le> i \<Longrightarrow>
     c \<le> find_int b target c i \<and> find_int b target c i \<le> i \<and>
     (\<forall>j. c \<le> j \<and> j < find_int b target c i \<longrightarrow> load_int b j = target) \<and>
     (find_int b target c i \<noteq> i \<longrightarrow> load_int b (find_int b target c i) \<noteq> target)"
proof (induction b target c i rule: find_int.induct)
  case (1 b target c i)
  show ?case
  proof (cases "c < i \<and> load_int b c = target")
    case True
    with "1.IH" have "c + 1 \<le> find_int b target (c + 1) i" "find_int b target (c + 1) i \<le> i"
      "\<forall>j. c + 1 \<le> j \<and> j < find_int b target (c + 1) i \<longrightarrow> load_int b j = target"
      "find_int b target (c + 1) i \<noteq> i \<longrightarrow> load_int b (find_int b target (c + 1) i) \<noteq> target"
      by auto
    moreover have "find_int b target c i = find_int b target (c + 1) i"
      using True by (simp add: find_int.simps [of b target c i])
    ultimately show ?thesis using True by (metis Suc_eq_plus1 Suc_leD Suc_leI le_neq_implies_less)
  next
    case False
    with "1.prems" show ?thesis by (auto simp: find_int.simps [of b target c i])
  qed
qed

lemma find_bit_spec:
  "case find_bit b want base a r of
     Some k \<Rightarrow> base + a \<le> k \<and> k < base + r \<and> bitmap_is_set b k = want \<and>
       (\<forall>j. base + a \<le> j \<and> j < k \<longrightarrow> bitmap_is_set b j \<noteq> want)
   | None \<Rightarrow> \<forall>j. base + a \<le> j \<and> j < base + r \<longrightarrow> bitmap_is_set b j \<noteq> want"
proof (induction b want base a r rule: find_bit.induct)
  case (1 b want base a r)
  show ?case
  proof (cases "a < r \<and> bitmap_is_set b (base + a) \<noteq> want")
    case True
    then have eq: "find_bit b want base a r = find_bit b want base (a + 1) r"
      by (simp add: find_bit.simps [of b want base a r])
    have step: "base + a \<le> j \<longleftrightarrow> j = base + a \<or> base + (a + 1) \<le> j" for j by auto
    show ?thesis using "1.IH" True unfolding eq step
      by (auto split: option.splits)
  next
    case False
    then show ?thesis by (auto simp: find_bit.simps [of b want base a r])
  qed
qed

lemma word_all_or_nothing:
  "load_int b c = (if s then 0 else -1) \<longleftrightarrow> (\<forall>k<32. bitmap_is_set b (c * 32 + k) \<noteq> s)"
  by (auto simp: bit_eq_iff bit_load_int [symmetric] dest: bit_imp_le_length)

lemma ffs_word_first:
  assumes "load_int b c \<noteq> (if s then 0 else -1)"
  shows "\<exists>k<32. bitmap_is_set b (c * 32 + k) = s \<and> (\<forall>i<k. bitmap_is_set b (c * 32 + i) \<noteq> s) \<and>
           ffs (if s then load_int b c else NOT (load_int b c)) = int k + 1"
proof -
  let ?w = "if s then load_int b c else NOT (load_int b c)"
  have "?w \<noteq> 0" using assms by (auto simp: bit_eq_iff bit_simps)
  from ffs_lowest [OF this] obtain k where
    "k < 32" "bit ?w k" "\<forall>i<k. \<not> bit ?w i" "ffs ?w = int k + 1" by blast
  then show ?thesis
    by (intro exI [of _ k], cases s) (auto simp: bit_load_int [symmetric] bit_simps)
qed

lemma bitmap_find_first_none:
  assumes "\<forall>k<n. bitmap_is_set b k \<noteq> s"
  shows "bitmap_find_first b n s = n + 1"
proof -
  let ?t = "if s then 0 else -1 :: u32" and ?i = "n div 32"
  have "find_int b ?t 0 ?i = ?i"
  proof (rule ccontr)
    assume ne: "find_int b ?t 0 ?i \<noteq> ?i"
    let ?c = "find_int b ?t 0 ?i"
    have c: "?c < ?i" "load_int b ?c \<noteq> ?t" using find_int_spec [of 0 ?i b ?t] ne by auto
    then obtain k where "k < 32" "bitmap_is_set b (?c * 32 + k) = s"
      using ffs_word_first by blast
    moreover have "?c * 32 + k < n" using c(1) \<open>k < 32\<close> by linarith
    ultimately show False using assms by blast
  qed
  moreover have "find_bit b s (?i * 32) 0 (n - ?i * 32) = None"
    using find_bit_spec [where b = b and want = s and base = "?i * 32" and a = 0 and r = "n - ?i * 32"] assms
    by (auto split: option.splits)
  ultimately show ?thesis by (simp add: bitmap_find_first_def Let_def)
qed

lemma bitmap_find_first_some:
  assumes "k < n" "bitmap_is_set b k = s"
  shows "bitmap_find_first b n s < n \<and> bitmap_is_set b (bitmap_find_first b n s) = s \<and>
           (\<forall>j < bitmap_find_first b n s. bitmap_is_set b j \<noteq> s)"
proof -
  let ?t = "if s then 0 else -1 :: u32" and ?i = "n div 32"
  let ?c = "find_int b ?t 0 ?i"
  note c = find_int_spec [of 0 ?i b ?t, simplified]
  have before: "bitmap_is_set b j \<noteq> s" if "j < ?c * 32" for j
  proof -
    have "j div 32 < ?c" using that by linarith
    then have "load_int b (j div 32) = ?t" using c by blast
    then have "bitmap_is_set b (j div 32 * 32 + j mod 32) \<noteq> s"
      using word_all_or_nothing [of b "j div 32" s] by (metis mod_less_divisor zero_less_numeral)
    then show ?thesis by simp
  qed
  show ?thesis
  proof (cases "?c = ?i")
    case False
    then have less: "?c < ?i" and ne: "load_int b ?c \<noteq> ?t" using c by auto
    from ffs_word_first [OF ne] obtain m where m: "m < 32" "bitmap_is_set b (?c * 32 + m) = s"
      "\<forall>i<m. bitmap_is_set b (?c * 32 + i) \<noteq> s"
      "ffs (if s then load_int b ?c else NOT (load_int b ?c)) = int m + 1" by blast
    have eq: "bitmap_find_first b n s = ?c * 32 + m"
      using False m(4) by (simp add: bitmap_find_first_def Let_def)
    have "bitmap_is_set b j \<noteq> s" if "j < ?c * 32 + m" for j
      using that before [of j] m(3) by (cases "j < ?c * 32") (auto dest!: spec [of _ "j - ?c * 32"])
    moreover have "?c * 32 + m < n" using less m(1) by linarith
    ultimately show ?thesis unfolding eq using m(2) by blast
  next
    case True
    let ?r = "n - ?i * 32"
    have k: "?i * 32 \<le> k" using before [of k] assms(2) True by (metis not_less)
    have r: "?r \<noteq> 0" using k assms(1) by linarith
    note f = find_bit_spec [where b = b and want = s and base = "?i * 32" and a = 0 and r = ?r]
    from f k assms obtain m where m: "find_bit b s (?i * 32) 0 ?r = Some m"
      by (cases "find_bit b s (?i * 32) 0 ?r") auto
    have eq: "bitmap_find_first b n s = m"
      using True r m by (simp add: bitmap_find_first_def Let_def)
    have "bitmap_is_set b j \<noteq> s" if "j < m" for j
      using that before [of j] f unfolding m True by (cases "j < ?i * 32") auto
    then show ?thesis unfolding eq using f unfolding m by auto
  qed
qed

subsection \<open>Byte swaps\<close>

text \<open>The byte masks of the swaps, as shifted eight-bit masks.\<close>

lemma byte_masks16: "(0xff00::u16) = push_bit 8 (mask 8)" "(0x00ff::u16) = push_bit 0 (mask 8)"
  by (simp_all add: mask_eq_exp_minus_1)

lemma byte_masks32:
  "(0xff000000::u32) = push_bit 24 (mask 8)" "(0x00ff0000::u32) = push_bit 16 (mask 8)"
  "(0x0000ff00::u32) = push_bit 8 (mask 8)" "(0x000000ff::u32) = push_bit 0 (mask 8)"
  by (simp_all add: mask_eq_exp_minus_1)

lemma byte_masks64:
  "(0xff00000000000000::u64) = push_bit 56 (mask 8)" "(0x00ff000000000000::u64) = push_bit 48 (mask 8)"
  "(0x0000ff0000000000::u64) = push_bit 40 (mask 8)" "(0x000000ff00000000::u64) = push_bit 32 (mask 8)"
  "(0x00000000ff000000::u64) = push_bit 24 (mask 8)" "(0x0000000000ff0000::u64) = push_bit 16 (mask 8)"
  "(0x000000000000ff00::u64) = push_bit 8 (mask 8)" "(0x00000000000000ff::u64) = push_bit 0 (mask 8)"
  by (simp_all add: mask_eq_exp_minus_1)

lemma bit_byte:
  fixes u :: "'a::len word"
  shows "bit (u AND push_bit m (mask 8)) i \<longleftrightarrow> bit u i \<and> m \<le> i \<and> i < m + 8"
  by (auto simp: bit_simps bit_imp_le_length dest: bit_imp_le_length)

lemma bit_byte_down:
  fixes u :: "'a::len word"
  shows "bit (drop_bit s (u AND push_bit m (mask 8))) i \<longleftrightarrow> bit u (s + i) \<and> m \<le> s + i \<and> s + i < m + 8"
  by (simp only: bit_drop_bit_eq bit_byte comp_def)

lemma bit_byte_up:
  fixes u :: "'a::len word"
  shows "bit (push_bit s (u AND push_bit m (mask 8))) i \<longleftrightarrow>
           i < LENGTH('a) \<and> s \<le> i \<and> bit u (i - s) \<and> m + s \<le> i \<and> i < m + s + 8"
  by (auto simp only: bit_push_bit_iff bit_byte possible_bit_word)

lemmas bit_bytes = bit_or_iff bit_byte_down bit_byte_up

lemma bswap16_bit:
  "bit (bswap16 u) n \<longleftrightarrow> n < 16 \<and> bit u (if n < 8 then n + 8 else n - 8)"
  unfolding bswap16_def byte_masks16 bit_bytes
  by (auto simp: add.commute dest: bit_imp_le_length)

lemma bswap32_byte:
  "r < 8 \<Longrightarrow> q < 4 \<Longrightarrow> bit (bswap32 u) (8 * q + r) \<longleftrightarrow> bit u (8 * (3 - q) + r)"
proof -
  assume r: "r < 8" and "q < 4"
  then have "q = 0 \<or> q = 1 \<or> q = 2 \<or> q = 3" by linarith
  then show ?thesis
    unfolding bswap32_def byte_masks32 bit_bytes
    by (elim disjE; use r in simp)
qed

lemma bswap64_byte:
  "r < 8 \<Longrightarrow> q < 8 \<Longrightarrow> bit (bswap64 u) (8 * q + r) \<longleftrightarrow> bit u (8 * (7 - q) + r)"
proof -
  assume r: "r < 8" and "q < 8"
  then have "q = 0 \<or> q = 1 \<or> q = 2 \<or> q = 3 \<or> q = 4 \<or> q = 5 \<or> q = 6 \<or> q = 7" by linarith
  then show ?thesis
    unfolding bswap64_def byte_masks64 bit_bytes
    by (elim disjE; use r in simp)
qed

section \<open>Properties\<close>

lemma bit_word_byte:
  assumes "n < 64"
  obtains q r where "q < (8::nat)" "r < (8::nat)" "n = 8 * q + r"
proof
  show "n div 8 < 8" using assms by linarith
  show "n mod 8 < 8" "n = 8 * (n div 8) + n mod 8" by simp_all
qed

text \<open>\<^verbatim>\<open>bswap64\<close> reverses the eight bytes of its argument and
  is its own inverse, as the conversion between the big-endian device tree and the
  little-endian kernel needs in both directions.\<close>

theorem bswap64_reverses:
  "bswap64 (bswap64 u) = u \<and>
   (\<forall>q r. q < 8 \<and> r < 8 \<longrightarrow> bit (bswap64 u) (8 * q + r) = bit u (8 * (7 - q) + r))"
proof -
  have "bswap64 (bswap64 u) = u"
  proof (rule bit_word_eqI)
    fix n assume "n < LENGTH(64)"
    then obtain q r where "q < 8" "r < 8" "n = 8 * q + r" using bit_word_byte [of n] by auto
    moreover from \<open>q < 8\<close> have "7 - q < 8" "7 - (7 - q) = q" by linarith+
    ultimately show "bit (bswap64 (bswap64 u)) n = bit u n" by (simp only: bswap64_byte)
  qed
  then show ?thesis by (simp add: bswap64_byte)
qed

theorem bswap64_reverses_witness:
  "bswap64 (bswap64 0x0102030405060708) = 0x0102030405060708 \<and>
   bit (bswap64 0x0102030405060708) (8 * 0 + 0) = bit (0x0102030405060708 :: u64) (8 * (7 - 0) + 0)"
  using bswap64_reverses [of "0x0102030405060708"]
  by (metis (no_types) zero_less_numeral)

text \<open>\<^verbatim>\<open>ffs\<close> is zero exactly on the zero word and otherwise one more
  than the index of the least significant set bit.\<close>

theorem ffs_finds_lowest:
  "if v = 0 then ffs v = 0
   else 1 \<le> ffs v \<and> ffs v \<le> 32 \<and> bit v (nat (ffs v - 1)) \<and>
     (\<forall>i < nat (ffs v - 1). \<not> bit v i)"
  using ffs_lowest [of v] by (auto simp: ffs_def)

theorem ffs_finds_lowest_witness:
  "1 \<le> ffs 0x50 \<and> bit (0x50 :: u32) (nat (ffs 0x50 - 1))"
  using ffs_finds_lowest [of "0x50"] by simp


end
