(* ===== verification/Utils.thy ===== *)
theory Utils
  imports Bits
begin

text \<open>
  Arithmetic helpers of \<^verbatim>\<open>include/kmi/utils.h\<close>: alignment of unsigned values (the
  instances of \<^verbatim>\<open>DEFINE_ALIGN_DOWN\<close>, \<^verbatim>\<open>DEFINE_ALIGN_UP\<close> and \<^verbatim>\<open>DEFINE_ALIGNED\<close> at the
  unsigned types, one definition polymorphic in the width), minima, maxima, absolute
  values and the conversion of ASCII numbers.
\<close>

section \<open>Alignment\<close>

definition align_down :: "'a::len word \<Rightarrow> 'a word \<Rightarrow> 'a word" where
  "align_down val a =
     (if a = 0 then val
      else if is_powerof2 a then val AND NOT (a - 1)
      else val - (val mod a))"

definition align_up :: "'a::len word \<Rightarrow> 'a word \<Rightarrow> 'a word" where
  "align_up val a =
     (let new = align_down val a
      in if new = val then val else new + a)"

definition is_aligned :: "'a::len word \<Rightarrow> 'a word \<Rightarrow> bool" where
  "is_aligned val a = (let new = align_down val a in new = val)"

section \<open>Minima, maxima, absolute values\<close>

definition ABS_c :: "int \<Rightarrow> int" where
  "ABS_c a = (if a < 0 then - a else a)"

definition MAX_c :: "'a::linorder \<Rightarrow> 'a \<Rightarrow> 'a" where
  "MAX_c a b = (if a \<ge> b then a else b)"

definition MAX3 :: "'a::linorder \<Rightarrow> 'a \<Rightarrow> 'a \<Rightarrow> 'a" where
  "MAX3 a b c = (if MAX_c a b \<ge> MAX_c b c then MAX_c a b else MAX_c b c)"

definition MAX4 :: "'a::linorder \<Rightarrow> 'a \<Rightarrow> 'a \<Rightarrow> 'a \<Rightarrow> 'a" where
  "MAX4 a b c d = (if MAX3 a b c \<ge> MAX3 b c d then MAX3 a b c else MAX3 b c d)"

definition MIN_c :: "'a::linorder \<Rightarrow> 'a \<Rightarrow> 'a" where
  "MIN_c a b = (if a \<le> b then a else b)"

definition MIN3 :: "'a::linorder \<Rightarrow> 'a \<Rightarrow> 'a \<Rightarrow> 'a" where
  "MIN3 a b c = (if MIN_c a b \<le> MIN_c b c then MIN_c a b else MIN_c b c)"

definition MIN4 :: "'a::linorder \<Rightarrow> 'a \<Rightarrow> 'a \<Rightarrow> 'a \<Rightarrow> 'a" where
  "MIN4 a b c d = (if MIN3 a b c \<le> MIN3 b c d then MIN3 a b c else MIN3 b c d)"

section \<open>ASCII numbers\<close>

text \<open>Characters are bytes; riscv64's \<open>char\<close> is unsigned.\<close>

definition asciinum :: "u8 \<Rightarrow> int" where
  "asciinum c =
     (if 0x30 \<le> c \<and> c \<le> 0x39 then uint c - 0x30
      else if 0x41 \<le> c \<and> c \<le> 0x46 then uint c - 0x41 + 10
      else if 0x61 \<le> c \<and> c \<le> 0x66 then uint c - 0x61 + 10
      else -1)"

text \<open>
  The loop of \<open>convnum\<close> from index \<open>i\<close>: it reads \<open>c[len - 1 - i]\<close>; the digit is an
  \<open>int\<close> and becomes a \<open>size_t\<close> in the multiplication, and everything wraps at 64 bits.
\<close>

function convnum_from :: "(nat \<Rightarrow> u8) \<Rightarrow> nat \<Rightarrow> u64 \<Rightarrow> nat \<Rightarrow> u64 \<Rightarrow> u64 \<Rightarrow> u64" where
  "convnum_from c len base i multiplier acc =
     (if i < len then
        convnum_from c len base (i + 1) (multiplier * base)
          (acc + of_int (asciinum (c (len - 1 - i))) * multiplier)
      else acc)"
  by pat_completeness auto
termination
  by (relation "measure (\<lambda>(c, len, base, i, m, s). len - i)") auto

declare convnum_from.simps [simp del]

definition convnum :: "(nat \<Rightarrow> u8) \<Rightarrow> nat \<Rightarrow> u64 \<Rightarrow> u64" where
  "convnum c len base = convnum_from c len base 0 1 0"

section \<open>Lemmas\<close>

lemma is_powerof2_exp:
  fixes a :: "'a::len word"
  assumes "is_powerof2 a" "a \<noteq> 0"
  obtains k where "k < LENGTH('a)" "a = 2 ^ k"
proof -
  obtain k u where k: "k < LENGTH('a)" "a = push_bit k u" "odd u" "bit a k" "\<forall>i<k. \<not> bit a i"
    using word_lowest_bit [OF assms(2)] by blast
  have "a AND NOT (a - 1) = push_bit k 1"
    using word_lowest_bit_isolate [OF k(2,3)] by (simp add: minus_eq_not_minus_1)
  moreover have "a AND NOT (a - 1) = a"
  proof -
    have "a = (a AND (a - 1)) OR (a AND NOT (a - 1))"
      by (simp add: bit.conj_disj_distrib [symmetric])
    then show ?thesis using assms(1) by (simp add: is_powerof2_def)
  qed
  ultimately have "a = 2 ^ k" by (simp add: push_bit_of_1)
  then show ?thesis using that k(1) by blast
qed

lemma is_powerof2_exp_I: "is_powerof2 (2 ^ k :: 'a::len word)"
  unfolding is_powerof2_def mask_eq_exp_minus_1 [symmetric]
  by (rule bit_word_eqI) (simp add: bit_simps)

lemma and_not_mask_eq_sub_mod:
  fixes v :: "'a::len word"
  assumes "k < LENGTH('a)"
  shows "v AND NOT (2 ^ k - 1) = v - v mod 2 ^ k"
proof -
  have pos: "(2 ^ k :: 'a word) > 0"
    using assms possible_bit_word [where 'a = 'a, of k] by (simp add: possible_bit_def word_gt_0)
  have "v mod 2 ^ k = v AND mask k"
    using pos by (rule word_mod_2p_is_mask)
  moreover have "v - (v AND mask k) = v AND NOT (v AND mask k)"
    by (rule disjunctive_diff_eq_and_not) (simp add: and.assoc [symmetric])
  moreover have "v AND NOT (v AND mask k) = v AND NOT (mask k)"
    by (rule bit_word_eqI) (auto simp: bit_simps)
  ultimately show ?thesis by (simp add: mask_eq_exp_minus_1)
qed

lemma align_down_eq_sub_mod:
  fixes v a :: "'a::len word"
  assumes "a \<noteq> 0"
  shows "align_down v a = v - v mod a"
proof (cases "is_powerof2 a")
  case True
  then obtain k where "k < LENGTH('a)" "a = 2 ^ k" using assms by (rule is_powerof2_exp)
  then show ?thesis using True assms by (simp add: align_down_def and_not_mask_eq_sub_mod)
next
  case False
  then show ?thesis using assms by (simp add: align_down_def)
qed

lemma unat_align_down:
  fixes v a :: "'a::len word"
  assumes "a \<noteq> 0"
  shows "unat (align_down v a) = unat v div unat a * unat a"
proof -
  have "unat (v - v mod a) = unat v - unat (v mod a)"
    by (rule unat_sub) (simp add: word_le_nat_alt unat_mod)
  then show ?thesis
    using assms by (simp add: align_down_eq_sub_mod unat_mod minus_mod_eq_div_mult)
qed

lemma unat_align_up:
  fixes v a :: "'a::len word"
  assumes "a \<noteq> 0" and "unat v + unat a \<le> 2 ^ LENGTH('a)"
  shows "unat (align_up v a) = (unat v + unat a - 1) div unat a * unat a"
proof -
  let ?v = "unat v" and ?a = "unat a" and ?d = "align_down v a"
  have a: "0 < ?a" using assms(1) by (simp add: unat_gt_0)
  have d: "unat ?d = ?v div ?a * ?a" using assms(1) by (rule unat_align_down)
  show ?thesis
  proof (cases "?d = v")
    case True
    then have "?a dvd ?v" using d by (metis dvd_triv_right)
    then have "(?v + ?a - 1) div ?a = ?v div ?a"
      using a by (auto elim!: dvdE simp: div_nat_eqI)
    then show ?thesis using True d by (simp add: align_up_def)
  next
    case False
    then have "unat ?d \<noteq> ?v" by (simp add: word_unat_eq_iff)
    then have m: "?v mod ?a \<noteq> 0" using d div_mult_mod_eq [of ?v ?a] by linarith
    have "(?v + ?a - 1) div ?a = ?v div ?a + 1"
    proof -
      have "?v + ?a - 1 = (?v mod ?a - 1) + (?v div ?a * ?a + ?a)"
        using m div_mult_mod_eq [of ?v ?a] by linarith
      then have "?v + ?a - 1 = (?v mod ?a - 1) + (?v div ?a + 1) * ?a" by simp
      then have "(?v + ?a - 1) div ?a = ((?v mod ?a - 1) + (?v div ?a + 1) * ?a) div ?a" by (rule arg_cong)
      also have "\<dots> = (?v div ?a + 1) + (?v mod ?a - 1) div ?a"
        using a by (intro div_mult_self1) simp
      also have "(?v mod ?a - 1) div ?a = 0" using mod_less_divisor [OF a, of ?v] by simp
      finally show ?thesis by simp
    qed
    moreover have "unat (?d + a) = unat ?d + ?a"
      using d m assms(2) div_mult_mod_eq [of ?v ?a]
      by (intro unat_add_lem [THEN iffD1]) linarith
    ultimately show ?thesis using False d by (simp add: align_up_def Let_def)
  qed
qed

lemma is_aligned_dvd:
  fixes v a :: "'a::len word"
  assumes "a \<noteq> 0"
  shows "is_aligned v a \<longleftrightarrow> unat a dvd unat v"
  using assms unat_align_down [OF assms, of v]
  by (metis dvd_div_mult_self dvd_triv_right is_aligned_def word_unat_eq_iff)

lemma is_aligned_align_up:
  fixes v a :: "'a::len word"
  assumes "a \<noteq> 0" and "unat v + unat a \<le> 2 ^ LENGTH('a)"
  shows "is_aligned (align_up v a) a"
  using assms by (simp add: is_aligned_dvd unat_align_up)

section \<open>Properties\<close>

lemma multiple_above:
  assumes "0 < (a::nat)" "a dvd w" "v \<le> w"
  shows "(v + a - 1) div a * a \<le> w"
proof -
  obtain k where k: "w = k * a" using assms(2) by (metis dvdE mult.commute)
  have "v + a - 1 < (k + 1) * a" using assms k by (simp add: algebra_simps)
  then have "(v + a - 1) div a < k + 1" using assms(1) by (simp add: div_less_iff_less_mult)
  then show ?thesis using k by simp
qed

text \<open>(C39) Where the result fits its type, \<^verbatim>\<open>align_up\<close> is the least
  multiple of the alignment at or above the value, for powers of two and for every other
  alignment alike; \<^verbatim>\<open>align_down\<close> is the greatest at or below it.\<close>

theorem align_up_least:
  fixes v a :: u64
  assumes "a \<noteq> 0" and "unat v + unat a \<le> 2 ^ 64"
  shows "unat a dvd unat (align_up v a) \<and> v \<le> align_up v a \<and>
     unat a dvd unat (align_down v a) \<and> align_down v a \<le> v \<and>
     (\<forall>w. unat a dvd unat w \<longrightarrow> (v \<le> w \<longrightarrow> align_up v a \<le> w) \<and> (w \<le> v \<longrightarrow> w \<le> align_down v a))"
proof -
  have a: "0 < unat a" using assms(1) by (simp add: unat_gt_0)
  have up: "unat (align_up v a) = (unat v + unat a - 1) div unat a * unat a"
    using unat_align_up [of a v] assms by simp
  have down: "unat (align_down v a) = unat v div unat a * unat a"
    using assms(1) by (rule unat_align_down)
  have "unat v \<le> (unat v + unat a - 1) div unat a * unat a"
    using div_mult_mod_eq [of "unat v + unat a - 1" "unat a"]
      mod_less_divisor [OF a, of "unat v + unat a - 1"] a by linarith
  moreover have "unat w \<le> unat v div unat a * unat a" if "unat a dvd unat w" "unat w \<le> unat v" for w :: u64
  proof -
    have "unat w div unat a \<le> unat v div unat a" using that(2) by (rule div_le_mono)
    then have "unat w div unat a * unat a \<le> unat v div unat a * unat a" by (rule mult_le_mono1)
    then show ?thesis using that(1) by simp
  qed
  ultimately show ?thesis
    using multiple_above [OF a] by (auto simp: word_le_nat_alt up down)
qed

theorem align_up_least_witness:
  "unat (12 :: u64) dvd unat (align_up 100 (12 :: u64)) \<and> (100 :: u64) \<le> align_up 100 12 \<and>
   align_up 100 12 \<le> (108 :: u64)"
  using align_up_least [of 12 100] by simp

lemma convnum_from_eq:
  "convnum_from c len base i m acc =
     acc + m * foldl (\<lambda>a k. a * base + of_int (asciinum (c k))) 0 [0..<len - i]"
proof (induction c len base i m acc rule: convnum_from.induct)
  case (1 c len base i m acc)
  show ?case
  proof (cases "i < len")
    case True
    then have "[0..<len - i] = [0..<len - (i + 1)] @ [len - 1 - i]"
      by (metis Suc_diff_Suc diff_Suc_eq_diff_pred Suc_eq_plus1 upt_Suc_append zero_le)
    then show ?thesis
      using True "1.IH" by (simp add: convnum_from.simps [of c len base i] algebra_simps)
  next
    case False
    then show ?thesis by (simp add: convnum_from.simps [of c len base i])
  qed
qed

text \<open>\<^verbatim>\<open>convnum\<close> reads its buffer as a number in the given base,
  most significant digit first, modulo the word size.\<close>

theorem convnum_positional:
  "convnum c len base =
     foldl (\<lambda>acc k. acc * base + of_int (asciinum (c k))) 0 [0..<len]"
  by (simp add: convnum_def convnum_from_eq)

end
