(* ===== verification/Mem.thy ===== *)
theory Mem
  imports Utils
begin

text \<open>
  Page orders and address arithmetic: \<^verbatim>\<open>src/mem.c\<close>, \<^verbatim>\<open>include/kmi/mem.h\<close>, the riscv64
  parameters of \<^verbatim>\<open>arch/riscv64/kernel/pmem.c\<close>, \<^verbatim>\<open>arch/riscv64/config.h\<close> and
  \<^verbatim>\<open>arch/riscv64/include\<close>, and the status codes of \<^verbatim>\<open>include/kmi/syscalls.h\<close>. The
  static variables of \<^verbatim>\<open>mem.c\<close> are the record \<open>mem_state\<close>; the tables have an entry for
  every \<open>nat\<close>, and the C arrays are the entries below 10. An order is a \<open>nat\<close>;
  \<open>MM_MIN\<close>, the value -1, is the end of the loops that count down.
\<close>

section \<open>Status codes and constants\<close>

type_synonym stat_t = int

definition OK :: stat_t where "OK = 0"
definition ERR_NF :: stat_t where "ERR_NF = -1"
definition ERR_ALIGN :: stat_t where "ERR_ALIGN = -2"
definition ERR_ADDR :: stat_t where "ERR_ADDR = -3"
definition ERR_OOMEM :: stat_t where "ERR_OOMEM = -4"
definition ERR_EXT :: stat_t where "ERR_EXT = -5"
definition ERR_INVAL :: stat_t where "ERR_INVAL = -6"
definition ERR_NOINIT :: stat_t where "ERR_NOINIT = -7"
definition ERR_MISC :: stat_t where "ERR_MISC = -8"
definition ERR_INT :: stat_t where "ERR_INT = -9"
definition ERR_PERM :: stat_t where "ERR_PERM = -10"

lemmas status_defs = OK_def ERR_NF_def ERR_ALIGN_def ERR_ADDR_def ERR_OOMEM_def ERR_EXT_def
  ERR_INVAL_def ERR_NOINIT_def ERR_MISC_def ERR_INT_def ERR_PERM_def

text \<open>\<open>order_size(BASE_PAGE)\<close>, which \<open>init_mem\<close> sets once and for all.\<close>

definition BASE_PAGE_SIZE :: u64 where "BASE_PAGE_SIZE = 4096"

definition VM_DMAP :: u64 where "VM_DMAP = 0xffffffc000000000"

definition va :: "u64 \<Rightarrow> u64" where "va x = x + VM_DMAP"

definition pa :: "u64 \<Rightarrow> u64" where "pa x = x - VM_DMAP"

definition page_nr :: "u64 \<Rightarrow> u64" where "page_nr x = x div BASE_PAGE_SIZE"

definition page_addr :: "u64 \<Rightarrow> u64" where "page_addr x = x * BASE_PAGE_SIZE"

definition pages_of :: "u64 \<Rightarrow> u64" where
  "pages_of x = (if is_aligned x BASE_PAGE_SIZE then page_nr x else page_nr (x + BASE_PAGE_SIZE))"

definition ERR_CODE :: "u64 \<Rightarrow> bool" where
  "ERR_CODE x \<longleftrightarrow> x > - BASE_PAGE_SIZE"

section \<open>Page orders\<close>

record mem_state =
  mm_shifts :: "nat \<Rightarrow> u64"
  mm_widths :: "nat \<Rightarrow> u64"
  mm_sizes :: "nat \<Rightarrow> u64"
  mm_page_shift :: u64
  mm_max_order :: nat
  ram_base :: u64
  ram_size :: u64
  load_addr :: u64

definition order_shift :: "mem_state \<Rightarrow> nat \<Rightarrow> u64" where
  "order_shift m order = mm_shifts m order"

definition order_size :: "mem_state \<Rightarrow> nat \<Rightarrow> u64" where
  "order_size m order = mm_sizes m order"

definition max_order :: "mem_state \<Rightarrow> nat" where
  "max_order m = mm_max_order m"

definition order_width :: "mem_state \<Rightarrow> nat \<Rightarrow> u64" where
  "order_width m order = mm_widths m order"

definition page_shift :: "mem_state \<Rightarrow> u64" where
  "page_shift m = mm_page_shift m"

lemmas order_defs = order_shift_def order_size_def max_order_def order_width_def page_shift_def

definition pm_to_index :: "mem_state \<Rightarrow> u64 \<Rightarrow> nat \<Rightarrow> u64" where
  "pm_to_index m p order =
     drop_bit (unat (order_shift m order)) p AND (order_width m order - 1)"

definition max_index :: "mem_state \<Rightarrow> nat \<Rightarrow> u64" where
  "max_index m order = order_width m order - 1"

text \<open>
  \<open>nearest_order\<close> counts down from \<open>max_order()\<close> and its guard lets the order reach
  \<open>MM_MIN\<close>, where \<open>order_size\<close> reads before the start of the table: that read is
  \<open>None\<close>, which no result of the C function describes.
\<close>

fun nearest_order_from :: "mem_state \<Rightarrow> u64 \<Rightarrow> nat \<Rightarrow> nat option" where
  "nearest_order_from m sz order =
     (if order_size m order \<ge> sz then Some order
      else case order of 0 \<Rightarrow> None | Suc o' \<Rightarrow> nearest_order_from m sz o')"

declare nearest_order_from.simps [simp del]

definition nearest_order :: "mem_state \<Rightarrow> u64 \<Rightarrow> nat option" where
  "nearest_order m sz = nearest_order_from m sz (max_order m)"

text \<open>\<open>stat_pmem_conf\<close> for riscv64: top order, page offset bits, index bits per order.\<close>

definition stat_pmem_conf :: "nat \<times> u64 \<times> (nat \<Rightarrow> u64)" where
  "stat_pmem_conf = (let nbits = 9; top = 2 in (top, 12, \<lambda>i. if i \<le> top then nbits else 0))"

function init_orders :: "mem_state \<Rightarrow> (nat \<Rightarrow> u64) \<Rightarrow> nat \<Rightarrow> mem_state" where
  "init_orders m bits i =
     (if i \<le> max_order m then
        let m1 = m\<lparr>mm_widths := (mm_widths m)(i := push_bit (unat (bits i)) 1)\<rparr>;
            m2 = m1\<lparr>mm_shifts := (mm_shifts m1)(i := mm_shifts m1 (i - 1) + bits (i - 1))\<rparr>;
            m3 = m2\<lparr>mm_sizes := (mm_sizes m2)(i := push_bit (unat (mm_shifts m2 i)) 1)\<rparr>
        in init_orders m3 bits (i + 1)
      else m)"
  by pat_completeness auto
termination
  by (relation "measure (\<lambda>(m, bits, i). Suc (mm_max_order m) - i)")
    (auto simp: max_order_def Let_def)

declare init_orders.simps [simp del]

definition init_mem :: "mem_state \<Rightarrow> mem_state" where
  "init_mem m =
     (let (top_order, base_bits, bits) = stat_pmem_conf;
          m1 = m\<lparr>mm_max_order := top_order, mm_page_shift := base_bits\<rparr>;
          m2 = m1\<lparr>mm_shifts := (mm_shifts m1)(0 := mm_page_shift m1),
                  mm_widths := (mm_widths m1)(0 := push_bit (unat (bits 0)) 1),
                  mm_sizes := (mm_sizes m1)(0 := push_bit (unat (mm_page_shift m1)) 1)\<rparr>
      in init_orders m2 bits 1)"

definition set_ram_base :: "mem_state \<Rightarrow> u64 \<Rightarrow> mem_state" where
  "set_ram_base m base = m\<lparr>ram_base := base\<rparr>"

definition set_ram_size :: "mem_state \<Rightarrow> u64 \<Rightarrow> mem_state" where
  "set_ram_size m sz = m\<lparr>ram_size := sz\<rparr>"

definition set_load_addr :: "mem_state \<Rightarrow> u64 \<Rightarrow> mem_state" where
  "set_load_addr m addr = m\<lparr>load_addr := addr\<rparr>"

section \<open>Lemmas\<close>

text \<open>The static data of \<^verbatim>\<open>mem.c\<close> before \<open>init_mem\<close>: all zero.\<close>

definition mem_zero :: mem_state where
  "mem_zero = \<lparr>mm_shifts = (\<lambda>_. 0), mm_widths = (\<lambda>_. 0), mm_sizes = (\<lambda>_. 0), mm_page_shift = 0,
     mm_max_order = 0, ram_base = 0, ram_size = 0, load_addr = 0\<rparr>"

text \<open>What \<open>init_mem\<close> establishes on riscv64 and the rest of the kernel relies on.\<close>

definition sv39 :: "mem_state \<Rightarrow> bool" where
  "sv39 m \<longleftrightarrow> max_order m = 2 \<and> page_shift m = 12 \<and>
     order_shift m 0 = 12 \<and> order_shift m 1 = 21 \<and> order_shift m 2 = 30 \<and>
     order_width m 0 = 512 \<and> order_width m 1 = 512 \<and> order_width m 2 = 512 \<and>
     order_size m 0 = 0x1000 \<and> order_size m 1 = 0x200000 \<and> order_size m 2 = 0x40000000"

lemma sv39_init_mem: "sv39 (init_mem m)"
  by (simp add: sv39_def init_mem_def stat_pmem_conf_def init_orders.simps order_defs
      push_bit_of_1 Let_def)

lemma init_mem_ram [simp]:
  "ram_base (init_mem m) = ram_base m" "ram_size (init_mem m) = ram_size m"
  "load_addr (init_mem m) = load_addr m"
  by (simp_all add: init_mem_def stat_pmem_conf_def init_orders.simps order_defs)

lemma sv39_orders:
  assumes "sv39 m" "order \<le> 2"
  shows "unat (order_shift m order) = 12 + 9 * order" "order_width m order = 512"
    "order_size m order = 2 ^ (12 + 9 * order)"
proof -
  have "order = 0 \<or> order = 1 \<or> order = 2" using assms(2) by linarith
  then show "unat (order_shift m order) = 12 + 9 * order" "order_width m order = 512"
    "order_size m order = 2 ^ (12 + 9 * order)"
    using assms(1) by (auto simp: sv39_def)
qed

lemma sv39_max_order [simp]: "sv39 m \<Longrightarrow> max_order m = 2"
  by (simp add: sv39_def)

lemma va_pa [simp]: "va (pa x) = x" "pa (va x) = x"
  by (simp_all add: va_def pa_def)

lemma unat_pm_to_index:
  assumes "sv39 m" "order \<le> 2"
  shows "unat (pm_to_index m v order) = unat v div 2 ^ (12 + 9 * order) mod 512"
proof -
  have mask: "(511::u64) = mask 9" by (simp add: mask_eq_exp_minus_1)
  have "pm_to_index m v order = drop_bit (12 + 9 * order) v AND mask 9"
    using sv39_orders [OF assms] by (simp add: pm_to_index_def mask)
  also have "\<dots> = take_bit 9 (drop_bit (12 + 9 * order) v)"
    by (rule take_bit_eq_mask [symmetric])
  finally have "unat (pm_to_index m v order) = take_bit 9 (drop_bit (12 + 9 * order) (unat v))"
    by (simp only: unsigned_take_bit_eq unat_drop_bit_eq)
  then show ?thesis
    by (simp add: take_bit_eq_mod drop_bit_eq_div)
qed

lemma pm_to_index_less:
  assumes "sv39 m" "order \<le> 2"
  shows "unat (pm_to_index m v order) < 512"
  using unat_pm_to_index [OF assms] by simp

text \<open>A virtual address is its three table indices and its page offset, in 39 bits.\<close>

lemma address_split_nat:
  fixes x :: nat
  shows "x mod 2 ^ 39 = x div 2 ^ 30 mod 512 * 2 ^ 30 + x div 2 ^ 21 mod 512 * 2 ^ 21 +
     x div 2 ^ 12 mod 512 * 2 ^ 12 + x mod 2 ^ 12"
proof -
  have "x mod 2 ^ 39 = x mod (2 ^ 30 * 512)" "x mod 2 ^ 30 = x mod (2 ^ 21 * 512)"
    "x mod 2 ^ 21 = x mod (2 ^ 12 * 512)" by simp_all
  then have "x mod 2 ^ 39 = 2 ^ 30 * (x div 2 ^ 30 mod 512) + x mod 2 ^ 30"
    "x mod 2 ^ 30 = 2 ^ 21 * (x div 2 ^ 21 mod 512) + x mod 2 ^ 21"
    "x mod 2 ^ 21 = 2 ^ 12 * (x div 2 ^ 12 mod 512) + x mod 2 ^ 12"
    unfolding mod_mult2_eq by simp_all
  then show ?thesis by (simp only: mult.commute add.assoc)
qed

lemma address_split:
  assumes "sv39 m"
  shows "unat v mod 2 ^ 39 =
     unat (pm_to_index m v 2) * 2 ^ 30 + unat (pm_to_index m v 1) * 2 ^ 21 +
     unat (pm_to_index m v 0) * 2 ^ 12 + unat v mod 2 ^ 12"
  using assms address_split_nat [of "unat v"] by (simp add: unat_pm_to_index)

lemma nearest_order_top:
  assumes "sz \<le> order_size m (max_order m)"
  shows "nearest_order m sz = Some (max_order m)"
  using assms by (simp add: nearest_order_def nearest_order_from.simps)

lemma ERR_CODE_unat: "ERR_CODE x \<longleftrightarrow> 2 ^ 64 - 4096 < unat x"
  by (simp add: ERR_CODE_def BASE_PAGE_SIZE_def word_less_nat_alt)

section \<open>Properties\<close>


text \<open>After \<^verbatim>\<open>init_mem\<close> the table indices that
  \<^verbatim>\<open>pm_to_index\<close> extracts, with the page offset, are exactly the 39 bits of a virtual
  address, so that two addresses with the same indices lie on the same page.\<close>

theorem table_indices_split_address:
  "unat v mod 2 ^ 39 =
     unat (pm_to_index (init_mem m) v 2) * 2 ^ 30 + unat (pm_to_index (init_mem m) v 1) * 2 ^ 21 +
     unat (pm_to_index (init_mem m) v 0) * 2 ^ 12 + unat v mod 2 ^ 12"
  by (rule address_split) (rule sv39_init_mem)

text \<open>The order search stops at its first step for every size a page of the top order
  holds, one byte included.\<close>

lemma nearest_order_is_top:
  "nearest_order (init_mem m) 1 = Some 2" "nearest_order (init_mem m) 0x1000 = Some 2"
  using sv39_init_mem [of m] nearest_order_top [of _ "init_mem m"] by (simp_all add: sv39_def)

text \<open>A size above the top order runs past the smallest order.\<close>

lemma nearest_order_overruns: "nearest_order (init_mem m) 0x40000001 = None"
proof -
  let ?m = "init_mem m"
  note sv = sv39_init_mem [of m, unfolded sv39_def]
  have "nearest_order_from ?m 0x40000001 0 = None"
    using sv by (subst nearest_order_from.simps) simp
  moreover have "nearest_order_from ?m 0x40000001 1 = nearest_order_from ?m 0x40000001 0"
    using sv by (subst nearest_order_from.simps) simp
  moreover have "nearest_order_from ?m 0x40000001 2 = nearest_order_from ?m 0x40000001 1"
    using sv by (subst nearest_order_from.simps) (simp split: nat.split)
  ultimately show ?thesis using sv by (simp add: nearest_order_def)
qed

end
