(* ===== verification/Queue.thy ===== *)
theory Queue
  imports Prelude
begin

text \<open>
  Intrusive doubly linked lists and the queues built on them: \<^verbatim>\<open>include/kmi/list.h\<close> and
  \<^verbatim>\<open>include/kmi/queue.h\<close>. The heap maps the address of a \<open>list_head\<close> to its two links;
  a \<open>queue_head\<close> holds nothing but its list head and has the same address. A write or read
  through \<open>NULL\<close> is \<open>None\<close>. The list of the entries between a head and itself is the
  abstraction, and the interface of a queue that only takes entries in is a locale.
\<close>

record list_head =
  nxt :: ptr
  prv :: ptr

type_synonym list_heap = "ptr \<Rightarrow> list_head"

definition set_next :: "list_heap \<Rightarrow> ptr \<Rightarrow> ptr \<Rightarrow> list_heap" where
  [field_defs]: "set_next h p v = h(p := (h p)\<lparr>nxt := v\<rparr>)"

definition set_prev :: "list_heap \<Rightarrow> ptr \<Rightarrow> ptr \<Rightarrow> list_heap" where
  [field_defs]: "set_prev h p v = h(p := (h p)\<lparr>prv := v\<rparr>)"

section \<open>Lists\<close>

text \<open>\<open>INIT_LIST\<close>: an empty list points at itself.\<close>

definition INIT_LIST :: "list_heap \<Rightarrow> ptr \<Rightarrow> list_heap" where
  "INIT_LIST h head = h(head := \<lparr>nxt = head, prv = head\<rparr>)"

definition list_add_between :: "list_heap \<Rightarrow> ptr \<Rightarrow> ptr \<Rightarrow> ptr \<Rightarrow> list_heap option" where
  "list_add_between h new prev next =
     (if next = NULL \<or> new = NULL \<or> prev = NULL then None
      else
        let h = set_prev h next new;
            h = set_next h new next;
            h = set_prev h new prev;
            h = set_next h prev new
        in Some h)"

definition list_add :: "list_heap \<Rightarrow> ptr \<Rightarrow> ptr \<Rightarrow> list_heap option" where
  "list_add h new head =
     (if head = NULL then None else list_add_between h new head (nxt (h head)))"

definition list_add_tail :: "list_heap \<Rightarrow> ptr \<Rightarrow> ptr \<Rightarrow> list_heap option" where
  "list_add_tail h new head =
     (if head = NULL then None else list_add_between h new (prv (h head)) head)"

definition list_link :: "list_heap \<Rightarrow> ptr \<Rightarrow> ptr \<Rightarrow> list_heap option" where
  "list_link h prev next =
     (if next = NULL \<or> prev = NULL then None
      else Some (set_next (set_prev h next prev) prev next))"

text \<open>The source passes the two neighbours to \<open>__list_link\<close> the other way round.\<close>

definition list_del_entry :: "list_heap \<Rightarrow> ptr \<Rightarrow> list_heap option" where
  "list_del_entry h entry =
     (if entry = NULL then None else list_link h (nxt (h entry)) (prv (h entry)))"

definition list_del :: "list_heap \<Rightarrow> ptr \<Rightarrow> list_heap option" where
  "list_del h entry =
     (case list_del_entry h entry of
        None \<Rightarrow> None
      | Some h \<Rightarrow> Some (set_prev (set_next h entry NULL) entry NULL))"

definition in_list :: "list_heap \<Rightarrow> ptr \<Rightarrow> bool" where
  "in_list h entry \<longleftrightarrow> nxt (h entry) \<noteq> NULL"

definition list_empty :: "list_heap \<Rightarrow> ptr \<Rightarrow> bool" where
  "list_empty h head \<longleftrightarrow> nxt (h head) = head"

definition list_front :: "list_heap \<Rightarrow> ptr \<Rightarrow> ptr" where
  "list_front h head = (if list_empty h head then NULL else nxt (h head))"

definition list_back :: "list_heap \<Rightarrow> ptr \<Rightarrow> ptr" where
  "list_back h head = (if list_empty h head then NULL else prv (h head))"

section \<open>Queues\<close>

definition INIT_QUEUE :: "list_heap \<Rightarrow> ptr \<Rightarrow> list_heap" where
  "INIT_QUEUE h head = INIT_LIST h head"

definition queue_push :: "list_heap \<Rightarrow> ptr \<Rightarrow> ptr \<Rightarrow> list_heap option" where
  "queue_push h new head = (if in_list h new then Some h else list_add_tail h new head)"

text \<open>\<open>queue_pop\<close> returns the entry, or \<open>NULL\<close>, with the heap it leaves.\<close>

definition queue_pop :: "list_heap \<Rightarrow> ptr \<Rightarrow> (ptr \<times> list_heap) option" where
  "queue_pop h head =
     (let e = list_front h head
      in if e = NULL then Some (NULL, h)
         else case list_del h e of None \<Rightarrow> None | Some h \<Rightarrow> Some (e, h))"

definition in_queue :: "list_heap \<Rightarrow> ptr \<Rightarrow> bool" where
  "in_queue h head = in_list h head"

definition queue_del :: "list_heap \<Rightarrow> ptr \<Rightarrow> list_heap option" where
  "queue_del h head = (if in_queue h head then list_del h head else Some h)"

lemmas queue_defs = list_add_between_def list_add_def list_add_tail_def list_link_def
  list_del_entry_def list_del_def in_list_def list_empty_def list_front_def list_back_def
  queue_push_def queue_pop_def in_queue_def queue_del_def Let_def

section \<open>The list a head stands for\<close>

fun links :: "list_heap \<Rightarrow> ptr list \<Rightarrow> bool" where
  "links h (x # y # zs) \<longleftrightarrow> nxt (h x) = y \<and> prv (h y) = x \<and> links h (y # zs)"
| "links h _ \<longleftrightarrow> True"

definition dlist :: "list_heap \<Rightarrow> ptr \<Rightarrow> ptr list \<Rightarrow> bool" where
  "dlist h head xs \<longleftrightarrow>
     distinct (head # xs) \<and> NULL \<notin> set (head # xs) \<and> links h (head # xs @ [head])"

lemma in_set_tl: "x \<in> set (tl xs) \<Longrightarrow> x \<in> set xs"
  by (cases xs) auto

lemma links_append: "links h (xs @ a # ys) \<longleftrightarrow> links h (xs @ [a]) \<and> links h (a # ys)"
  by (induction h xs rule: links.induct) auto

lemma links_frame:
  assumes "\<forall>x \<in> set (butlast xs). nxt (h' x) = nxt (h x)" "\<forall>x \<in> set (tl xs). prv (h' x) = prv (h x)"
  shows "links h' xs \<longleftrightarrow> links h xs"
  using assms
proof (induction h xs rule: links.induct)
  case (1 h x y zs)
  then have "links h' (y # zs) \<longleftrightarrow> links h (y # zs)" by (cases zs) auto
  then show ?case using 1 by simp
qed auto

lemma dlist_INIT: "head \<noteq> NULL \<Longrightarrow> dlist (INIT_LIST h head) head []"
  by (simp add: dlist_def INIT_LIST_def)

lemma dlist_last:
  assumes "dlist h head xs"
  shows "prv (h head) = last (head # xs)" "links h (head # xs)"
proof -
  obtain bs l where bs: "head # xs = bs @ [l]" by (metis rev_exhaust list.distinct(1))
  have "links h (bs @ l # [head])" using assms bs by (simp add: dlist_def) (metis append_Cons append_assoc append_Nil)
  then have "links h (bs @ [l])" "prv (h head) = l" by (simp_all add: links_append [of h bs l "[head]"])
  then show "prv (h head) = last (head # xs)" "links h (head # xs)" by (simp_all add: bs)
qed

lemma dlist_front:
  assumes "dlist h head xs"
  shows "list_front h head = (case xs of [] \<Rightarrow> NULL | x # _ \<Rightarrow> x)"
  using assms by (auto simp: dlist_def queue_defs split: list.splits)

lemma dlist_back:
  assumes "dlist h head xs"
  shows "list_back h head = (if xs = [] then NULL else last xs)"
  using assms dlist_last [OF assms] by (cases xs) (auto simp: dlist_def queue_defs)

lemma list_add_tail_dlist:
  assumes "dlist h head xs" "new \<notin> set (head # xs)" "new \<noteq> NULL"
  shows "\<exists>h'. list_add_tail h new head = Some h' \<and> dlist h' head (xs @ [new]) \<and>
           (\<forall>x. x \<notin> set (head # xs) \<and> x \<noteq> new \<longrightarrow> h' x = h x)"
proof -
  obtain bs l where bs: "head # xs = bs @ [l]" by (metis rev_exhaust list.distinct(1))
  have dist: "distinct (bs @ [l])" "NULL \<notin> set (bs @ [l])" "new \<notin> set (bs @ [l])" "head \<in> set (bs @ [l])"
    using assms by (auto simp: dlist_def bs [symmetric])
  have l: "prv (h head) = l" "links h (bs @ [l])"
    using dlist_last [OF assms(1)] by (simp_all add: bs)
  define h' where "h' = set_next (set_prev (set_next (set_prev h head new) new head) new l) l new"
  have call: "list_add_tail h new head = Some h'"
    using assms dist l(1) by (auto simp: queue_defs h'_def dlist_def)
  have "head \<notin> set (tl (bs @ [l]))" using dist(1) bs by (metis distinct.simps(2) list.sel(3))
  then have "links h' (bs @ [l])"
    using dist l(2) by (subst links_frame [of _ h' h]) (auto simp: h'_def field_defs dest: in_set_tl)
  moreover have "links h' [l, new, head]"
    using dist assms(2) by (auto simp: h'_def field_defs)
  ultimately have "links h' (bs @ [l, new, head])" using links_append [of h' bs l "[new, head]"] by simp
  moreover have "head # (xs @ [new]) @ [head] = bs @ [l, new, head]" 
  proof -
    have "head # (xs @ [new]) @ [head] = (head # xs) @ [new, head]" by simp
    then show ?thesis unfolding bs by simp
  qed
  ultimately have "links h' (head # (xs @ [new]) @ [head])" by (simp only:)
  then have "dlist h' head (xs @ [new])" using assms by (auto simp: dlist_def)
  moreover have "\<forall>x. x \<notin> set (head # xs) \<and> x \<noteq> new \<longrightarrow> h' x = h x"
    unfolding bs using dist(4) by (auto simp: h'_def field_defs)
  ultimately show ?thesis using call by blast
qed

section \<open>The interface of an arrival queue\<close>

text \<open>
  What a client that only adds entries may rely on: an entry that is in no queue goes to
  the back, one that is already queued stays where it is, and the front is the entry that
  came first. \<open>idle h e\<close> says that \<open>e\<close> may be pushed.
\<close>

locale arrival_queue =
  fixes rep :: "'h \<Rightarrow> ptr \<Rightarrow> ptr list \<Rightarrow> bool"
    and idle :: "'h \<Rightarrow> ptr \<Rightarrow> bool"
    and push :: "'h \<Rightarrow> ptr \<Rightarrow> ptr \<Rightarrow> 'h option"
    and front :: "'h \<Rightarrow> ptr \<Rightarrow> ptr"
  assumes push_idle: "rep h q xs \<Longrightarrow> idle h e \<Longrightarrow> e \<notin> set (q # xs) \<Longrightarrow>
      \<exists>h'. push h e q = Some h' \<and> rep h' q (xs @ [e]) \<and> (\<forall>d. d \<noteq> e \<and> d \<notin> set (q # xs) \<longrightarrow> idle h' d = idle h d)"
    and push_queued: "rep h q xs \<Longrightarrow> e \<in> set xs \<Longrightarrow> push h e q = Some h"
    and front_rep: "rep h q xs \<Longrightarrow> front h q = (case xs of [] \<Rightarrow> NULL | x # _ \<Rightarrow> x)"
begin

lemma push_all_order:
  assumes "rep h q xs" "distinct es" "set es \<inter> set (q # xs) = {}" "\<forall>e \<in> set es. idle h e"
  shows "\<exists>h'. fold (\<lambda>e ho. Option.bind ho (\<lambda>h. push h e q)) es (Some h) = Some h' \<and> rep h' q (xs @ es)"
  using assms
proof (induction es arbitrary: h xs)
  case (Cons e es)
  then obtain h' where h': "push h e q = Some h'" "rep h' q (xs @ [e])"
    "\<forall>d. d \<noteq> e \<and> d \<notin> set (q # xs) \<longrightarrow> idle h' d = idle h d"
    using push_idle [of h q xs e] by auto
  moreover have "\<forall>d \<in> set es. idle h' d" "set es \<inter> set (q # xs @ [e]) = {}"
    using Cons.prems h'(3) by auto
  ultimately obtain h'' where "fold (\<lambda>e ho. Option.bind ho (\<lambda>h. push h e q)) es (Some h') = Some h''" "rep h'' q ((xs @ [e]) @ es)"
    using Cons.IH [of h' "xs @ [e]"] Cons.prems by fastforce
  then show ?case using h'(1) by simp
qed simp

lemma first_come_first:
  assumes "rep h q []" "distinct (e # es)" "q \<notin> set (e # es)" "\<forall>d \<in> set (e # es). idle h d"
  shows "\<exists>h'. fold (\<lambda>e ho. Option.bind ho (\<lambda>h. push h e q)) (e # es) (Some h) = Some h' \<and> rep h' q (e # es) \<and> front h' q = e"
  using push_all_order [of h q "[]" "e # es"] assms front_rep by fastforce

end

text \<open>An entry outside every list has a \<open>NULL\<close> link and an address.\<close>

definition unqueued :: "list_heap \<Rightarrow> ptr \<Rightarrow> bool" where
  "unqueued h e \<longleftrightarrow> e \<noteq> NULL \<and> \<not> in_list h e"

lemma dlist_in_list:
  assumes "dlist h head xs" "e \<in> set (head # xs)"
  shows "in_list h e"
proof -
  obtain as bs where ab: "head # xs = as @ e # bs" using assms(2) by (meson split_list)
  then have "links h ((as @ [e]) @ (bs @ [head]))"
    using assms(1) by (simp add: dlist_def) (metis append_Cons append_assoc)
  then have "links h (e # bs @ [head])" using links_append [of h as e "bs @ [head]"] by simp
  then have "nxt (h e) = hd (bs @ [head])" by (cases bs) auto
  moreover have "hd (bs @ [head]) \<in> set (head # xs)" 
  proof -
    have "set bs \<subseteq> set (head # xs)" using ab by auto
    then show ?thesis by (cases bs) auto
  qed
  ultimately show ?thesis using assms(1) by (metis dlist_def in_list_def)
qed

interpretation qh: arrival_queue dlist unqueued queue_push list_front
proof
  fix h q xs e
  assume "dlist h q xs" "unqueued h e" "e \<notin> set (q # xs)"
  then show "\<exists>h'. queue_push h e q = Some h' \<and> dlist h' q (xs @ [e]) \<and>
      (\<forall>d. d \<noteq> e \<and> d \<notin> set (q # xs) \<longrightarrow> unqueued h' d = unqueued h d)"
    using list_add_tail_dlist [of h q xs e] by (fastforce simp: queue_push_def unqueued_def in_list_def)
qed (auto simp: queue_push_def dlist_in_list dlist_front)

section \<open>Properties\<close>

text \<open>(C35) Pushing an entry that is in no list puts it last and disturbs
  nothing outside the queue; pushing one that is already in a list changes nothing.\<close>

theorem queue_push_appends:
  assumes "dlist h head xs" "new \<noteq> NULL"
  shows "if in_list h new then queue_push h new head = Some h
    else \<exists>h'. queue_push h new head = Some h' \<and> dlist h' head (xs @ [new]) \<and>
      list_back h' head = new \<and> (\<forall>x. x \<notin> set (head # xs) \<and> x \<noteq> new \<longrightarrow> h' x = h x)"
proof (cases "in_list h new")
  case False
  then have "new \<notin> set (head # xs)" using dlist_in_list [OF assms(1)] by blast
  with assms obtain h' where "list_add_tail h new head = Some h'" "dlist h' head (xs @ [new])"
    "\<forall>x. x \<notin> set (head # xs) \<and> x \<noteq> new \<longrightarrow> h' x = h x" using list_add_tail_dlist by blast
  then show ?thesis
    using False dlist_back [of h' head "xs @ [new]"] by (auto simp: queue_push_def)
qed (simp add: queue_push_def)

definition blank_heap :: list_heap where
  "blank_heap = (\<lambda>_. \<lparr>nxt = NULL, prv = NULL\<rparr>)"

theorem queue_push_appends_witness:
  "\<exists>h'. queue_push (INIT_QUEUE blank_heap 8) 16 8 = Some h' \<and> dlist h' 8 [16]"
  using queue_push_appends [of "INIT_QUEUE blank_heap 8" 8 "[]" 16] dlist_INIT [of 8 blank_heap]
  by (auto simp: INIT_QUEUE_def INIT_LIST_def in_list_def blank_heap_def)

text \<open>(C36) Entries pushed one after the other onto a fresh queue are
  queued in the order they arrived, and the first one is at the front.\<close>

theorem queue_arrival_order:
  assumes "distinct (q # e # es)" "NULL \<notin> set (q # e # es)" "\<forall>d \<in> set (e # es). \<not> in_list h d"
  shows "\<exists>h'. fold (\<lambda>d ho. Option.bind ho (\<lambda>h. queue_push h d q)) (e # es) (Some (INIT_QUEUE h q)) =
      Some h' \<and> dlist h' q (e # es) \<and> list_front h' q = e"
proof (rule qh.first_come_first)
  show "dlist (INIT_QUEUE h q) q []" using assms(2) dlist_INIT by (simp add: INIT_QUEUE_def)
  show "\<forall>d \<in> set (e # es). unqueued (INIT_QUEUE h q) d"
    using assms by (auto simp: unqueued_def INIT_QUEUE_def INIT_LIST_def in_list_def)
qed (use assms in auto)

theorem queue_arrival_order_witness:
  "\<exists>h'. fold (\<lambda>d ho. Option.bind ho (\<lambda>h. queue_push h d 8)) [16, 24, 32] (Some (INIT_QUEUE blank_heap 8)) =
      Some h' \<and> list_front h' 8 = 16"
  using queue_arrival_order [of 8 16 "[24, 32]" blank_heap] by (auto simp: in_list_def blank_heap_def)

text \<open>Popping the only entry of a queue returns it, leaves the
  queue empty and the entry free to be pushed again.\<close>

theorem queue_single_roundtrip:
  assumes "dlist h head [x]"
  shows "\<exists>h'. queue_pop h head = Some (x, h') \<and> dlist h' head [] \<and> \<not> in_queue h' x \<and>
    queue_pop h' head = Some (NULL, h')"
  using assms by (auto simp: dlist_def queue_defs field_defs)

theorem queue_single_roundtrip_witness:
  "\<exists>h'. queue_pop (\<lambda>p. if p = 8 then \<lparr>nxt = 16, prv = 16\<rparr> else \<lparr>nxt = 8, prv = 8\<rparr>) 8 = Some (16, h') \<and>
     dlist h' 8 []"
  using queue_single_roundtrip [of "\<lambda>p. if p = 8 then \<lparr>nxt = 16, prv = 16\<rparr> else \<lparr>nxt = 8, prv = 8\<rparr>" 8 16]
  by (auto simp: dlist_def)

text \<open>(C37) \<^verbatim>\<open>__list_del_entry\<close> links the neighbours of the entry in
  the wrong direction, so popping a queue of two or more entries leaves the head pointing
  at the popped entry, and the next pop goes through its \<^verbatim>\<open>NULL\<close> links.\<close>

theorem queue_pop_breaks_longer:
  assumes "dlist h head (x # y # zs)"
  shows "\<exists>h'. queue_pop h head = Some (x, h') \<and> list_front h' head = x \<and> \<not> in_queue h' x \<and>
    queue_pop h' head = None"
  using assms by (auto simp: dlist_def queue_defs field_defs)

theorem queue_pop_breaks_longer_witness:
  "\<exists>h'. queue_pop (\<lambda>p. if p = 8 then \<lparr>nxt = 16, prv = 24\<rparr> else if p = 16 then \<lparr>nxt = 24, prv = 8\<rparr>
      else \<lparr>nxt = 8, prv = 16\<rparr>) 8 = Some (16, h') \<and> queue_pop h' 8 = None"
  using queue_pop_breaks_longer [of "\<lambda>p. if p = 8 then \<lparr>nxt = 16, prv = 24\<rparr> else if p = 16 then \<lparr>nxt = 24, prv = 8\<rparr>
      else \<lparr>nxt = 8, prv = 16\<rparr>" 8 16 24 "[]"]
  by (auto simp: dlist_def)

end
