(* ===== verification/Sp_Tree.thy ===== *)
theory Sp_Tree
  imports Prelude "HOL-Library.Tree" "HOL-Library.Monad_Syntax"
begin

text \<open>
  The intrusive balanced trees of \<^verbatim>\<open>src/sp_tree.c\<close> and \<^verbatim>\<open>include/kmi/sp_tree.h\<close>, which the
  memory regions and the timers are kept in. The heap maps the address of a \<open>sp_node\<close> to
  its links and its height hint, and the operations are the pointer updates of the source
  in their order. A failed assertion and a loop that never ends are \<open>None\<close>. The hints are
  unbounded integers: a tree deep enough to leave \<open>int_fast16_t\<close> does not fit in memory.

  The tree that the links below a node form is a \<open>ptr tree\<close>; every operation is related to
  the sequence of nodes that it shows in order.
\<close>

section \<open>Operations\<close>

record sp_node =
  sp_left :: ptr
  sp_right :: ptr
  sp_paren :: ptr
  hint :: int

type_synonym sp_heap = "ptr \<Rightarrow> sp_node"

datatype sp_dir = SP_LEFT | SP_RIGHT

definition set_left :: "sp_heap \<Rightarrow> ptr \<Rightarrow> ptr \<Rightarrow> sp_heap" where
  [field_defs]: "set_left h n v = h(n := (h n)\<lparr>sp_left := v\<rparr>)"

definition set_right :: "sp_heap \<Rightarrow> ptr \<Rightarrow> ptr \<Rightarrow> sp_heap" where
  [field_defs]: "set_right h n v = h(n := (h n)\<lparr>sp_right := v\<rparr>)"

definition set_paren :: "sp_heap \<Rightarrow> ptr \<Rightarrow> ptr \<Rightarrow> sp_heap" where
  [field_defs]: "set_paren h n v = h(n := (h n)\<lparr>sp_paren := v\<rparr>)"

definition set_hint :: "sp_heap \<Rightarrow> ptr \<Rightarrow> int \<Rightarrow> sp_heap" where
  [field_defs]: "set_hint h n v = h(n := (h n)\<lparr>hint := v\<rparr>)"

text \<open>The lines that make the parent of \<open>n\<close> point at \<open>v\<close>, shared by turns and replacements.\<close>

definition sp_set_child :: "sp_heap \<Rightarrow> ptr \<Rightarrow> ptr \<Rightarrow> ptr \<Rightarrow> sp_heap" where
  "sp_set_child h p n v =
     (if p \<noteq> NULL \<and> sp_left (h p) = n then set_left h p v
      else if p \<noteq> NULL then set_right h p v
      else h)"

definition sp_turn_left :: "sp_heap \<Rightarrow> ptr \<Rightarrow> sp_heap option" where
  "sp_turn_left h n =
     (let l = sp_left (h n); p = sp_paren (h n)
      in if l = NULL then None
         else
           let h = set_paren h l (sp_paren (h n));
               h = set_left h n (sp_right (h l));
               h = set_paren h n l;
               h = set_right h l n;
               h = sp_set_child h p n l;
               h = (if sp_left (h n) \<noteq> NULL then set_paren h (sp_left (h n)) n else h)
           in Some h)"

definition sp_turn_right :: "sp_heap \<Rightarrow> ptr \<Rightarrow> sp_heap option" where
  "sp_turn_right h n =
     (let r = sp_right (h n); p = sp_paren (h n)
      in if r = NULL then None
         else
           let h = set_paren h r (sp_paren (h n));
               h = set_right h n (sp_left (h r));
               h = set_paren h n r;
               h = set_left h r n;
               h = sp_set_child h p n r;
               h = (if sp_right (h n) \<noteq> NULL then set_paren h (sp_right (h n)) n else h)
           in Some h)"

definition sp_balance :: "sp_heap \<Rightarrow> ptr \<Rightarrow> int" where
  "sp_balance h n =
     (let l = (if sp_left (h n) \<noteq> NULL then hint (h (sp_left (h n))) + 1 else 0);
          r = (if sp_right (h n) \<noteq> NULL then hint (h (sp_right (h n))) + 1 else 0)
      in l - r)"

definition sp_max_hint :: "sp_heap \<Rightarrow> ptr \<Rightarrow> int" where
  "sp_max_hint h n =
     (let l = (if sp_left (h n) \<noteq> NULL then hint (h (sp_left (h n))) + 1 else 0);
          r = (if sp_right (h n) \<noteq> NULL then hint (h (sp_right (h n))) + 1 else 0)
      in if l > r then l else r)"

partial_function (option) sp_update :: "sp_heap \<Rightarrow> ptr \<Rightarrow> ptr \<Rightarrow> (sp_heap \<times> ptr) option" where
  "sp_update h root n =
     (if n = NULL then Some (h, root)
      else
        let b = sp_balance h n;
            prev_hint = hint (h n);
            p = sp_paren (h n);
            root' = (if n = root \<and> b < -1 then sp_right (h n)
                     else if n = root \<and> b > 1 then sp_left (h n)
                     else root)
        in Option.bind (if b < -1 then sp_turn_right h n else if b > 1 then sp_turn_left h n else Some h)
            (\<lambda>h.
              let h = set_hint h n (sp_max_hint h n)
              in if hint (h n) = 0 \<or> hint (h n) \<noteq> prev_hint then sp_update h root' p
                 else Some (h, root')))"

definition sp_insert :: "sp_heap \<Rightarrow> ptr \<Rightarrow> ptr \<Rightarrow> ptr \<Rightarrow> sp_dir \<Rightarrow> (sp_heap \<times> ptr) option" where
  "sp_insert h root p n d =
     (if root = NULL then Some (h, n)
      else
        let h = (case d of SP_LEFT \<Rightarrow> set_left h p n | SP_RIGHT \<Rightarrow> set_right h p n);
            h = set_paren h n p
        in sp_update h root n)"

definition sp_replace_right :: "sp_heap \<Rightarrow> ptr \<Rightarrow> ptr \<Rightarrow> sp_heap" where
  "sp_replace_right h n r =
     (let p = sp_paren (h n);
          rp = sp_paren (h r);
          h = (if sp_left (h rp) = r then
                 (let h = set_left h rp (sp_right (h r))
                  in if sp_right (h r) \<noteq> NULL then set_paren h (sp_right (h r)) rp else h)
               else h);
          h = (if sp_paren (h rp) = n then set_paren h rp r else h);
          h = set_paren h r p;
          h = set_left h r (sp_left (h n));
          h = (if sp_right (h n) \<noteq> r then
                 (let h = set_right h r (sp_right (h n)) in set_paren h (sp_right (h n)) r)
               else h);
          h = sp_set_child h p n r
      in if sp_left (h n) \<noteq> NULL then set_paren h (sp_left (h n)) r else h)"

definition sp_replace_left :: "sp_heap \<Rightarrow> ptr \<Rightarrow> ptr \<Rightarrow> sp_heap" where
  "sp_replace_left h n l =
     (let p = sp_paren (h n);
          lp = sp_paren (h l);
          h = (if sp_right (h lp) = l then
                 (let h = set_right h lp (sp_left (h l))
                  in if sp_left (h l) \<noteq> NULL then set_paren h (sp_left (h l)) lp else h)
               else h);
          h = (if sp_paren (h lp) = n then set_paren h lp l else h);
          h = set_paren h l p;
          h = set_right h l (sp_right (h n));
          h = (if sp_left (h n) \<noteq> l then
                 (let h = set_left h l (sp_left (h n)) in set_paren h (sp_left (h n)) l)
               else h);
          h = sp_set_child h p n l
      in if sp_right (h n) \<noteq> NULL then set_paren h (sp_right (h n)) l else h)"

partial_function (option) sp_first :: "sp_heap \<Rightarrow> ptr \<Rightarrow> ptr option" where
  "sp_first h n = (if sp_left (h n) = NULL then Some n else sp_first h (sp_left (h n)))"

partial_function (option) sp_last :: "sp_heap \<Rightarrow> ptr \<Rightarrow> ptr option" where
  "sp_last h n = (if sp_right (h n) = NULL then Some n else sp_last h (sp_right (h n)))"

definition sp_remove :: "sp_heap \<Rightarrow> ptr \<Rightarrow> ptr \<Rightarrow> (sp_heap \<times> ptr) option" where
  "sp_remove h root del =
     (if sp_right (h del) \<noteq> NULL then
        Option.bind (sp_first h (sp_right (h del))) (\<lambda>least.
          let root = (if del = root then least else root);
              h = sp_replace_right h del least
          in sp_update h root (sp_right (h least)))
      else if sp_left (h del) \<noteq> NULL then
        Option.bind (sp_last h (sp_left (h del))) (\<lambda>most.
          let root = (if del = root then most else root);
              h = sp_replace_left h del most
          in sp_update h root (sp_left (h most)))
      else if del = root then Some (h, NULL)
      else
        let paren = sp_paren (h del);
            h = (if sp_left (h paren) = del then set_left h paren NULL else set_right h paren NULL)
        in sp_update h root paren)"

section \<open>The tree below a node\<close>

text \<open>
  \<open>tree_at h par p t\<close>: the links below \<open>p\<close>, a child of \<open>par\<close>, form the tree \<open>t\<close> of nodes,
  with every parent link in place and no negative hint.
\<close>

fun tree_at :: "sp_heap \<Rightarrow> ptr \<Rightarrow> ptr \<Rightarrow> ptr tree \<Rightarrow> bool" where
  "tree_at h par p Leaf \<longleftrightarrow> p = NULL"
| "tree_at h par p (Node l x r) \<longleftrightarrow>
     p = x \<and> x \<noteq> NULL \<and> sp_paren (h x) = par \<and> 0 \<le> hint (h x) \<and>
     tree_at h x (sp_left (h x)) l \<and> tree_at h x (sp_right (h x)) r"

text \<open>The way from a node up to the root: the parent and the other subtree at each step.\<close>

datatype step = StepL ptr "ptr tree" | StepR "ptr tree" ptr

fun plug :: "step list \<Rightarrow> ptr tree \<Rightarrow> ptr tree" where
  "plug [] t = t"
| "plug (StepL x r # c) t = plug c (Node t x r)"
| "plug (StepR l x # c) t = plug c (Node l x t)"

fun before :: "step list \<Rightarrow> ptr list" where
  "before [] = []"
| "before (StepL x r # c) = before c"
| "before (StepR l x # c) = before c @ inorder l @ [x]"

fun after :: "step list \<Rightarrow> ptr list" where
  "after [] = []"
| "after (StepL x r # c) = x # inorder r @ after c"
| "after (StepR l x # c) = after c"

fun step_parent :: "ptr \<Rightarrow> step list \<Rightarrow> ptr" where
  "step_parent up [] = up"
| "step_parent up (StepL x r # c) = x"
| "step_parent up (StepR l x # c) = x"

fun path_at :: "sp_heap \<Rightarrow> ptr \<Rightarrow> ptr \<Rightarrow> ptr \<Rightarrow> step list \<Rightarrow> bool" where
  "path_at h up root n [] \<longleftrightarrow> n = root"
| "path_at h up root n (StepL x r # c) \<longleftrightarrow>
     x \<noteq> NULL \<and> sp_left (h x) = n \<and> sp_paren (h x) = step_parent up c \<and> 0 \<le> hint (h x) \<and>
     tree_at h x (sp_right (h x)) r \<and> path_at h up root x c"
| "path_at h up root n (StepR l x # c) \<longleftrightarrow>
     x \<noteq> NULL \<and> sp_right (h x) = n \<and> sp_paren (h x) = step_parent up c \<and> 0 \<le> hint (h x) \<and>
     tree_at h x (sp_left (h x)) l \<and> path_at h up root x c"

lemma inorder_plug: "inorder (plug c t) = before c @ inorder t @ after c"
  by (induction c t rule: plug.induct) auto

lemma tree_at_plug:
  "tree_at h up root (plug c t) \<longleftrightarrow>
     (\<exists>n. path_at h up root n c \<and> tree_at h (step_parent up c) n t)"
  by (induction c t rule: plug.induct) auto

lemma plug_exists:
  assumes "x \<in> set_tree t"
  obtains c l r where "t = plug c (Node l x r)"
proof -
  have "\<exists>c' l r. plug c t = plug c' (Node l x r)" for c
    using assms
  proof (induction t arbitrary: c)
    case (Node l y r)
    have "plug c (Node l y r) = plug (StepL y r # c) l" "plug c (Node l y r) = plug (StepR l y # c) r"
      by simp_all
    moreover consider "x = y" | "x \<in> set_tree l" | "x \<in> set_tree r" using Node.prems by auto
    ultimately show ?case using Node.IH by (cases, blast) metis+
  qed simp
  from this [of "[]"] show ?thesis using that by auto
qed

lemma tree_at_cong:
  assumes "\<And>x. x \<in> set_tree t \<Longrightarrow> h' x = h x"
  shows "tree_at h' par p t \<longleftrightarrow> tree_at h par p t"
  using assms by (induction t arbitrary: par p) auto

lemma path_at_cong:
  assumes "\<And>x. x \<in> set (before c @ after c) \<Longrightarrow> h' x = h x"
  shows "path_at h' up root n c \<longleftrightarrow> path_at h up root n c"
  using assms
proof (induction c arbitrary: n)
  case (Cons s c)
  have IH: "path_at h' up root m c \<longleftrightarrow> path_at h up root m c" for m
    using Cons.prems by (intro Cons.IH) (cases s; auto)
  show ?case
  proof (cases s)
    case (StepL x r)
    then have "tree_at h' x p r \<longleftrightarrow> tree_at h x p r" for p using Cons.prems by (intro tree_at_cong) auto
    then show ?thesis using StepL IH Cons.prems by simp
  next
    case (StepR l x)
    then have "tree_at h' x p l \<longleftrightarrow> tree_at h x p l" for p using Cons.prems by (intro tree_at_cong) auto
    then show ?thesis using StepR IH Cons.prems by simp
  qed
qed simp

lemma tree_at_Null: "tree_at h par p t \<Longrightarrow> p = NULL \<longleftrightarrow> t = Leaf"
  by (cases t) auto

lemma tree_at_NULL_notin: "tree_at h par p t \<Longrightarrow> NULL \<notin> set_tree t"
  by (induction t arbitrary: par p) auto

lemma tree_at_root_in: "tree_at h par p t \<Longrightarrow> p \<noteq> NULL \<Longrightarrow> p \<in> set_tree t"
  by (cases t) auto

lemma path_at_root_in: "path_at h up root n c \<Longrightarrow> c \<noteq> [] \<Longrightarrow> root \<in> set (before c @ after c)"
proof (induction c arbitrary: n)
  case (Cons s c)
  then show ?case by (cases s; cases c) auto
qed simp

lemma path_at_NULL_notin: "path_at h up root n c \<Longrightarrow> NULL \<notin> set (before c @ after c)"
proof (induction c arbitrary: n)
  case (Cons s c)
  then show ?case by (cases s) (auto dest: tree_at_NULL_notin)
qed simp

lemma step_parent_in: "c \<noteq> [] \<Longrightarrow> step_parent up c \<in> set (before c @ after c)"
  by (cases "(up, c)" rule: step_parent.cases) auto

lemma step_parent_or: "step_parent up c = up \<or> step_parent up c \<in> set (before c @ after c)"
  using step_parent_in by (cases "c = []") (simp, blast)

lemma set_hint_fields [simp]:
  "sp_left (set_hint h n v x) = sp_left (h x)" "sp_right (set_hint h n v x) = sp_right (h x)"
  "sp_paren (set_hint h n v x) = sp_paren (h x)"
  "hint (set_hint h n v x) = (if x = n then v else hint (h x))"
  by (simp_all add: set_hint_def)

lemma tree_at_set_hint: "0 \<le> v \<Longrightarrow> tree_at h par p t \<Longrightarrow> tree_at (set_hint h n v) par p t"
  by (induction t arbitrary: par p) auto

lemma path_at_set_hint: "0 \<le> v \<Longrightarrow> path_at h up root m c \<Longrightarrow> path_at (set_hint h n v) up root m c"
proof (induction c arbitrary: m)
  case (Cons s c)
  then show ?case by (cases s) (auto intro: tree_at_set_hint)
qed simp

lemma tree_at_reparent:
  assumes "tree_at h par p t" "distinct (inorder t)"
    and "\<And>x. x \<in> set_tree t \<Longrightarrow> x \<noteq> p \<Longrightarrow> h' x = h x"
    and "p \<noteq> NULL \<Longrightarrow> h' p = (h p)\<lparr>sp_paren := par'\<rparr>"
  shows "tree_at h' par' p t"
proof (cases t)
  case (Node l x r)
  then have "tree_at h' x q l \<longleftrightarrow> tree_at h x q l" "tree_at h' x q r \<longleftrightarrow> tree_at h x q r" for q
    using assms by (auto intro!: tree_at_cong)
  then show ?thesis using Node assms by auto
qed (use assms in auto)

text \<open>The heap in which the innermost parent of a path points at \<open>v\<close>.\<close>

fun set_step_child :: "sp_heap \<Rightarrow> step list \<Rightarrow> ptr \<Rightarrow> sp_heap" where
  "set_step_child h [] v = h"
| "set_step_child h (StepL x r # c) v = set_left h x v"
| "set_step_child h (StepR l x # c) v = set_right h x v"

lemma path_at_set_child:
  assumes "path_at h up root n c" "distinct (before c @ after c)"
    and "\<And>x. x \<in> set (before c @ after c) \<Longrightarrow> h' x = set_step_child h c v x"
  shows "path_at h' up (if c = [] then v else root) v c"
proof (cases "(h, c, v)" rule: set_step_child.cases)
  case (2 h x r c v)
  then have "path_at h' up root x c \<longleftrightarrow> path_at h up root x c" using assms
    by (intro path_at_cong) (auto simp: field_defs)
  moreover have "tree_at h' x q r \<longleftrightarrow> tree_at h x q r" for q
    using assms 2 by (intro tree_at_cong) (auto simp: field_defs)
  ultimately show ?thesis using assms 2 by (auto simp: field_defs)
next
  case (3 h l x c v)
  then have "path_at h' up root x c \<longleftrightarrow> path_at h up root x c" using assms
    by (intro path_at_cong) (auto simp: field_defs)
  moreover have "tree_at h' x q l \<longleftrightarrow> tree_at h x q l" for q
    using assms 3 by (intro tree_at_cong) (auto simp: field_defs)
  ultimately show ?thesis using assms 3 by (auto simp: field_defs)
qed (use assms in auto)

text \<open>On a heap with the path in it, the source's child update is that heap.\<close>

lemma sp_set_child_path:
  assumes "path_at h NULL root n c" "n \<noteq> NULL" "n \<notin> set (before c @ after c)"
    and "c \<noteq> [] \<Longrightarrow> g (step_parent NULL c) = h (step_parent NULL c)"
  shows "sp_set_child g (step_parent NULL c) n v = set_step_child g c v"
proof (cases "(NULL, c)" rule: step_parent.cases)
  case (3 up l x c')
  have "sp_left (h x) \<noteq> n"
    using assms 3 tree_at_root_in [of h x "sp_left (h x)" l] by auto
  then show ?thesis using assms 3 by (auto simp: sp_set_child_def)
qed (use assms in \<open>auto simp: sp_set_child_def\<close>)

section \<open>Turns\<close>

lemma null_or_in_ne: "m = NULL \<or> m \<in> A \<Longrightarrow> n \<notin> A \<Longrightarrow> n \<noteq> NULL \<Longrightarrow> m \<noteq> n"
  by auto

lemma null_or_in_disjoint:
  "m = NULL \<or> m \<in> A \<Longrightarrow> p = NULL \<or> p \<in> B \<Longrightarrow> A \<inter> B = {} \<Longrightarrow> m = NULL \<or> m \<noteq> p"
  by auto

lemma sp_turn_left_ok:
  assumes path: "path_at h NULL root n c" and tree: "tree_at h (step_parent NULL c) n (Node (Node ll l lr) n r)"
    and dist: "distinct (before c @ inorder (Node (Node ll l lr) n r) @ after c)"
  shows "\<exists>h'. sp_turn_left h n = Some h' \<and> path_at h' NULL (if c = [] then l else root) l c \<and>
      tree_at h' (step_parent NULL c) l (Node ll l (Node lr n r)) \<and>
      (\<forall>x. x \<notin> set (before c @ inorder (Node (Node ll l lr) n r) @ after c) \<longrightarrow> h' x = h x)"
proof -
  let ?p = "step_parent NULL c" and ?m = "sp_right (h l)"
  have n: "n \<noteq> NULL" "l \<noteq> NULL" "sp_paren (h n) = ?p" "sp_left (h n) = l" using tree by auto
  have p: "?p = NULL \<or> ?p \<in> set (before c @ after c)" by (rule step_parent_or)
  have ne: "?p \<noteq> n" "?p \<noteq> l" "l \<noteq> n" using p n dist by auto
  have lr: "n \<notin> set_tree lr" "l \<notin> set_tree lr" "set_tree lr \<inter> set (before c @ after c) = {}"
    using dist by auto
  have "tree_at h l ?m lr" using tree by simp
  then have m: "?m = NULL \<or> ?m \<in> set_tree lr" using tree_at_root_in by blast
  have mne: "?m \<noteq> n" "?m \<noteq> l" using null_or_in_ne [OF m] n(1,2) lr(1,2) by simp_all
  have mp: "?m = NULL \<or> ?m \<noteq> ?p" using null_or_in_disjoint [OF m p] lr(3) by simp
  define g where "g = set_right (set_paren (set_left (set_paren h l ?p) n ?m) n l) l n"
  define h1 where "h1 = sp_set_child g ?p n l"
  define h' where "h' = (if ?m \<noteq> NULL then set_paren h1 ?m n else h1)"
  have gp: "c \<noteq> [] \<Longrightarrow> g ?p = h ?p" using ne by (auto simp: g_def field_defs)
  have nin: "n \<notin> set (before c @ after c)" using dist by auto
  have h1: "h1 = set_step_child g c l"
    unfolding h1_def using path n(1) nin gp by (rule sp_set_child_path)
  have h1n: "h1 n = g n" "h1 l = g l"
    using ne unfolding h1_def by (auto simp: sp_set_child_def field_defs)
  have "set_right (set_paren (set_left (set_paren h l ?p) n (sp_right (set_paren h l ?p l))) n l) l n = g"
    "sp_left (h1 n) = ?m"
    using ne by (simp_all add: h1n g_def field_defs)
  then have call: "sp_turn_left h n = Some h'"
    using n(2) by (simp only: sp_turn_left_def Let_def n(3,4) h1_def [symmetric] h'_def if_False)
  have other: "h1 x = h x" if "x \<noteq> n" "x \<noteq> l" "x \<noteq> ?p" for x
    using that unfolding h1_def by (simp add: g_def sp_set_child_def field_defs)
  have onpath: "h' x = set_step_child h c l x" if "x \<in> set (before c @ after c)" for x
  proof -
    have "x \<noteq> n" "x \<noteq> l" "x \<noteq> ?m" "x \<noteq> NULL" using that m dist n path_at_NULL_notin [OF path] by auto
    then have "h' x = h1 x" by (simp add: h'_def field_defs)
    also have "\<dots> = set_step_child h c l x"
      using \<open>x \<noteq> n\<close> \<open>x \<noteq> l\<close> unfolding h1 g_def
      by (cases "(h, c, l)" rule: set_step_child.cases) (auto simp: field_defs)
    finally show ?thesis .
  qed
  have "path_at h' NULL (if c = [] then l else root) l c"
    using path _ onpath by (rule path_at_set_child) (use dist in auto)
  moreover have "tree_at h' n ?m lr"
  proof (rule tree_at_reparent)
    show "tree_at h l ?m lr" "distinct (inorder lr)" using tree dist by auto
    show "h' x = h x" if "x \<in> set_tree lr" "x \<noteq> ?m" for x
    proof -
      have "x \<noteq> n" "x \<noteq> l" "x \<noteq> ?p" using that p dist tree_at_NULL_notin [OF tree] by auto
      then show ?thesis using that(2) other by (simp add: h'_def field_defs)
    qed
    show "h' ?m = (h ?m)\<lparr>sp_paren := n\<rparr>" if "?m \<noteq> NULL"
      using that mne mp other [of ?m] by (simp add: h'_def field_defs)
  qed
  moreover have off: "h' x = h x" if "x \<noteq> n" "x \<noteq> l" "x \<notin> set_tree lr" "x \<noteq> NULL" "x \<notin> set (before c @ after c)" for x
  proof -
    have "x \<noteq> ?p" "x \<noteq> ?m" using that p m by auto
    then show ?thesis using that(1,2) other by (simp add: h'_def field_defs)
  qed
  have "tree_at h' l q ll \<longleftrightarrow> tree_at h l q ll" "tree_at h' n q r \<longleftrightarrow> tree_at h n q r" for q
    using dist tree_at_NULL_notin [OF tree] by (auto intro!: tree_at_cong off)
  moreover have "h' n = g n" "h' l = g l" using h1n mne by (auto simp: h'_def field_defs)
  ultimately have "tree_at h' ?p l (Node ll l (Node lr n r))"
    using tree ne by (auto simp: g_def field_defs)
  moreover have "\<forall>x. x \<notin> set (before c @ inorder (Node (Node ll l lr) n r) @ after c) \<longrightarrow> h' x = h x"
  proof (intro allI impI)
    fix x assume x: "x \<notin> set (before c @ inorder (Node (Node ll l lr) n r) @ after c)"
    then have "x \<noteq> n" "x \<noteq> l" "?m = NULL \<or> x \<noteq> ?m" using m by auto
    moreover have "h1 x = h x"
    proof (cases "c = []")
      case True
      then show ?thesis using calculation by (simp add: h1 g_def field_defs)
    next
      case False
      then have "x \<noteq> ?p" using x step_parent_in [of c NULL] by auto
      then show ?thesis using calculation other by blast
    qed
    ultimately show "h' x = h x" by (auto simp: h'_def field_defs)
  qed
  ultimately show ?thesis using call \<open>path_at h' NULL _ l c\<close> by blast
qed

text \<open>
  Left and right are exchanged by \<open>flip\<close>: each right-hand operation is the left-hand one on
  the flipped heap, so that its correctness follows from the other's.
\<close>

definition flip :: "sp_heap \<Rightarrow> sp_heap" where
  "flip h = (\<lambda>x. (h x)\<lparr>sp_left := sp_right (h x), sp_right := sp_left (h x)\<rparr>)"

fun flip_step :: "step \<Rightarrow> step" where
  "flip_step (StepL x r) = StepR (mirror r) x"
| "flip_step (StepR l x) = StepL x (mirror l)"

lemma flip_fields [simp]:
  "sp_left (flip h x) = sp_right (h x)" "sp_right (flip h x) = sp_left (h x)"
  "sp_paren (flip h x) = sp_paren (h x)" "hint (flip h x) = hint (h x)" "flip (flip h) = h"
  by (simp_all add: flip_def)

lemma flip_sets:
  "set_left (flip h) n v = flip (set_right h n v)" "set_right (flip h) n v = flip (set_left h n v)"
  "set_paren (flip h) n v = flip (set_paren h n v)" "set_hint (flip h) n k = flip (set_hint h n k)"
  by (auto simp: flip_def field_defs)

lemma flip_apply_eq: "flip h' x = flip h x \<longleftrightarrow> h' x = h x"
  by (metis flip_def flip_fields(5))

lemma tree_at_flip: "tree_at (flip h) par p t \<longleftrightarrow> tree_at h par p (mirror t)"
  by (induction t arbitrary: par p) auto

lemma step_parent_flip [simp]: "step_parent up (map flip_step c) = step_parent up c"
  by (cases "(up, c)" rule: step_parent.cases) auto

lemma path_at_flip: "path_at (flip h) up root n (map flip_step c) \<longleftrightarrow> path_at h up root n c"
proof (induction c arbitrary: n)
  case (Cons s c)
  then show ?case by (cases s) (auto simp: tree_at_flip)
qed simp

lemma before_flip [simp]: "before (map flip_step c) = rev (after c)" "after (map flip_step c) = rev (before c)"
proof (induction c)
  case (Cons s c)
  { case 1 show ?case using Cons by (cases s) (auto simp: inorder_mirror) }
  { case 2 show ?case using Cons by (cases s) (auto simp: inorder_mirror) }
qed simp_all

lemma sp_set_child_flip:
  assumes "p \<noteq> NULL \<Longrightarrow> sp_left (h p) = n \<or> sp_right (h p) = n" "p \<noteq> NULL \<Longrightarrow> sp_left (h p) \<noteq> sp_right (h p)"
  shows "sp_set_child (flip h) p n v = flip (sp_set_child h p n v)"
  using assms by (auto simp: sp_set_child_def flip_sets)

lemma path_at_parent_children:
  assumes "path_at h NULL root n c" "n \<noteq> NULL" "n \<notin> set (before c @ after c)" "step_parent NULL c \<noteq> NULL"
  shows "sp_left (h (step_parent NULL c)) = n \<and> sp_right (h (step_parent NULL c)) \<noteq> n \<or>
    sp_right (h (step_parent NULL c)) = n \<and> sp_left (h (step_parent NULL c)) \<noteq> n"
proof (cases "(NULL, c)" rule: step_parent.cases)
  case (2 up x r c')
  then show ?thesis using assms tree_at_root_in [of h x "sp_right (h x)" r] by auto
next
  case (3 up l x c')
  then show ?thesis using assms tree_at_root_in [of h x "sp_left (h x)" l] by auto
qed (use assms in auto)

lemma sp_turn_right_flip:
  assumes "path_at h NULL root n c" "n \<noteq> NULL" "n \<notin> set (before c @ after c)"
    and "sp_paren (h n) = step_parent NULL c" "sp_right (h n) \<noteq> n" "sp_right (h n) \<notin> set (before c @ after c)"
  shows "sp_turn_right h n = map_option flip (sp_turn_left (flip h) n)"
proof -
  let ?p = "step_parent NULL c" and ?r = "sp_right (h n)"
  let ?g = "set_left (set_paren (set_right (set_paren h ?r ?p) n (sp_left (set_paren h ?r ?p ?r))) n ?r) ?r n"
  have "?p = NULL \<or> ?p \<noteq> n \<and> ?p \<noteq> ?r" using step_parent_or [of NULL c] assms by metis
  then have g: "?p \<noteq> NULL \<Longrightarrow> ?g ?p = h ?p" by (auto simp: field_defs)
  have "sp_set_child (flip ?g) ?p n v = flip (sp_set_child ?g ?p n v)" for v
    using path_at_parent_children [OF assms(1-3)] g by (intro sp_set_child_flip) auto
  then show ?thesis
    by (simp add: sp_turn_left_def sp_turn_right_def Let_def assms(4) flip_sets)
qed

lemma sp_turn_right_ok:
  assumes path: "path_at h NULL root n c" and tree: "tree_at h (step_parent NULL c) n (Node l n (Node rl r rr))"
    and dist: "distinct (before c @ inorder (Node l n (Node rl r rr)) @ after c)"
  shows "\<exists>h'. sp_turn_right h n = Some h' \<and> path_at h' NULL (if c = [] then r else root) r c \<and>
      tree_at h' (step_parent NULL c) r (Node (Node l n rl) r rr) \<and>
      (\<forall>x. x \<notin> set (before c @ inorder (Node l n (Node rl r rr)) @ after c) \<longrightarrow> h' x = h x)"
proof -
  let ?c = "map flip_step c"
  have "path_at (flip h) NULL root n ?c" using path by (simp add: path_at_flip)
  moreover have "tree_at (flip h) (step_parent NULL ?c) n (Node (Node (mirror rr) r (mirror rl)) n (mirror l))"
    using tree by (auto simp: tree_at_flip)
  moreover have "distinct (before ?c @ inorder (Node (Node (mirror rr) r (mirror rl)) n (mirror l)) @ after ?c)"
    using dist by (auto simp: inorder_mirror)
  ultimately obtain g where g: "sp_turn_left (flip h) n = Some g"
    "path_at g NULL (if ?c = [] then r else root) r ?c"
    "tree_at g (step_parent NULL ?c) r (Node (mirror rr) r (Node (mirror rl) n (mirror l)))"
    "\<forall>x. x \<notin> set (before ?c @ inorder (Node (Node (mirror rr) r (mirror rl)) n (mirror l)) @ after ?c) \<longrightarrow>
        g x = flip h x"
    using sp_turn_left_ok by blast
  have "sp_turn_right h n = Some (flip g)"
    using sp_turn_right_flip [OF path] tree dist g(1) by auto
  moreover have "path_at (flip g) NULL (if c = [] then r else root) r c"
    using g(2) path_at_flip [of "flip g" NULL _ r c] by (simp split: if_splits)
  moreover have "tree_at (flip g) (step_parent NULL c) r (Node (Node l n rl) r rr)"
    using g(3) by (simp add: tree_at_flip)
  moreover have "flip g x = h x" if "x \<notin> set (before c @ inorder (Node l n (Node rl r rr)) @ after c)" for x
    using that g(4) flip_apply_eq [of "flip g" x h] by (auto simp: inorder_mirror)
  ultimately show ?thesis by blast
qed

section \<open>Rebalancing\<close>

lemma tree_at_hint_nonneg: "tree_at h par p t \<Longrightarrow> p \<noteq> NULL \<Longrightarrow> 0 \<le> hint (h p)"
  by (cases t) auto

lemma sp_max_hint_nonneg:
  assumes "tree_at h par n t" "n \<noteq> NULL"
  shows "0 \<le> sp_max_hint h n"
  using assms by (cases t) (auto simp: sp_max_hint_def Let_def dest: tree_at_hint_nonneg)

lemma sp_balance_leans:
  assumes "tree_at h par n (Node l n r)"
  shows "sp_balance h n < -1 \<Longrightarrow> r \<noteq> Leaf" "sp_balance h n > 1 \<Longrightarrow> l \<noteq> Leaf"
  using assms tree_at_hint_nonneg [of h n "sp_left (h n)" l] tree_at_hint_nonneg [of h n "sp_right (h n)" r]
    tree_at_Null [of h n "sp_left (h n)" l] tree_at_Null [of h n "sp_right (h n)" r]
  by (auto simp: sp_balance_def Let_def split: if_splits)

text \<open>
  One round of \<open>__sp_update\<close> up to its last test: at most one turn, after which the node
  that stands where \<open>n\<close> stood heads a tree with the same nodes in the same order.
\<close>

definition sp_turn :: "sp_heap \<Rightarrow> ptr \<Rightarrow> sp_heap option" where
  "sp_turn h n =
     (if sp_balance h n < -1 then sp_turn_right h n
      else if sp_balance h n > 1 then sp_turn_left h n else Some h)"

definition sp_turned_root :: "sp_heap \<Rightarrow> ptr \<Rightarrow> ptr \<Rightarrow> ptr" where
  "sp_turned_root h root n =
     (if n = root \<and> sp_balance h n < -1 then sp_right (h n)
      else if n = root \<and> sp_balance h n > 1 then sp_left (h n) else root)"

lemma sp_update_unfold:
  "sp_update h root n =
     (if n = NULL then Some (h, root)
      else Option.bind (sp_turn h n) (\<lambda>g.
        let g' = set_hint g n (sp_max_hint g n)
        in if hint (g' n) = 0 \<or> hint (g' n) \<noteq> hint (h n)
           then sp_update g' (sp_turned_root h root n) (sp_paren (h n))
           else Some (g', sp_turned_root h root n)))"
  by (subst sp_update.simps) (simp only: sp_turn_def sp_turned_root_def Let_def)

lemma sp_turn_ok:
  assumes path: "path_at h NULL root n c" and tree: "tree_at h (step_parent NULL c) n (Node l n r)"
    and dist: "distinct (before c @ inorder (Node l n r) @ after c)"
  shows "\<exists>g n' t'. sp_turn h n = Some g \<and> path_at g NULL (sp_turned_root h root n) n' c \<and>
      tree_at g (step_parent NULL c) n' t' \<and> inorder t' = inorder (Node l n r) \<and>
      (\<exists>par l' r'. tree_at g par n (Node l' n r')) \<and>
      (\<forall>x. x \<notin> set (before c @ inorder (Node l n r) @ after c) \<longrightarrow> g x = h x)"
proof -
  have root: "n = root \<longleftrightarrow> c = []"
  proof
    assume "n = root"
    then show "c = []" using path_at_root_in [OF path] dist by (cases "c = []") auto
  qed (use path in simp)
  note leans = sp_balance_leans [OF tree]
  consider "sp_balance h n < -1" | "sp_balance h n > 1" | "\<not> sp_balance h n < -1" "\<not> sp_balance h n > 1"
    by blast
  then show ?thesis
  proof cases
    case 1
    then obtain rl m rr where r: "r = Node rl m rr" using leans(1) by (cases r) auto
    obtain g where "sp_turn_right h n = Some g" "path_at g NULL (if c = [] then m else root) m c"
      "tree_at g (step_parent NULL c) m (Node (Node l n rl) m rr)"
      "\<forall>x. x \<notin> set (before c @ inorder (Node l n r) @ after c) \<longrightarrow> g x = h x"
      using sp_turn_right_ok [of h root n c l rl m rr] path tree dist r by blast
    moreover have "sp_right (h n) = m" using tree r by simp
    ultimately show ?thesis using 1 root r
      by (intro exI [of _ g] exI [of _ m] exI [of _ "Node (Node l n rl) m rr"])
        (auto simp: sp_turn_def sp_turned_root_def)
  next
    case 2
    then obtain ll m lr where l: "l = Node ll m lr" using leans(2) by (cases l) auto
    obtain g where "sp_turn_left h n = Some g" "path_at g NULL (if c = [] then m else root) m c"
      "tree_at g (step_parent NULL c) m (Node ll m (Node lr n r))"
      "\<forall>x. x \<notin> set (before c @ inorder (Node l n r) @ after c) \<longrightarrow> g x = h x"
      using sp_turn_left_ok [of h root n c ll m lr r] path tree dist l by blast
    moreover have "sp_left (h n) = m" using tree l by simp
    ultimately show ?thesis using 2 root l
      by (intro exI [of _ g] exI [of _ m] exI [of _ "Node ll m (Node lr n r)"])
        (auto simp: sp_turn_def sp_turned_root_def)
  next
    case 3
    then have "sp_turn h n = Some h" "sp_turned_root h root n = root"
      by (simp_all add: sp_turn_def sp_turned_root_def)
    moreover have "\<exists>par l' r'. tree_at h par n (Node l' n r')" using tree by blast
    ultimately show ?thesis using path tree by metis
  qed
qed

lemma path_at_up:
  assumes "path_at h NULL root n (s # c)" "tree_at h (step_parent NULL (s # c)) n t"
  obtains t' where "tree_at h (step_parent NULL c) (step_parent NULL (s # c)) t'"
    "path_at h NULL root (step_parent NULL (s # c)) c"
    "before c @ inorder t' @ after c = before (s # c) @ inorder t @ after (s # c)"
proof (cases s)
  case (StepL x r)
  then show ?thesis using assms that [of "Node t x r"] by simp
next
  case (StepR l x)
  then show ?thesis using assms that [of "Node l x t"] by simp
qed

lemma sp_update_ok:
  assumes "path_at h NULL root n c" "tree_at h (step_parent NULL c) n t"
    and "distinct (before c @ inorder t @ after c)"
  shows "\<exists>h' root' t'. sp_update h root n = Some (h', root') \<and> tree_at h' NULL root' t' \<and>
      inorder t' = before c @ inorder t @ after c \<and>
      (\<forall>x. x \<notin> set (before c @ inorder t @ after c) \<longrightarrow> h' x = h x)"
  using assms
proof (induction c arbitrary: h root n t rule: length_induct)
  case (1 c)
  show ?case
  proof (cases t)
    case Leaf
    then have "sp_update h root n = Some (h, root)" using 1 by (simp add: sp_update_unfold)
    then show ?thesis
      using "1.prems" Leaf by (auto intro!: exI [of _ "plug c t"] simp: tree_at_plug inorder_plug)
  next
    case (Node l m r)
    then have m: "n = m" "n \<noteq> NULL" "sp_paren (h n) = step_parent NULL c" using "1.prems" by auto
    obtain g n' t' where g: "sp_turn h n = Some g" "path_at g NULL (sp_turned_root h root n) n' c"
      "tree_at g (step_parent NULL c) n' t'" "inorder t' = inorder t"
      "\<exists>par l' r'. tree_at g par n (Node l' n r')"
      "\<forall>x. x \<notin> set (before c @ inorder t @ after c) \<longrightarrow> g x = h x"
      using sp_turn_ok [of h root n c l r] "1.prems" Node m(1) by blast
    define g' where "g' = set_hint g n (sp_max_hint g n)"
    have hint: "0 \<le> sp_max_hint g n" using g(5) m(2) sp_max_hint_nonneg by blast
    have path': "path_at g' NULL (sp_turned_root h root n) n' c"
      and tree': "tree_at g' (step_parent NULL c) n' t'"
      using g(2,3) hint by (simp_all add: g'_def path_at_set_hint tree_at_set_hint)
    have frame: "g' x = h x" if "x \<notin> set (before c @ inorder t @ after c)" for x
      using that g(6) Node m(1) by (auto simp: g'_def set_hint_def)
    have up: "sp_update h root n = (if hint (g' n) = 0 \<or> hint (g' n) \<noteq> hint (h n)
         then sp_update g' (sp_turned_root h root n) (step_parent NULL c)
         else Some (g', sp_turned_root h root n))"
      using m g(1) by (simp add: sp_update_unfold [of h] g'_def Let_def)
    have stop: "tree_at g' NULL (sp_turned_root h root n) (plug c t')"
      "inorder (plug c t') = before c @ inorder t @ after c"
      using path' tree' g(4) by (auto simp: tree_at_plug inorder_plug)
    show ?thesis
    proof (cases "hint (g' n) = 0 \<or> hint (g' n) \<noteq> hint (h n)")
      case False
      then show ?thesis using up stop frame by (metis (full_types))
    next
      case True
      show ?thesis
      proof (cases c)
        case Nil
        then have "sp_update h root n = Some (g', sp_turned_root h root n)"
          using True up by (simp add: sp_update_unfold [of g'])
        then show ?thesis using stop frame by blast
      next
        case (Cons s c')
        with path' tree' obtain t'' where t'': "tree_at g' (step_parent NULL c') (step_parent NULL c) t''"
          "path_at g' NULL (sp_turned_root h root n) (step_parent NULL c) c'"
          "before c' @ inorder t'' @ after c' = before c @ inorder t' @ after c"
          using path_at_up by blast
        then have "\<exists>h' root' t'. sp_update g' (sp_turned_root h root n) (step_parent NULL c) = Some (h', root') \<and>
            tree_at h' NULL root' t' \<and> inorder t' = before c' @ inorder t'' @ after c' \<and>
            (\<forall>x. x \<notin> set (before c' @ inorder t'' @ after c') \<longrightarrow> h' x = g' x)"
          using "1.IH" Cons "1.prems"(3) g(4) by (metis length_Cons lessI)
        then show ?thesis using True up frame t''(3) g(4) by (metis (no_types, lifting))
      qed
    qed
  qed
qed

section \<open>Insertion\<close>

lemma sp_insert_ok:
  assumes tree: "tree_at h NULL root t" and dist: "distinct (inorder t)"
    and inorder: "inorder t = xs @ p # ys"
    and fresh: "n \<notin> set_tree t" "n \<noteq> NULL" "sp_left (h n) = NULL" "sp_right (h n) = NULL" "0 \<le> hint (h n)"
    and free: "case d of SP_LEFT \<Rightarrow> sp_left (h p) = NULL | SP_RIGHT \<Rightarrow> sp_right (h p) = NULL"
  shows "\<exists>h' root' t'. sp_insert h root p n d = Some (h', root') \<and> tree_at h' NULL root' t' \<and>
      inorder t' = (case d of SP_LEFT \<Rightarrow> xs @ n # p # ys | SP_RIGHT \<Rightarrow> xs @ p # n # ys) \<and>
      (\<forall>x. x \<notin> set_tree t \<and> x \<noteq> n \<longrightarrow> h' x = h x)"
proof -
  have "p \<in> set_tree t" using inorder by (metis in_set_conv_decomp set_inorder)
  then obtain c l r where t: "t = plug c (Node l p r)" by (rule plug_exists)
  have path: "path_at h NULL root p c" and sub: "tree_at h (step_parent NULL c) p (Node l p r)"
    using tree unfolding t tree_at_plug by auto
  have nodes: "set_tree t = set (before c @ inorder (Node l p r) @ after c)"
    unfolding set_inorder [symmetric] t inorder_plug by simp
  have dist': "distinct (before c @ inorder (Node l p r) @ after c)" using dist by (simp add: t inorder_plug)
  have nin: "p \<notin> set (before c @ inorder l)" "p \<notin> set (inorder r @ after c)" using dist' by auto
  have "before c @ inorder l @ p # inorder r @ after c = xs @ p # ys"
    using inorder by (simp add: t inorder_plug)
  then have split: "xs = before c @ inorder l" "ys = inorder r @ after c"
    using nin append_Cons_eq_iff [of p "before c @ inorder l" "inorder r @ after c" xs ys] by simp_all
  have root: "root \<noteq> NULL" using tree \<open>p \<in> set_tree t\<close> by (cases t) auto
  have np: "n \<noteq> p" using fresh(1) \<open>p \<in> set_tree t\<close> by blast
  have nn: "n \<notin> set (before c @ after c)" "n \<notin> set_tree l" "n \<notin> set_tree r" using fresh(1) nodes by simp_all
  have pp: "p \<notin> set (before c @ after c)" "p \<notin> set_tree l" "p \<notin> set_tree r" using dist' by simp_all
  show ?thesis
  proof (cases d)
    case SP_LEFT
    define g where "g = set_paren (set_left h p n) n p"
    have l: "l = Leaf" using sub free SP_LEFT by (cases l) auto
    have off: "g x = h x" if "x \<noteq> n" "x \<noteq> p" for x using that by (simp add: g_def field_defs)
    have "path_at g NULL root p c"
      by (rule path_at_cong [THEN iffD2, OF _ path], rule off) (use nn(1) pp(1) in auto)
    moreover have "tree_at g p (sp_right (h p)) r"
      by (rule tree_at_cong [THEN iffD2, of _ _ h], rule off) (use sub nn pp in auto)
    ultimately have "path_at g NULL root n (StepL p r # c)" "tree_at g (step_parent NULL (StepL p r # c)) n (Node Leaf n Leaf)"
      using sub fresh np by (auto simp: g_def field_defs)
    moreover have "distinct (before (StepL p r # c) @ inorder (Node Leaf n Leaf) @ after (StepL p r # c))"
      using dist' fresh(1) unfolding nodes by auto
    ultimately show ?thesis
      using sp_update_ok [of g root n "StepL p r # c" "Node Leaf n Leaf"] off SP_LEFT root split l nodes
      by (fastforce simp: sp_insert_def g_def)
  next
    case SP_RIGHT
    define g where "g = set_paren (set_right h p n) n p"
    have r: "r = Leaf" using sub free SP_RIGHT by (cases r) auto
    have off: "g x = h x" if "x \<noteq> n" "x \<noteq> p" for x using that by (simp add: g_def field_defs)
    have "path_at g NULL root p c"
      by (rule path_at_cong [THEN iffD2, OF _ path], rule off) (use nn(1) pp(1) in auto)
    moreover have "tree_at g p (sp_left (h p)) l"
      by (rule tree_at_cong [THEN iffD2, of _ _ h], rule off) (use sub nn pp in auto)
    ultimately have "path_at g NULL root n (StepR l p # c)" "tree_at g (step_parent NULL (StepR l p # c)) n (Node Leaf n Leaf)"
      using sub fresh np by (auto simp: g_def field_defs)
    moreover have "distinct (before (StepR l p # c) @ inorder (Node Leaf n Leaf) @ after (StepR l p # c))"
      using dist' fresh(1) unfolding nodes by auto
    ultimately show ?thesis
      using sp_update_ok [of g root n "StepR l p # c" "Node Leaf n Leaf"] off SP_RIGHT root split r nodes
      by (fastforce simp: sp_insert_def g_def)
  qed
qed

end
