(* ===== verification/Sp_Remove.thy ===== *)
theory Sp_Remove
  imports Sp_Tree
begin

text \<open>
  Removal from the trees of \<^verbatim>\<open>src/sp_tree.c\<close>: the two replacement routines, the search for
  the successor or predecessor, and what \<open>sp_remove\<close> does to the sequence of nodes.
\<close>

section \<open>The outermost nodes\<close>

lemma sp_first_ok:
  assumes "path_at h up root n c" "tree_at h (step_parent up c) n t" "t \<noteq> Leaf"
  shows "\<exists>d x rr. sp_first h n = Some x \<and> path_at h up root x (d @ c) \<and>
      tree_at h (step_parent up (d @ c)) x (Node Leaf x rr) \<and> plug c t = plug (d @ c) (Node Leaf x rr) \<and>
      before (d @ c) = before c"
  using assms
proof (induction t arbitrary: n c)
  case (Node l y r)
  show ?case
  proof (cases "l = Leaf")
    case True
    then have "sp_first h n = Some y" using Node.prems by (simp add: sp_first.simps)
    then show ?thesis using Node.prems True by (intro exI [of _ "[]"]) auto
  next
    case False
    then have step: "sp_first h n = sp_first h (sp_left (h n))"
      using Node.prems tree_at_Null by (subst sp_first.simps) auto
    have "path_at h up root (sp_left (h y)) (StepL y r # c)"
      "tree_at h (step_parent up (StepL y r # c)) (sp_left (h y)) l"
      using Node.prems by auto
    from Node.IH(1) [OF this False] obtain d x rr where
      "sp_first h (sp_left (h y)) = Some x" "path_at h up root x (d @ StepL y r # c)"
      "tree_at h (step_parent up (d @ StepL y r # c)) x (Node Leaf x rr)"
      "plug (StepL y r # c) l = plug (d @ StepL y r # c) (Node Leaf x rr)"
      "before (d @ StepL y r # c) = before (StepL y r # c)" by blast
    then show ?thesis using step Node.prems by (intro exI [of _ "d @ [StepL y r]"]) auto
  qed
qed simp

lemma sp_last_flip:
  assumes "tree_at h par n t" "t \<noteq> Leaf"
  shows "sp_last h n = sp_first (flip h) n"
  using assms
proof (induction t arbitrary: par n)
  case (Node l y r)
  then show ?case
    by (cases "r = Leaf")
      (auto simp: sp_first.simps [of "flip h" y] sp_last.simps [of h y] tree_at_Null)
qed simp

section \<open>Replacement by the successor\<close>

lemma path_at_retop:
  assumes "path_at h up root n c" "c \<noteq> []" "distinct (before c @ after c)"
    and "\<And>x. x \<in> set (before c @ after c) \<Longrightarrow> x \<noteq> root \<Longrightarrow> h' x = h x"
    and "h' root = (h root)\<lparr>sp_paren := up'\<rparr>"
  shows "path_at h' up' root n c"
  using assms
proof (induction c arbitrary: n)
  case (Cons s c)
  have inner: "set (before c @ after c) \<subseteq> set (before (s # c) @ after (s # c))" by (cases s) auto
  define x where "x = step_parent up (s # c)"
  have x: "x \<in> set (before (s # c) @ after (s # c))" "x \<notin> set (before c @ after c)"
    using Cons.prems(3) step_parent_in [of "s # c" up] by (cases s; auto simp: x_def)+
  have sub: "y \<noteq> root" if "(case s of StepL _ r \<Rightarrow> y \<in> set_tree r | StepR l _ \<Rightarrow> y \<in> set_tree l)" for y
    using path_at_root_in [OF Cons.prems(1)] path_at_root_in [of h up root x c] Cons.prems(1,3) that
    by (cases "c = []"; cases s) (auto simp: x_def)
  have same: "\<And>q. tree_at h' x q t \<longleftrightarrow> tree_at h x q t" if "s = StepL x t \<or> s = StepR t x" for t
    using Cons.prems(4) sub that by (intro tree_at_cong) (cases s; auto)
  show ?case
  proof (cases "c = []")
    case True
    then show ?thesis using Cons.prems same by (cases s) (auto simp: x_def)
  next
    case False
    have px: "path_at h up root x c" using Cons.prems(1) by (cases s) (auto simp: x_def)
    then have "root \<in> set (before c @ after c)" using False path_at_root_in by blast
    then have "x \<noteq> root" using x(2) by blast
    moreover have "path_at h' up' root x c"
    proof (rule Cons.IH [OF px False])
      show "distinct (before c @ after c)" using Cons.prems(3) by (cases s) auto
    qed (use Cons.prems(4,5) inner in auto)
    moreover have "step_parent up' c = step_parent up c"
      using False by (cases "(up, c)" rule: step_parent.cases) auto
    ultimately show ?thesis using Cons.prems(1,4) same x(1) by (cases s) (auto simp: x_def)
  qed
qed simp

text \<open>
  The effect of \<open>__sp_replace_right\<close>, when \<open>x\<close> is the first node of the right subtree of
  \<open>n\<close>: the way \<open>d\<close> from there down to \<open>x\<close> is all left turns, and \<open>m\<close> heads what was
  right of \<open>x\<close>.
\<close>

lemma sp_replace_right_child:
  assumes path: "path_at h NULL root n c" and tree: "tree_at h (step_parent NULL c) n (Node l n (Node Leaf x rr))"
    and dist: "distinct (before c @ inorder (Node l n (Node Leaf x rr)) @ after c)"
  shows "path_at (sp_replace_right h n x) NULL (if c = [] then x else root) x c \<and>
      tree_at (sp_replace_right h n x) (step_parent NULL c) x (Node l x rr) \<and>
      (\<forall>y. y \<notin> set (before c @ inorder (Node l n (Node Leaf x rr)) @ after c) \<longrightarrow>
        sp_replace_right h n x y = h y)"
proof -
  let ?p = "step_parent NULL c" and ?l = "sp_left (h n)"
  define A where "A = set (before c @ after c)"
  have f: "n \<noteq> NULL" "x \<noteq> NULL" "sp_right (h n) = x" "sp_paren (h n) = ?p" "sp_paren (h x) = n"
    "tree_at h n ?l l" "tree_at h x (sp_right (h x)) rr" "0 \<le> hint (h x)"
    using tree by auto
  have sets: "n \<notin> A" "x \<notin> A" "n \<noteq> x" "n \<notin> set_tree l" "x \<notin> set_tree l" "n \<notin> set_tree rr" "x \<notin> set_tree rr"
    "set_tree l \<inter> A = {}" "set_tree rr \<inter> A = {}" "set_tree l \<inter> set_tree rr = {}"
    using dist by (auto simp: A_def)
  have nn: "NULL \<notin> A" "NULL \<notin> set_tree l" "NULL \<notin> set_tree rr"
    using path_at_NULL_notin [OF path] tree_at_NULL_notin [OF tree] by (auto simp: A_def)
  have p: "?p = NULL \<or> ?p \<in> A" unfolding A_def by (rule step_parent_or)
  have lin: "?l = NULL \<or> ?l \<in> set_tree l" using tree_at_root_in [OF f(6)] by blast
  have ne: "?p \<noteq> n" "?p \<noteq> x" "?l \<noteq> x" "?l \<noteq> n"
    using null_or_in_ne [OF p] null_or_in_ne [OF lin] sets f(1,2) by auto
  have lp: "?l = NULL \<or> ?l \<noteq> ?p" using null_or_in_disjoint [OF lin p] sets(8) by simp
  define g where "g = set_left (set_paren h x ?p) x ?l"
  define g1 where "g1 = sp_set_child g ?p n x"
  define H where "H = (if ?l \<noteq> NULL then set_paren g1 ?l x else g1)"
  have gn: "g n = h n" "c \<noteq> [] \<Longrightarrow> g ?p = h ?p"
    using sets(3) ne by (auto simp: g_def field_defs)
  have g1: "g1 = set_step_child g c x"
    unfolding g1_def using path f(1) sets(1) gn(2) unfolding A_def by (intro sp_set_child_path) auto
  have g1n: "g1 n = h n" using gn(1) ne(1) by (simp add: g1_def sp_set_child_def field_defs)
  have call: "sp_replace_right h n x = H"
  proof -
    have "sp_left (set_paren h x ?p n) = ?l" "sp_right (g n) = x" "sp_left (g1 n) = ?l"
      using sets(3) f(3) by (simp_all add: gn(1) g1n field_defs)
    then show ?thesis
      by (simp only: sp_replace_right_def Let_def f(4,5) ne if_False g_def [symmetric] g1_def [symmetric]
          H_def simp_thms cong: let_weak_cong)
  qed
  have off: "H y = h y" if "y \<noteq> x" "y \<noteq> ?p" "y \<noteq> ?l" for y
    using that by (simp add: H_def g1_def g_def sp_set_child_def field_defs)
  have onpath: "H y = set_step_child h c x y" if "y \<in> A" for y
  proof -
    have "y \<noteq> x" "?l = NULL \<or> y \<noteq> ?l" using that sets(2,8) lin by auto
    then show ?thesis unfolding H_def g1 g_def
      by (cases "(h, c, x)" rule: set_step_child.cases) (auto simp: field_defs)
  qed
  have "path_at H NULL (if c = [] then x else root) x c"
    using path _ onpath unfolding A_def by (rule path_at_set_child) (use dist in auto)
  moreover have "tree_at H x ?l l"
  proof (rule tree_at_reparent [OF f(6)])
    show "distinct (inorder l)" using dist by simp
    show "H y = h y" if "y \<in> set_tree l" "y \<noteq> ?l" for y
      using that sets(5,8) p nn(2) by (intro off) auto
    show "H ?l = (h ?l)\<lparr>sp_paren := x\<rparr>" if "?l \<noteq> NULL"
      using that lp ne(3) by (simp add: H_def g1_def g_def sp_set_child_def field_defs)
  qed
  moreover have "tree_at H x (sp_right (h x)) rr"
    by (rule tree_at_cong [THEN iffD2, OF _ f(7)], rule off) (use sets nn p lin in auto)
  moreover have "H x = (h x)\<lparr>sp_paren := ?p, sp_left := ?l\<rparr>"
    using ne by (simp add: H_def g1_def g_def sp_set_child_def field_defs)
  moreover have "H y = h y" if "y \<notin> A \<union> set_tree l \<union> {n, x} \<union> set_tree rr" for y
  proof (cases "y = NULL")
    case True
    then show ?thesis using f(2) by (simp add: H_def g1_def g_def sp_set_child_def field_defs)
  next
    case False
    then show ?thesis using that p lin by (intro off) auto
  qed
  ultimately show ?thesis unfolding call using f by (auto simp: A_def)
qed

lemma null_or_in_other: "m = NULL \<or> m \<in> A \<Longrightarrow> q \<in> B \<Longrightarrow> A \<inter> B = {} \<Longrightarrow> NULL \<notin> B \<Longrightarrow> m \<noteq> q"
  by auto

lemma sp_replace_right_deep:
  assumes path: "path_at h NULL root n c" and tree: "tree_at h (step_parent NULL c) n (Node l n r)"
    and down: "path_at h n (sp_right (h n)) x (StepL q s # d)" and sub: "tree_at h q x (Node Leaf x rr)"
    and r: "r = plug (StepL q s # d) (Node Leaf x rr)"
    and dist: "distinct (before c @ inorder (Node l n r) @ after c)"
  shows "path_at (sp_replace_right h n x) NULL (if c = [] then x else root) x c \<and>
      tree_at (sp_replace_right h n x) (step_parent NULL c) x (Node l x (plug (StepL q s # d) rr)) \<and>
      (\<forall>y. y \<notin> set (before c @ inorder (Node l n r) @ after c) \<longrightarrow> sp_replace_right h n x y = h y)"
proof -
  let ?p = "step_parent NULL c" and ?l = "sp_left (h n)" and ?k = "sp_right (h n)" and ?m = "sp_right (h x)"
  let ?w = "StepL q s # d"
  define A where "A = set (before c @ after c)"
  define B where "B = set (before ?w @ after ?w)"
  have f: "n \<noteq> NULL" "x \<noteq> NULL" "sp_paren (h n) = ?p" "sp_paren (h x) = q" "sp_left (h q) = x"
    "tree_at h n ?l l" "tree_at h x ?m rr" "0 \<le> hint (h x)" "sp_paren (h q) = step_parent n d" "q \<noteq> NULL"
    using tree sub down by auto
  have rset: "set_tree r = B \<union> {x} \<union> set_tree rr" unfolding r set_inorder [symmetric] inorder_plug B_def by auto
  have "distinct (inorder r)" and distl: "distinct (inorder l)" using dist by simp_all
  then have distr: "distinct (before ?w @ x # inorder rr @ after ?w)"
    unfolding r inorder_plug by (simp only: inorder.simps append.simps)
  have sets: "n \<notin> A" "n \<notin> B" "n \<noteq> x" "n \<notin> set_tree l" "n \<notin> set_tree rr" "set_tree l \<inter> A = {}"
    "set_tree l \<inter> B = {}" "x \<notin> set_tree l" "set_tree l \<inter> set_tree rr = {}" "A \<inter> B = {}" "x \<notin> A" "set_tree rr \<inter> A = {}"
    using dist rset unfolding A_def by (auto simp: set_inorder [symmetric] simp del: set_inorder)
  have setr: "x \<notin> B" "x \<notin> set_tree rr" "set_tree rr \<inter> B = {}"
    using distr unfolding B_def by auto
  have nn: "NULL \<notin> A" "NULL \<notin> set_tree l" "NULL \<notin> B" "NULL \<notin> set_tree rr"
    using path_at_NULL_notin [OF path] tree_at_NULL_notin [OF tree] rset by (auto simp: A_def)
  have p: "?p = NULL \<or> ?p \<in> A" unfolding A_def by (rule step_parent_or)
  have lin: "?l = NULL \<or> ?l \<in> set_tree l" using tree_at_root_in [OF f(6)] by blast
  have min: "?m = NULL \<or> ?m \<in> set_tree rr" using tree_at_root_in [OF f(7)] by blast
  have qB: "q \<in> B" and kB: "?k \<in> B" using path_at_root_in [OF down] by (auto simp: B_def)
  have qk: "q = ?k" if "sp_paren (h q) = n"
  proof (cases "d = []")
    case False
    then have "step_parent n d \<in> B" using step_parent_in [OF False] by (auto simp: B_def)
    then show ?thesis using that f(9) sets(2) by auto
  qed (use down in simp)
  have ne1: "?p \<noteq> n" "?p \<noteq> x" "?l \<noteq> x" "?l \<noteq> n" "?m \<noteq> x" "?m \<noteq> n" "q \<noteq> x" "q \<noteq> n" "?k \<noteq> x" "?k \<noteq> n"
    using null_or_in_ne [OF p] null_or_in_ne [OF lin] null_or_in_ne [OF min] sets setr f(1,2) qB kB nn by auto
  have ne2: "?m \<noteq> q" "?m \<noteq> ?k" "?l \<noteq> q" "?l \<noteq> ?k" "?p \<noteq> q" "?p \<noteq> ?k"
    using null_or_in_other [OF min qB] null_or_in_other [OF min kB] null_or_in_other [OF lin qB]
      null_or_in_other [OF lin kB] null_or_in_other [OF p qB] null_or_in_other [OF p kB] sets(7,10) setr(3) nn(3)
    by simp_all
  note ne = ne1 ne2
  have lp: "?l = NULL \<or> ?l \<noteq> ?p" "?m = NULL \<or> ?m \<noteq> ?p" "?m = NULL \<or> ?m \<noteq> ?l"
    using null_or_in_disjoint [OF lin p] null_or_in_disjoint [OF min p] null_or_in_disjoint [OF min lin] sets
    by (simp_all add: Int_commute)
  define g1 where "g1 = set_left h q ?m"
  define g2 where "g2 = (if ?m \<noteq> NULL then set_paren g1 ?m q else g1)"
  define g3 where "g3 = (if sp_paren (g2 q) = n then set_paren g2 q x else g2)"
  define g5 where "g5 = set_paren (set_right (set_left (set_paren g3 x ?p) x ?l) x ?k) ?k x"
  define g6 where "g6 = sp_set_child g5 ?p n x"
  define H where "H = (if ?l \<noteq> NULL then set_paren g6 ?l x else g6)"
  have g3: "g3 y = (if y = q \<and> sp_paren (h q) = n then (g2 q)\<lparr>sp_paren := x\<rparr> else g2 y)" for y
    using ne by (simp add: g3_def g2_def g1_def field_defs)
  have g3n: "g3 n = h n" "g3 x = h x" "c \<noteq> [] \<Longrightarrow> g3 ?p = h ?p"
    using ne lp nn(1) p by (auto simp: g3 g2_def g1_def field_defs)
  have g5n: "g5 n = h n" "c \<noteq> [] \<Longrightarrow> g5 ?p = h ?p"
    using ne sets(3) g3n by (simp_all add: g5_def field_defs)
  have g6n: "g6 n = h n" using g5n(1) ne(1) by (simp add: g6_def sp_set_child_def field_defs)
  have g6: "g6 = set_step_child g5 c x"
    unfolding g6_def using path f(1) sets(1) g5n(2) unfolding A_def by (intro sp_set_child_path) auto
  have call: "sp_replace_right h n x = H"
  proof -
    have "sp_right (g1 x) = ?m" "sp_left (set_paren g3 x ?p n) = ?l"
      "sp_right (set_left (set_paren g3 x ?p) x ?l n) = ?k"
      "sp_right (set_right (set_left (set_paren g3 x ?p) x ?l) x ?k n) = ?k" "sp_left (g6 n) = ?l"
      using ne sets(3) g3n g6n by (simp_all add: g1_def field_defs)
    then show ?thesis
      using ne(9) by (simp only: sp_replace_right_def Let_def f(3-5) if_True if_False refl
          g1_def [symmetric] g2_def [symmetric] g3_def [symmetric] g5_def [symmetric] g6_def [symmetric] H_def simp_thms cong: let_weak_cong)
  qed
  have at1: "g1 y = h y" if "y \<noteq> q" for y using that by (simp add: g1_def field_defs)
  have at2: "g2 y = g1 y" if "?m = NULL \<or> y \<noteq> ?m" for y using that by (auto simp: g2_def field_defs)
  have at3: "g3 y = g2 y" if "y \<noteq> ?k" for y using that qk by (auto simp: g3)
  have at5: "g5 y = g3 y" if "y \<noteq> x" "y \<noteq> ?k" for y using that by (simp add: g5_def field_defs)
  have at6: "g6 y = g5 y" if "?p = NULL \<or> y \<noteq> ?p" for y using that by (auto simp: g6_def sp_set_child_def field_defs)
  have atH: "H y = g6 y" if "?l = NULL \<or> y \<noteq> ?l" for y using that by (auto simp: H_def field_defs)
  have off: "H y = h y" if "y \<noteq> x" "?p = NULL \<or> y \<noteq> ?p" "?l = NULL \<or> y \<noteq> ?l" "y \<noteq> ?k" "y \<noteq> q" "?m = NULL \<or> y \<noteq> ?m" for y
    using atH [OF that(3)] at6 [OF that(2)] at5 [OF that(1,4)] at3 [OF that(4)] at2 [OF that(6)] at1 [OF that(5)] by simp
  have onpath: "H y = set_step_child h c x y" if "y \<in> A" for y
  proof -
    have "y \<noteq> x" "y \<noteq> ?l" "y \<noteq> ?m" "y \<noteq> q" "y \<noteq> ?k" using that sets nn qB kB lin min by auto
    then have "g5 y = h y" "H y = g6 y" using at5 at3 at2 at1 atH by metis+
    then show ?thesis unfolding g6
      by (cases "(h, c, x)" rule: set_step_child.cases) (auto simp: field_defs)
  qed
  have top: "path_at H NULL (if c = [] then x else root) x c"
    using path _ onpath unfolding A_def by (rule path_at_set_child) (use dist in auto)
  have left: "tree_at H x ?l l"
  proof (rule tree_at_reparent [OF f(6) distl])
    show "H y = h y" if "y \<in> set_tree l" "y \<noteq> ?l" for y
      using that sets p nn qB kB min by (intro off) auto
    show "H ?l = (h ?l)\<lparr>sp_paren := x\<rparr>" if "?l \<noteq> NULL"
    proof -
      have "g6 ?l = h ?l" using that lp ne at6 at5 at3 at2 at1 by metis
      then show ?thesis using that by (simp add: H_def field_defs)
    qed
  qed
  have right: "tree_at H q ?m rr"
  proof (rule tree_at_reparent [OF f(7)])
    show "distinct (inorder rr)" using distr by simp
    show "H y = h y" if "y \<in> set_tree rr" "y \<noteq> ?m" for y
      using that sets setr p nn qB kB lin by (intro off) auto
    show "H ?m = (h ?m)\<lparr>sp_paren := q\<rparr>" if "?m \<noteq> NULL"
    proof -
      have "H ?m = g2 ?m" using that lp ne at6 at5 at3 atH by metis
      then show ?thesis using that ne(11) by (simp add: g2_def g1_def field_defs)
    qed
  qed
  have distw: "distinct (before ?w @ after ?w)" using distr by auto
  have mid: "path_at g1 n ?k ?m ?w"
    using path_at_set_child [OF down distw, of g1 ?m] by (simp only: g1_def set_step_child.simps list.distinct if_False)
  have "path_at H x ?k ?m ?w"
  proof (rule path_at_retop [OF mid])
    show "distinct (before ?w @ after ?w)" by (rule distw)
    fix y assume y: "y \<in> set (before ?w @ after ?w)" "y \<noteq> ?k"
    then have "y \<in> B" by (simp add: B_def)
    then have "y \<noteq> x" "y \<noteq> ?p" "y \<noteq> ?l" "y \<noteq> ?m" using sets setr nn p lin min by auto
    then show "H y = g1 y" using y(2) at2 at3 at5 at6 atH by metis
  next
    show "H ?k = (g1 ?k)\<lparr>sp_paren := x\<rparr>"
    proof -
      have "g2 ?k = g1 ?k" "H ?k = g5 ?k" using ne at2 at6 atH by metis+
      then show ?thesis using ne by (auto simp: g5_def g3 field_defs)
    qed
  qed simp
  then have "tree_at H x ?k (plug ?w rr)" using right by (auto simp: tree_at_plug)
  moreover have "H x = (h x)\<lparr>sp_paren := ?p, sp_left := ?l, sp_right := ?k\<rparr>"
  proof -
    have "H x = g5 x" using ne at6 atH by metis
    then show ?thesis using ne g3n(2) by (simp add: g5_def field_defs)
  qed
  moreover have "H y = h y" if y: "y \<notin> A \<union> set_tree l \<union> {n} \<union> set_tree r" for y
  proof (rule off)
    show "y \<noteq> q" "y \<noteq> ?k" "y \<noteq> x" using y rset qB kB by auto
  qed (use y rset p lin min in auto)
  ultimately show ?thesis unfolding call using f top left by (auto simp: A_def)
qed

lemma sp_replace_right_ok:
  assumes path: "path_at h NULL root n c" and tree: "tree_at h (step_parent NULL c) n (Node l n r)"
    and r: "r \<noteq> Leaf" and dist: "distinct (before c @ inorder (Node l n r) @ after c)"
  shows "\<exists>x r'. sp_first h (sp_right (h n)) = Some x \<and> inorder r = x # inorder r' \<and>
      path_at (sp_replace_right h n x) NULL (if c = [] then x else root) x c \<and>
      tree_at (sp_replace_right h n x) (step_parent NULL c) x (Node l x r') \<and>
      (\<forall>y. y \<notin> set (before c @ inorder (Node l n r) @ after c) \<longrightarrow> sp_replace_right h n x y = h y)"
proof -
  have "path_at h n (sp_right (h n)) (sp_right (h n)) []" "tree_at h (step_parent n []) (sp_right (h n)) r"
    using tree by auto
  from sp_first_ok [OF this r] obtain d x rr where first: "sp_first h (sp_right (h n)) = Some x"
    and down: "path_at h n (sp_right (h n)) x d" and sub: "tree_at h (step_parent n d) x (Node Leaf x rr)"
    and plug: "r = plug d (Node Leaf x rr)" and before: "before d = []" by auto
  have "inorder r = x # inorder (plug d rr)" by (simp add: plug inorder_plug before)
  moreover have "path_at (sp_replace_right h n x) NULL (if c = [] then x else root) x c \<and>
      tree_at (sp_replace_right h n x) (step_parent NULL c) x (Node l x (plug d rr)) \<and>
      (\<forall>y. y \<notin> set (before c @ inorder (Node l n r) @ after c) \<longrightarrow> sp_replace_right h n x y = h y)"
  proof (cases d)
    case Nil
    then show ?thesis using sp_replace_right_child [OF path, of l x rr] tree dist plug by simp
  next
    case (Cons s d')
    then obtain q t where "s = StepL q t" using before by (cases s) auto
    then show ?thesis using sp_replace_right_deep [OF path tree _ _ _ dist, of x q t d' rr] down sub plug Cons by simp
  qed
  ultimately show ?thesis using first by blast
qed

section \<open>Replacement by the predecessor\<close>

text \<open>The replacements up to the line that redirects the parent's child pointer.\<close>

definition sp_graft_right :: "sp_heap \<Rightarrow> ptr \<Rightarrow> ptr \<Rightarrow> sp_heap" where
  "sp_graft_right h n r =
     (let rp = sp_paren (h r); p = sp_paren (h n);
          h = (if sp_left (h rp) = r then
                 (let h = set_left h rp (sp_right (h r))
                  in if sp_right (h r) \<noteq> NULL then set_paren h (sp_right (h r)) rp else h)
               else h);
          h = (if sp_paren (h rp) = n then set_paren h rp r else h);
          h = set_paren h r p;
          h = set_left h r (sp_left (h n))
      in if sp_right (h n) \<noteq> r then
           (let h = set_right h r (sp_right (h n)) in set_paren h (sp_right (h n)) r)
         else h)"

lemma sp_replace_right_graft:
  "sp_replace_right h n r =
     (let g = sp_set_child (sp_graft_right h n r) (sp_paren (h n)) n r
      in if sp_left (g n) \<noteq> NULL then set_paren g (sp_left (g n)) r else g)"
  by (simp only: sp_replace_right_def sp_graft_right_def Let_def)

lemma sp_replace_left_graft:
  "sp_replace_left h n l =
     (let g = sp_set_child (flip (sp_graft_right (flip h) n l)) (sp_paren (h n)) n l
      in if sp_right (g n) \<noteq> NULL then set_paren g (sp_right (g n)) l else g)"
  by (simp only: sp_replace_left_def sp_graft_right_def Let_def flip_sets flip_fields if_distrib [of flip, symmetric])

lemma set_children [simp]:
  "sp_left (set_paren h n v y) = sp_left (h y)" "sp_right (set_paren h n v y) = sp_right (h y)"
  "y \<noteq> n \<Longrightarrow> set_left h n v y = h y" "y \<noteq> n \<Longrightarrow> set_right h n v y = h y"
  by (auto simp: field_defs)

lemma sp_graft_right_children:
  assumes "y \<noteq> r" "y \<noteq> sp_paren (h r)"
  shows "sp_left (sp_graft_right h n r y) = sp_left (h y)" "sp_right (sp_graft_right h n r y) = sp_right (h y)"
  using assms by (simp_all add: sp_graft_right_def Let_def)

lemma sp_replace_left_flip:
  assumes path: "path_at h NULL root n c" and tree: "tree_at h (step_parent NULL c) n (Node l n r)"
    and x: "x \<in> set_tree l" and paren: "sp_paren (h x) = n \<or> sp_paren (h x) \<in> set_tree l"
    and dist: "distinct (before c @ inorder (Node l n r) @ after c)"
  shows "sp_replace_left h n x = flip (sp_replace_right (flip h) n x)"
proof -
  let ?p = "step_parent NULL c" and ?g = "flip (sp_graft_right (flip h) n x)"
  have n: "sp_paren (h n) = ?p" "n \<noteq> NULL" "n \<notin> set (before c @ after c)" using tree dist by auto
  have "?p = NULL \<or> ?p \<noteq> x \<and> ?p \<noteq> sp_paren (h x)"
    using step_parent_or [of NULL c] x paren dist by auto
  then have "sp_set_child (flip ?g) ?p n x = flip (sp_set_child ?g ?p n x)"
    using path_at_parent_children [OF path n(2,3)] sp_graft_right_children [of ?p x "flip h" n]
    by (intro sp_set_child_flip) auto
  then show ?thesis
    by (simp add: sp_replace_left_graft sp_replace_right_graft n(1) Let_def flip_sets)
qed

lemma tree_at_paren_in:
  "tree_at h par p t \<Longrightarrow> x \<in> set_tree t \<Longrightarrow> sp_paren (h x) = par \<or> sp_paren (h x) \<in> set_tree t"
  by (induction t arbitrary: par p) auto

lemma sp_replace_left_ok:
  assumes path: "path_at h NULL root n c" and tree: "tree_at h (step_parent NULL c) n (Node l n r)"
    and l: "l \<noteq> Leaf" and dist: "distinct (before c @ inorder (Node l n r) @ after c)"
  shows "\<exists>x l'. sp_last h (sp_left (h n)) = Some x \<and> inorder l = inorder l' @ [x] \<and>
      path_at (sp_replace_left h n x) NULL (if c = [] then x else root) x c \<and>
      tree_at (sp_replace_left h n x) (step_parent NULL c) x (Node l' x r) \<and>
      (\<forall>y. y \<notin> set (before c @ inorder (Node l n r) @ after c) \<longrightarrow> sp_replace_left h n x y = h y)"
proof -
  let ?c = "map flip_step c"
  have "path_at (flip h) NULL root n ?c" using path by (simp add: path_at_flip)
  moreover have "tree_at (flip h) (step_parent NULL ?c) n (Node (mirror r) n (mirror l))"
    using tree by (auto simp: tree_at_flip)
  moreover have "distinct (before ?c @ inorder (Node (mirror r) n (mirror l)) @ after ?c)"
    using dist by (auto simp: inorder_mirror)
  moreover have "mirror l \<noteq> Leaf" using l by simp
  ultimately obtain x r' where x: "sp_first (flip h) (sp_right (flip h n)) = Some x" "inorder (mirror l) = x # inorder r'"
    "path_at (sp_replace_right (flip h) n x) NULL (if ?c = [] then x else root) x ?c"
    "tree_at (sp_replace_right (flip h) n x) (step_parent NULL ?c) x (Node (mirror r) x r')"
    "\<forall>y. y \<notin> set (before ?c @ inorder (Node (mirror r) n (mirror l)) @ after ?c) \<longrightarrow>
       sp_replace_right (flip h) n x y = flip h y"
    using sp_replace_right_ok by blast
  have inl: "inorder l = inorder (mirror r') @ [x]" using x(2) by (simp add: inorder_mirror rev_swap)
  have "x \<in> set (inorder l)" unfolding inl by simp
  then have xl: "x \<in> set_tree l" by simp
  have tl: "tree_at h n (sp_left (h n)) l" using tree by simp
  have "sp_last h (sp_left (h n)) = Some x" using sp_last_flip [OF tl l] x(1) by simp
  moreover have eq: "sp_replace_left h n x = flip (sp_replace_right (flip h) n x)"
    using path tree xl tree_at_paren_in [OF tl xl] dist by (rule sp_replace_left_flip)
  moreover have "path_at (flip (sp_replace_right (flip h) n x)) NULL (if c = [] then x else root) x c"
    using x(3) path_at_flip [of "flip (sp_replace_right (flip h) n x)" NULL _ x c] by (simp split: if_splits)
  moreover have "tree_at (flip (sp_replace_right (flip h) n x)) (step_parent NULL c) x (Node (mirror r') x r)"
    using x(4) by (simp add: tree_at_flip)
  moreover have "flip (sp_replace_right (flip h) n x) y = h y"
    if "y \<notin> set (before c @ inorder (Node l n r) @ after c)" for y
    using that x(5) flip_apply_eq [of "flip (sp_replace_right (flip h) n x)" y h] by (auto simp: inorder_mirror)
  ultimately show ?thesis using inl by (intro exI [of _ x] exI [of _ "mirror r'"]) simp
qed

section \<open>Removal\<close>

lemma sp_remove_leaf:
  assumes path: "path_at h NULL root n c" and tree: "tree_at h (step_parent NULL c) n (Node Leaf n Leaf)"
    and dist: "distinct (before c @ n # after c)"
  shows "\<exists>h' root' t'. sp_remove h root n = Some (h', root') \<and> tree_at h' NULL root' t' \<and>
      inorder t' = before c @ after c \<and> (\<forall>y. y \<notin> set (before c @ n # after c) \<longrightarrow> h' y = h y)"
proof (cases c)
  case Nil
  then have "sp_remove h root n = Some (h, NULL)" using path tree by (simp add: sp_remove_def)
  then show ?thesis using Nil by (intro exI [of _ h] exI [of _ NULL] exI [of _ Leaf]) simp
next
  case (Cons s c')
  let ?p = "step_parent NULL c"
  have n: "n \<noteq> NULL" "n \<notin> set (before c @ after c)" "n \<noteq> root" "?p \<noteq> NULL"
    using tree dist path_at_root_in [OF path] path_at_NULL_notin [OF path] step_parent_in [of c NULL] Cons by fastforce+
  define g where "g = sp_set_child h ?p n NULL"
  have g: "g = set_step_child h c NULL"
    unfolding g_def using path n(1,2) by (intro sp_set_child_path) auto
  have "path_at g NULL root NULL c"
    using path_at_set_child [OF path _, of g NULL] dist Cons g by auto
  moreover have "tree_at g ?p NULL Leaf" by simp
  ultimately obtain t' where "tree_at g (step_parent NULL c') ?p t'" "path_at g NULL root ?p c'"
    "before c' @ inorder t' @ after c' = before c @ after c"
    using path_at_up [of g root NULL s c' Leaf] Cons by auto
  then obtain h' root' u where "sp_update g root ?p = Some (h', root')" "tree_at h' NULL root' u"
    "inorder u = before c @ after c" "\<forall>y. y \<notin> set (before c @ after c) \<longrightarrow> h' y = g y"
    using sp_update_ok [of g root ?p c' t'] dist by auto
  moreover have "sp_remove h root n = sp_update g root ?p"
    using tree n(3,4) by (auto simp: sp_remove_def g_def sp_set_child_def Let_def)
  moreover have "g y = h y" if "y \<notin> set (before c @ n # after c)" for y
  proof -
    have "y \<noteq> ?p" using that step_parent_in [of c NULL] Cons by auto
    then show ?thesis by (simp add: g_def sp_set_child_def)
  qed
  ultimately show ?thesis by auto
qed

lemma sp_remove_at:
  assumes path: "path_at h NULL root n c" and tree: "tree_at h (step_parent NULL c) n (Node l n r)"
    and dist: "distinct (before c @ inorder (Node l n r) @ after c)"
  shows "\<exists>h' root' t'. sp_remove h root n = Some (h', root') \<and> tree_at h' NULL root' t' \<and>
      inorder t' = before c @ inorder l @ inorder r @ after c \<and>
      (\<forall>y. y \<notin> set (before c @ inorder (Node l n r) @ after c) \<longrightarrow> h' y = h y)"
proof -
  have root: "n = root \<longleftrightarrow> c = []"
  proof
    assume "n = root"
    then show "c = []" using path_at_root_in [OF path] dist by (cases "c = []") auto
  qed (use path in simp)
  have null: "sp_left (h n) = NULL \<longleftrightarrow> l = Leaf" "sp_right (h n) = NULL \<longleftrightarrow> r = Leaf"
    using tree tree_at_Null by auto
  consider "r \<noteq> Leaf" | "r = Leaf" "l \<noteq> Leaf" | "r = Leaf" "l = Leaf" by blast
  then show ?thesis
  proof cases
    case 1
    then obtain x r' where x: "sp_first h (sp_right (h n)) = Some x" "inorder r = x # inorder r'"
      "path_at (sp_replace_right h n x) NULL (if c = [] then x else root) x c"
      "tree_at (sp_replace_right h n x) (step_parent NULL c) x (Node l x r')"
      "\<forall>y. y \<notin> set (before c @ inorder (Node l n r) @ after c) \<longrightarrow> sp_replace_right h n x y = h y"
      using sp_replace_right_ok [OF path tree _ dist] by blast
    let ?g = "sp_replace_right h n x" and ?root = "if c = [] then x else root"
    have "path_at ?g NULL ?root (sp_right (?g x)) (StepR l x # c)"
      "tree_at ?g (step_parent NULL (StepR l x # c)) (sp_right (?g x)) r'"
      using x(3,4) by auto
    moreover have "distinct (before (StepR l x # c) @ inorder r' @ after (StepR l x # c))"
      using dist x(2) by auto
    ultimately obtain h' root' u where "sp_update ?g ?root (sp_right (?g x)) = Some (h', root')" "tree_at h' NULL root' u"
      "inorder u = before c @ inorder l @ inorder r @ after c"
      "\<forall>y. y \<notin> set (before c @ inorder l @ inorder r @ after c) \<longrightarrow> h' y = ?g y"
      using sp_update_ok [of ?g ?root "sp_right (?g x)" "StepR l x # c" r'] x(2) by auto
    moreover have "sp_remove h root n = sp_update ?g ?root (sp_right (?g x))"
      using 1 null(2) x(1) root by (simp add: sp_remove_def Let_def)
    ultimately show ?thesis using x(5) by auto
  next
    case 2
    then obtain x l' where x: "sp_last h (sp_left (h n)) = Some x" "inorder l = inorder l' @ [x]"
      "path_at (sp_replace_left h n x) NULL (if c = [] then x else root) x c"
      "tree_at (sp_replace_left h n x) (step_parent NULL c) x (Node l' x r)"
      "\<forall>y. y \<notin> set (before c @ inorder (Node l n r) @ after c) \<longrightarrow> sp_replace_left h n x y = h y"
      using sp_replace_left_ok [OF path tree _ dist] by blast
    let ?g = "sp_replace_left h n x" and ?root = "if c = [] then x else root"
    have "path_at ?g NULL ?root (sp_left (?g x)) (StepL x r # c)"
      "tree_at ?g (step_parent NULL (StepL x r # c)) (sp_left (?g x)) l'"
      using x(3,4) by auto
    moreover have "distinct (before (StepL x r # c) @ inorder l' @ after (StepL x r # c))"
      using dist x(2) by auto
    ultimately obtain h' root' u where "sp_update ?g ?root (sp_left (?g x)) = Some (h', root')" "tree_at h' NULL root' u"
      "inorder u = before c @ inorder l @ inorder r @ after c"
      "\<forall>y. y \<notin> set (before c @ inorder l @ inorder r @ after c) \<longrightarrow> h' y = ?g y"
      using sp_update_ok [of ?g ?root "sp_left (?g x)" "StepL x r # c" l'] x(2) by auto
    moreover have "sp_remove h root n = sp_update ?g ?root (sp_left (?g x))"
      using 2 null x(1) root by (simp add: sp_remove_def Let_def)
    ultimately show ?thesis using x(5) by auto
  next
    case 3
    then show ?thesis using sp_remove_leaf [OF path] tree dist by simp
  qed
qed

lemma sp_remove_ok:
  assumes tree: "tree_at h NULL root t" and dist: "distinct (inorder t)" and inn: "n \<in> set_tree t"
  shows "\<exists>h' root' t'. sp_remove h root n = Some (h', root') \<and> tree_at h' NULL root' t' \<and>
      inorder t' = remove1 n (inorder t) \<and> (\<forall>y. y \<notin> set_tree t \<longrightarrow> h' y = h y)"
proof -
  obtain c l r where t: "t = plug c (Node l n r)" using inn by (rule plug_exists)
  have nodes: "set_tree t = set (before c @ inorder (Node l n r) @ after c)"
    unfolding set_inorder [symmetric] t inorder_plug by simp
  have d: "distinct (before c @ inorder (Node l n r) @ after c)" using dist by (simp add: t inorder_plug)
  then have rem: "remove1 n (inorder t) = before c @ inorder l @ inorder r @ after c"
    by (simp add: t inorder_plug remove1_append)
  have "path_at h NULL root n c" "tree_at h (step_parent NULL c) n (Node l n r)"
    using tree unfolding t tree_at_plug by auto
  from sp_remove_at [OF this d] show ?thesis unfolding nodes rem .
qed

section \<open>The interface the trees offer\<close>

text \<open>
  A client sees a sequence of nodes: it puts a blank node next to one that has room on
  that side and takes nodes out. Keys that are sorted along the sequence stay sorted when
  a node goes in between its neighbours' keys.
\<close>

locale node_sequence =
  fixes rep :: "'h \<Rightarrow> ptr \<Rightarrow> ptr list \<Rightarrow> bool"
    and blank :: "'h \<Rightarrow> ptr \<Rightarrow> bool"
    and room :: "'h \<Rightarrow> ptr \<Rightarrow> sp_dir \<Rightarrow> bool"
    and ins :: "'h \<Rightarrow> ptr \<Rightarrow> ptr \<Rightarrow> ptr \<Rightarrow> sp_dir \<Rightarrow> ('h \<times> ptr) option"
    and del :: "'h \<Rightarrow> ptr \<Rightarrow> ptr \<Rightarrow> ('h \<times> ptr) option"
  assumes rep_distinct: "rep h root xs \<Longrightarrow> distinct xs"
    and ins_first: "rep h root [] \<Longrightarrow> blank h n \<Longrightarrow>
      \<exists>h' root'. ins h root p n d = Some (h', root') \<and> rep h' root' [n]"
    and ins_left: "rep h root (xs @ p # ys) \<Longrightarrow> n \<notin> set (xs @ p # ys) \<Longrightarrow> blank h n \<Longrightarrow> room h p SP_LEFT \<Longrightarrow>
      \<exists>h' root'. ins h root p n SP_LEFT = Some (h', root') \<and> rep h' root' (xs @ n # p # ys)"
    and ins_right: "rep h root (xs @ p # ys) \<Longrightarrow> n \<notin> set (xs @ p # ys) \<Longrightarrow> blank h n \<Longrightarrow> room h p SP_RIGHT \<Longrightarrow>
      \<exists>h' root'. ins h root p n SP_RIGHT = Some (h', root') \<and> rep h' root' (xs @ p # n # ys)"
    and del_node: "rep h root xs \<Longrightarrow> n \<in> set xs \<Longrightarrow>
      \<exists>h' root'. del h root n = Some (h', root') \<and> rep h' root' (remove1 n xs)"
begin

lemma ins_del_same:
  assumes "rep h root (xs @ p # ys)" "n \<notin> set (xs @ p # ys)" "blank h n" "room h p d"
  shows "\<exists>h1 root1 h2 root2. ins h root p n d = Some (h1, root1) \<and> n \<noteq> p \<and>
      del h1 root1 n = Some (h2, root2) \<and> rep h2 root2 (xs @ p # ys)"
proof -
  obtain h1 root1 zs where "ins h root p n d = Some (h1, root1)" "rep h1 root1 zs"
    "zs = xs @ n # p # ys \<or> zs = xs @ p # n # ys"
    using ins_left [OF assms(1-3)] ins_right [OF assms(1-3)] assms(4) by (cases d) blast+
  moreover from this have "n \<in> set zs" "remove1 n zs = xs @ p # ys" using assms(2) by (auto simp: remove1_append)
  ultimately show ?thesis using del_node [of h1 root1 zs n] assms(2) by fastforce
qed

lemma ins_sorted:
  fixes key :: "ptr \<Rightarrow> 'k::linorder"
  assumes "rep h root (xs @ p # ys)" "n \<notin> set (xs @ p # ys)" "blank h n" "room h p d"
    and "sorted (map key (xs @ p # ys))"
    and "case d of SP_LEFT \<Rightarrow> key n \<le> key p \<and> (\<forall>x \<in> set xs. key x \<le> key n)
         | SP_RIGHT \<Rightarrow> key p \<le> key n \<and> (\<forall>y \<in> set ys. key n \<le> key y)"
  shows "\<exists>h' root' zs. ins h root p n d = Some (h', root') \<and> rep h' root' zs \<and>
      set zs = insert n (set (xs @ p # ys)) \<and> sorted (map key zs)"
proof (cases d)
  case SP_LEFT
  then obtain h' root' where "ins h root p n d = Some (h', root')" "rep h' root' (xs @ n # p # ys)"
    using ins_left [OF assms(1-3)] assms(4) by blast
  moreover have "sorted (map key (xs @ n # p # ys))"
    using assms(5,6) SP_LEFT by (auto simp: sorted_append intro: order_trans)
  moreover have "set (xs @ n # p # ys) = insert n (set (xs @ p # ys))" by auto
  ultimately show ?thesis by blast
next
  case SP_RIGHT
  then obtain h' root' where "ins h root p n d = Some (h', root')" "rep h' root' (xs @ p # n # ys)"
    using ins_right [OF assms(1-3)] assms(4) by blast
  moreover have "sorted (map key (xs @ p # n # ys))"
    using assms(5,6) SP_RIGHT by (auto simp: sorted_append intro: order_trans)
  moreover have "set (xs @ p # n # ys) = insert n (set (xs @ p # ys))" by auto
  ultimately show ?thesis by blast
qed

lemma del_sorted:
  fixes key :: "ptr \<Rightarrow> 'k::linorder"
  assumes "rep h root xs" "n \<in> set xs" "sorted (map key xs)"
  shows "\<exists>h' root' zs. del h root n = Some (h', root') \<and> rep h' root' zs \<and> set zs = set xs - {n} \<and>
      sorted (map key zs)"
proof -
  obtain h' root' where "del h root n = Some (h', root')" "rep h' root' (remove1 n xs)"
    using del_node [OF assms(1,2)] by blast
  moreover have "set (remove1 n xs) = set xs - {n}" using rep_distinct [OF assms(1)] by (rule set_remove1_eq)
  moreover have "sorted (map key (remove1 n xs))" using assms(3) by (rule sorted_map_remove1)
  ultimately show ?thesis by blast
qed

end

text \<open>The sequence of the nodes below a root, and the nodes ready to be inserted.\<close>

definition sp_seq :: "sp_heap \<Rightarrow> ptr \<Rightarrow> ptr list \<Rightarrow> bool" where
  "sp_seq h root xs \<longleftrightarrow> distinct xs \<and> (\<exists>t. tree_at h NULL root t \<and> inorder t = xs)"

definition sp_blank :: "sp_heap \<Rightarrow> ptr \<Rightarrow> bool" where
  "sp_blank h n \<longleftrightarrow> n \<noteq> NULL \<and> h n = \<lparr>sp_left = NULL, sp_right = NULL, sp_paren = NULL, hint = 0\<rparr>"

definition sp_room :: "sp_heap \<Rightarrow> ptr \<Rightarrow> sp_dir \<Rightarrow> bool" where
  "sp_room h p d \<longleftrightarrow> (case d of SP_LEFT \<Rightarrow> sp_left (h p) = NULL | SP_RIGHT \<Rightarrow> sp_right (h p) = NULL)"

lemma sp_insert_seq:
  assumes "sp_seq h root (xs @ p # ys)" "n \<notin> set (xs @ p # ys)" "sp_blank h n" "sp_room h p d"
  shows "\<exists>h' root'. sp_insert h root p n d = Some (h', root') \<and>
      sp_seq h' root' (case d of SP_LEFT \<Rightarrow> xs @ n # p # ys | SP_RIGHT \<Rightarrow> xs @ p # n # ys) \<and>
      (\<forall>x. x \<notin> set (n # xs @ p # ys) \<longrightarrow> h' x = h x)"
proof -
  from assms(1) obtain t where t: "tree_at h NULL root t" "inorder t = xs @ p # ys" and d: "distinct (xs @ p # ys)"
    by (auto simp: sp_seq_def)
  have set: "set_tree t = set (xs @ p # ys)" using t(2) set_inorder by metis
  obtain h' root' t' where "sp_insert h root p n d = Some (h', root')" "tree_at h' NULL root' t'"
    "inorder t' = (case d of SP_LEFT \<Rightarrow> xs @ n # p # ys | SP_RIGHT \<Rightarrow> xs @ p # n # ys)"
    "\<forall>x. x \<notin> set_tree t \<and> x \<noteq> n \<longrightarrow> h' x = h x"
    using sp_insert_ok [OF t(1) _ t(2), of n d] assms(2-4) t(2) d set
    by (auto simp: sp_blank_def sp_room_def)
  moreover have "distinct (case d of SP_LEFT \<Rightarrow> xs @ n # p # ys | SP_RIGHT \<Rightarrow> xs @ p # n # ys)"
    using d assms(2) by (cases d) auto
  ultimately show ?thesis unfolding sp_seq_def set by auto
qed

lemma sp_remove_seq:
  assumes "sp_seq h root xs" "n \<in> set xs"
  shows "\<exists>h' root'. sp_remove h root n = Some (h', root') \<and> sp_seq h' root' (remove1 n xs) \<and>
      (\<forall>x. x \<notin> set xs \<longrightarrow> h' x = h x)"
proof -
  from assms(1) obtain t where t: "tree_at h NULL root t" "inorder t = xs" and d: "distinct xs"
    by (auto simp: sp_seq_def)
  have set: "set_tree t = set xs" using t(2) set_inorder by metis
  show ?thesis
    using sp_remove_ok [OF t(1), of n] t(2) d assms(2) distinct_remove1 [OF d] unfolding sp_seq_def set by auto
qed

interpretation sp: node_sequence sp_seq sp_blank sp_room sp_insert sp_remove
proof
  show "distinct xs" if "sp_seq h root xs" for h root xs using that by (simp add: sp_seq_def)
  show "\<exists>h' root'. sp_insert h root p n d = Some (h', root') \<and> sp_seq h' root' [n]"
    if "sp_seq h root []" "sp_blank h n" for h root p n d
    using that by (auto simp: sp_seq_def sp_insert_def sp_blank_def intro!: exI [of _ "Node Leaf n Leaf"])
qed (use sp_insert_seq [where d = SP_LEFT] sp_insert_seq [where d = SP_RIGHT] sp_remove_seq in fastforce)+

section \<open>Properties\<close>

text \<open>(C6) \<^verbatim>\<open>sp_insert\<close> returns, and puts the new node right before or right
  after its parent in the order of the tree; every other node keeps its place, whatever
  turns the rebalancing makes, and nothing outside the tree is written.\<close>

theorem sp_insert_places:
  assumes "sp_seq h root (xs @ p # ys)" "n \<notin> set (xs @ p # ys)" "sp_blank h n" "sp_room h p d"
  shows "\<exists>h' root'. sp_insert h root p n d = Some (h', root') \<and>
      sp_seq h' root' (case d of SP_LEFT \<Rightarrow> xs @ n # p # ys | SP_RIGHT \<Rightarrow> xs @ p # n # ys) \<and>
      (\<forall>x. x \<notin> set (n # xs @ p # ys) \<longrightarrow> h' x = h x)"
  using assms by (rule sp_insert_seq)

definition sp_zero :: sp_heap where
  "sp_zero = (\<lambda>_. \<lparr>sp_left = NULL, sp_right = NULL, sp_paren = NULL, hint = 0\<rparr>)"

lemma sp_seq_zero: "p \<noteq> NULL \<Longrightarrow> sp_seq sp_zero p [p]"
  by (auto simp: sp_seq_def sp_zero_def intro!: exI [of _ "Node Leaf p Leaf"])

theorem sp_insert_places_witness:
  "\<exists>h' root'. sp_insert sp_zero 8 8 16 SP_LEFT = Some (h', root') \<and> sp_seq h' root' [16, 8]"
  using sp_insert_places [of sp_zero 8 "[]" 8 "[]" 16 SP_LEFT] sp_seq_zero [of 8]
  by (auto simp: sp_blank_def sp_room_def sp_zero_def)

text \<open>(C7) \<^verbatim>\<open>sp_remove\<close> returns, and takes exactly the given node out of the
  order of the tree, by successor, by predecessor or as a leaf.\<close>

theorem sp_remove_takes_out:
  assumes "sp_seq h root xs" "n \<in> set xs"
  shows "\<exists>h' root'. sp_remove h root n = Some (h', root') \<and> sp_seq h' root' (remove1 n xs) \<and>
      (\<forall>x. x \<notin> set xs \<longrightarrow> h' x = h x)"
  using assms by (rule sp_remove_seq)

theorem sp_remove_takes_out_witness:
  "\<exists>h' root'. sp_remove sp_zero 8 8 = Some (h', root') \<and> sp_seq h' root' []"
  using sp_remove_takes_out [of sp_zero 8 "[8]" 8] sp_seq_zero [of 8] by auto

text \<open>Taking out the node just inserted restores the sequence.\<close>

theorem sp_insert_then_remove:
  assumes "sp_seq h root (xs @ p # ys)" "n \<notin> set (xs @ p # ys)" "sp_blank h n" "sp_room h p d"
  shows "\<exists>h1 root1 h2 root2. sp_insert h root p n d = Some (h1, root1) \<and> n \<noteq> p \<and>
      sp_remove h1 root1 n = Some (h2, root2) \<and> sp_seq h2 root2 (xs @ p # ys)"
  using assms by (rule sp.ins_del_same)

theorem sp_insert_then_remove_witness:
  "\<exists>h1 root1 h2 root2. sp_insert sp_zero 8 8 16 SP_RIGHT = Some (h1, root1) \<and>
      sp_remove h1 root1 16 = Some (h2, root2) \<and> sp_seq h2 root2 [8]"
  using sp_insert_then_remove [of sp_zero 8 "[]" 8 "[]" 16 SP_RIGHT] sp_seq_zero [of 8]
  by (auto simp: sp_blank_def sp_room_def sp_zero_def)

text \<open>A node inserted on the side its key belongs to keeps any
  sorted keys of the tree sorted.\<close>

theorem sp_insert_keeps_sorted:
  fixes key :: "ptr \<Rightarrow> u64"
  assumes "sp_seq h root (xs @ p # ys)" "n \<notin> set (xs @ p # ys)" "sp_blank h n" "sp_room h p d"
    and "sorted (map key (xs @ p # ys))"
    and "case d of SP_LEFT \<Rightarrow> key n \<le> key p \<and> (\<forall>x \<in> set xs. key x \<le> key n)
         | SP_RIGHT \<Rightarrow> key p \<le> key n \<and> (\<forall>y \<in> set ys. key n \<le> key y)"
  shows "\<exists>h' root' zs. sp_insert h root p n d = Some (h', root') \<and> sp_seq h' root' zs \<and>
      set zs = insert n (set (xs @ p # ys)) \<and> sorted (map key zs)"
  using assms by (rule sp.ins_sorted)

theorem sp_insert_keeps_sorted_witness:
  "\<exists>h' root' zs. sp_insert sp_zero 8 8 16 SP_RIGHT = Some (h', root') \<and> sp_seq h' root' zs \<and>
      set zs = {8, 16} \<and> sorted (map id zs)"
  using sp_insert_keeps_sorted [of sp_zero 8 "[]" 8 "[]" 16 SP_RIGHT id] sp_seq_zero [of 8]
  by (auto simp: sp_blank_def sp_room_def sp_zero_def insert_commute)

end
