(* ===== verification/Pmem.thy ===== *)
theory Pmem
  imports Mem "HOL-Library.Monad_Syntax"
begin

text \<open>
  The physical page allocator, \<^verbatim>\<open>src/pmem.c\<close>. Every page order has a bucket of bitmap
  nodes, and a bucket keeps the nodes with free pages in a doubly linked free list; an
  order that runs out takes a page of the order above and splits it.

  The state holds the buckets and nodes by their addresses, one typed heap for each
  structure, next to the fields of the physical map itself. The heaps are typed: that the
  bitmap of a node ends before the next node begins is a fact about \<open>__get_set_size\<close>, and
  the lemmas say for which sizes it holds. A failed assertion, an index past the end of
  \<open>buckets\<close> and a recursion that never ends are \<open>None\<close>.
\<close>

section \<open>State\<close>

record mm_bmap =
  bm_size :: u64
  bm_used :: u64
  bm_next :: ptr
  bm_prev :: ptr
  bm_bits :: bytes

record mm_bucket =
  bk_bits :: u64
  bk_page_size :: u64
  bk_head :: ptr

record pmem_state =
  geom :: mem_state
  pmap :: ptr
  pmap_base :: u64
  pmap_buckets :: "nat \<Rightarrow> ptr"
  bucket_at :: "ptr \<Rightarrow> mm_bucket"
  bmap_at :: "ptr \<Rightarrow> mm_bmap"
  used_bytes :: u64

definition MM_NUM :: nat where "MM_NUM = 10"

definition sizeof_mm_bmap :: u64 where "sizeof_mm_bmap = 32"

definition sizeof_mm_bucket :: u64 where "sizeof_mm_bucket = 24"

definition sizeof_mm_pmap :: u64 where "sizeof_mm_pmap = 88"

definition upd_bmap :: "pmem_state \<Rightarrow> ptr \<Rightarrow> (mm_bmap \<Rightarrow> mm_bmap) \<Rightarrow> pmem_state" where
  [field_defs]: "upd_bmap s p f = s\<lparr>bmap_at := (bmap_at s)(p := f (bmap_at s p))\<rparr>"

definition upd_bucket :: "pmem_state \<Rightarrow> ptr \<Rightarrow> (mm_bucket \<Rightarrow> mm_bucket) \<Rightarrow> pmem_state" where
  [field_defs]: "upd_bucket s p f = s\<lparr>bucket_at := (bucket_at s)(p := f (bucket_at s p))\<rparr>"

section \<open>Buckets and bitmap nodes\<close>

definition set_size_of :: "u64 \<Rightarrow> u64" where
  "set_size_of bits = align_up (sizeof_mm_bmap + (bits + 1) div 8) 8"

definition get_set_size :: "pmem_state \<Rightarrow> ptr \<Rightarrow> u64" where
  "get_set_size s bucket = set_size_of (bk_bits (bucket_at s bucket))"

definition get_set :: "pmem_state \<Rightarrow> ptr \<Rightarrow> u64 \<Rightarrow> ptr" where
  "get_set s bucket st = bucket + sizeof_mm_bucket + get_set_size s bucket * st"

definition get_set_index :: "pmem_state \<Rightarrow> ptr \<Rightarrow> ptr \<Rightarrow> u64" where
  "get_set_index s bucket bmap =
     (bmap - (bucket + sizeof_mm_bucket)) div get_set_size s bucket"

definition attach_set :: "pmem_state \<Rightarrow> ptr \<Rightarrow> ptr \<Rightarrow> pmem_state" where
  "attach_set s bucket bmap =
     (if bm_next (bmap_at s bmap) \<noteq> NULL \<or> bk_head (bucket_at s bucket) = bmap then s
      else
        let s = upd_bmap s bmap (\<lambda>b. b\<lparr>bm_next := bk_head (bucket_at s bucket)\<rparr>);
            s = upd_bucket s bucket (\<lambda>b. b\<lparr>bk_head := bmap\<rparr>);
            next = bm_next (bmap_at s bmap)
        in if next \<noteq> NULL then upd_bmap s next (\<lambda>b. b\<lparr>bm_prev := bmap\<rparr>) else s)"

definition detach_set :: "pmem_state \<Rightarrow> ptr \<Rightarrow> ptr \<Rightarrow> pmem_state" where
  "detach_set s bucket bmap =
     (let s = (if bk_head (bucket_at s bucket) = bmap
               then upd_bucket s bucket (\<lambda>b. b\<lparr>bk_head := bm_next (bmap_at s bmap)\<rparr>) else s);
          next = bm_next (bmap_at s bmap);
          s = (if next \<noteq> NULL then upd_bmap s next (\<lambda>b. b\<lparr>bm_prev := bm_prev (bmap_at s bmap)\<rparr>) else s);
          prev = bm_prev (bmap_at s bmap);
          s = (if prev \<noteq> NULL then upd_bmap s prev (\<lambda>b. b\<lparr>bm_next := bm_next (bmap_at s bmap)\<rparr>) else s)
      in upd_bmap s bmap (\<lambda>b. b\<lparr>bm_next := NULL, bm_prev := NULL\<rparr>))"

definition bucket_page_addr :: "pmem_state \<Rightarrow> ptr \<Rightarrow> u64 \<Rightarrow> u64 \<Rightarrow> u64" where
  "bucket_page_addr s bucket st b =
     (let bk = bucket_at s bucket
      in pmap_base s + st * bk_page_size bk * bk_bits bk + b * bk_page_size bk)"

definition get_bit :: "pmem_state \<Rightarrow> ptr \<Rightarrow> u64 \<Rightarrow> u64 \<times> u64" where
  "get_bit s bucket a =
     (let bk = bucket_at s bucket;
          a = a - pmap_base s;
          p = a div bk_page_size bk
      in (p div bk_bits bk, p mod bk_bits bk))"

section \<open>Freeing, allocating and marking pages\<close>

function free_page_worker :: "pmem_state \<Rightarrow> nat \<Rightarrow> u64 \<Rightarrow> (bool \<times> pmem_state) option" where
  "free_page_worker s order addr =
     (if order \<ge> MM_NUM then None
      else
        let bucket = pmap_buckets s order
        in if bucket = NULL then Some (False, s)
           else
             let (st, b) = get_bit s bucket addr;
                 bmap = get_set s bucket st;
                 s = upd_bmap s bmap (\<lambda>m. m\<lparr>bm_used := bm_used m - 1\<rparr>)
             in if \<not> bitmap_is_set (bm_bits (bmap_at s bmap)) (unat b) then None
                else
                  let s = upd_bmap s bmap (\<lambda>m. m\<lparr>bm_bits := bitmap_clear (bm_bits m) (unat b)\<rparr>);
                      s = attach_set s bucket bmap
                  in if bm_used (bmap_at s bmap) = 0 then
                       let s = detach_set s bucket bmap
                       in if bm_size (bmap_at s bmap) = order_width (geom s) (order + 1) then
                            map_option (\<lambda>(_, s). (True, s))
                              (free_page_worker s (order + 1) (bucket_page_addr s bucket st b))
                          else Some (True, s)
                     else Some (True, s))"
  by pat_completeness auto
termination
  by (relation "measure (\<lambda>(s, order, addr). MM_NUM - order)") (auto simp: MM_NUM_def)

declare free_page_worker.simps [simp del]

definition free_page :: "pmem_state \<Rightarrow> nat \<Rightarrow> u64 \<Rightarrow> pmem_state option" where
  "free_page s order addr =
     map_option (\<lambda>(b, s). if b then s\<lparr>used_bytes := used_bytes s - order_size (geom s) order\<rparr> else s)
       (free_page_worker s order addr)"

text \<open>Allocation from a node with a free page: the tail of \<open>__alloc_page\<close>.\<close>

definition alloc_from :: "pmem_state \<Rightarrow> ptr \<Rightarrow> ptr \<Rightarrow> u64 \<times> pmem_state" where
  "alloc_from s bucket bmap =
     (let s = upd_bmap s bmap (\<lambda>m. m\<lparr>bm_used := bm_used m + 1\<rparr>);
          st = get_set_index s bucket bmap;
          m = bmap_at s bmap;
          b = bitmap_find_first_unset (bm_bits m) (unat (bm_size m));
          s = upd_bmap s bmap (\<lambda>m. m\<lparr>bm_bits := bitmap_set (bm_bits m) b\<rparr>);
          m = bmap_at s bmap;
          s = (if bm_used m = bm_size m then detach_set s bucket bmap else s)
      in (bucket_page_addr s bucket st (of_nat b), s))"

partial_function (option) alloc_page_worker :: "pmem_state \<Rightarrow> nat \<Rightarrow> (u64 \<times> pmem_state) option" where
  "alloc_page_worker s order =
     (if order \<ge> MM_NUM then None
      else
        let bucket = pmap_buckets s order
        in if bucket = NULL then Some (0, s)
           else if bk_head (bucket_at s bucket) = NULL then
             Option.bind (alloc_page_worker s (order + 1)) (\<lambda>(a, s).
               if a = 0 then Some (0, s)
               else
                 let (st, _) = get_bit s bucket a;
                     bmap = get_set s bucket st;
                     m = bmap_at s bmap
                 in if bm_size m = 0 \<or> \<not> bm_size m \<le> order_width (geom s) (order + 1) then None
                    else
                      let s = upd_bmap s bmap (\<lambda>m. m\<lparr>bm_next := NULL, bm_prev := NULL, bm_used := 0,
                                bm_bits := bitmap_clear_all (bm_bits m) (unat (bm_size m))\<rparr>);
                          s = attach_set s bucket bmap
                      in alloc_page_worker s order)
           else Some (alloc_from s bucket (bk_head (bucket_at s bucket))))"

definition alloc_page :: "pmem_state \<Rightarrow> nat \<Rightarrow> (u64 \<times> pmem_state) option" where
  "alloc_page s order =
     map_option (\<lambda>(page, s).
         (page, if page \<noteq> 0 then s\<lparr>used_bytes := used_bytes s + order_size (geom s) order\<rparr> else s))
       (alloc_page_worker s order)"

function mark_used_worker :: "pmem_state \<Rightarrow> nat \<Rightarrow> u64 \<Rightarrow> (bool \<times> pmem_state) option" where
  "mark_used_worker s order addr =
     (if order \<ge> MM_NUM then None
      else
        let bucket = pmap_buckets s order
        in if bucket = NULL then Some (False, s)
           else
             let (st, b) = get_bit s bucket addr;
                 bmap = get_set s bucket st
             in Option.bind
                  (if bm_used (bmap_at s bmap) = 0 then
                     let s = upd_bmap s bmap (\<lambda>m. m\<lparr>bm_bits := bitmap_clear_all (bm_bits m) (unat (bm_size m))\<rparr>);
                         s = attach_set s bucket bmap
                     in map_option snd (mark_used_worker s (order + 1) addr)
                   else Some s)
                  (\<lambda>s. if bitmap_is_set (bm_bits (bmap_at s bmap)) (unat b) then Some (False, s)
                    else
                      let s = upd_bmap s bmap (\<lambda>m. m\<lparr>bm_used := bm_used m + 1,
                                bm_bits := bitmap_set (bm_bits m) (unat b)\<rparr>);
                          m = bmap_at s bmap
                      in Some (True, if bm_used m = bm_size m then detach_set s bucket bmap else s)))"
  by pat_completeness auto
termination
  by (relation "measure (\<lambda>(s, order, addr). MM_NUM - order)") (auto simp: MM_NUM_def)

declare mark_used_worker.simps [simp del]

definition mark_used :: "pmem_state \<Rightarrow> nat \<Rightarrow> u64 \<Rightarrow> pmem_state option" where
  "mark_used s order addr =
     map_option (\<lambda>(b, s). if b then s\<lparr>used_bytes := used_bytes s + order_size (geom s) order\<rparr> else s)
       (mark_used_worker s order addr)"

definition query_used :: "pmem_state \<Rightarrow> u64" where
  "query_used s = used_bytes s"

section \<open>Building the physical map\<close>

text \<open>
  A node is zeroed over its whole size, which clears the bitmap bytes that fit in it, and
  then gets its size. \<open>populate_sets\<close> is the loop over the regular nodes.
\<close>

definition init_bmap :: "pmem_state \<Rightarrow> ptr \<Rightarrow> u64 \<Rightarrow> u64 \<Rightarrow> pmem_state" where
  "init_bmap s p set_size sz =
     upd_bmap s p (\<lambda>m. \<lparr>bm_size = sz, bm_used = 0, bm_next = NULL, bm_prev = NULL,
       bm_bits = bytes_zero (bm_bits m) (unat (set_size - sizeof_mm_bmap))\<rparr>)"

definition populate_set :: "pmem_state \<Rightarrow> ptr \<Rightarrow> u64 \<Rightarrow> u64 \<Rightarrow> u64 \<Rightarrow> bool \<Rightarrow> bool \<Rightarrow> pmem_state" where
  "populate_set s bucket cont set_size sz first populate =
     (let s = (if populate then init_bmap s cont set_size sz else s)
      in if first \<and> populate then attach_set s bucket cont else s)"

fun populate_sets :: "pmem_state \<Rightarrow> ptr \<Rightarrow> u64 \<Rightarrow> u64 \<Rightarrow> u64 \<Rightarrow> u64 \<Rightarrow> bool \<Rightarrow> bool \<Rightarrow> nat \<Rightarrow> pmem_state \<times> u64 \<times> u64" where
  "populate_sets s bucket n cont set_size bits first populate 0 = (s, n, cont)"
| "populate_sets s bucket n cont set_size bits first populate (Suc k) =
     populate_sets (populate_set s bucket cont set_size bits first populate) bucket
       (n - bits) (cont + set_size) set_size bits first populate k"

definition maybe_populate_bucket :: "pmem_state \<Rightarrow> u64 \<Rightarrow> u64 \<Rightarrow> nat \<Rightarrow> bool \<Rightarrow> bool \<Rightarrow> pmem_state \<times> u64" where
  "maybe_populate_bucket s n cont order first populate =
     (let bucket = cont;
          bits = order_width (geom s) (order + 1);
          bits = (if bits = 0 then n else bits);
          s = (if populate
               then upd_bucket s bucket (\<lambda>_. \<lparr>bk_bits = bits, bk_page_size = order_size (geom s) order, bk_head = NULL\<rparr>)
               else s);
          set_size = set_size_of bits;
          cont = cont + sizeof_mm_bucket;
          sets = n div bits;
          (s, n, cont) = populate_sets s bucket n cont set_size bits first populate (unat sets)
      in if n \<noteq> 0 then (populate_set s bucket cont set_size n first populate, cont + set_size)
         else (s, cont))"

text \<open>The loop over the orders, from the top one down to \<open>MM_O0\<close>.\<close>

fun populate_orders :: "pmem_state \<Rightarrow> u64 \<Rightarrow> u64 \<Rightarrow> bool \<Rightarrow> bool \<Rightarrow> nat \<Rightarrow> pmem_state \<times> u64" where
  "populate_orders s rsize cont first populate order =
     (let num = rsize div order_size (geom s) order;
          (s', cont', first') =
            (if num = 0 then (s, cont, first)
             else
               let s = (if populate then s\<lparr>pmap_buckets := (pmap_buckets s)(order := cont)\<rparr> else s);
                   (s, cont) = maybe_populate_bucket s num cont order first populate
               in (s, cont, False))
      in case order of 0 \<Rightarrow> (s', cont') | Suc k \<Rightarrow> populate_orders s' rsize cont' first' populate k)"

declare populate_orders.simps [simp del]

definition maybe_populate_pmap :: "pmem_state \<Rightarrow> u64 \<Rightarrow> u64 \<Rightarrow> u64 \<Rightarrow> bool \<Rightarrow> pmem_state \<times> u64" where
  "maybe_populate_pmap s rbase rsize start populate =
     (let s = s\<lparr>pmap := start\<rparr>;
          s = (if populate then s\<lparr>pmap_base := rbase, pmap_buckets := (\<lambda>_. NULL)\<rparr> else s);
          cont = start + sizeof_mm_pmap;
          (s, cont) = populate_orders s rsize cont True populate (max_order (geom s))
      in (s, cont - start))"

definition populate_pmap :: "pmem_state \<Rightarrow> u64 \<Rightarrow> u64 \<Rightarrow> u64 \<Rightarrow> pmem_state \<times> u64" where
  "populate_pmap s rbase rsize start = maybe_populate_pmap s rbase rsize start True"

definition probe_pmap :: "pmem_state \<Rightarrow> u64 \<Rightarrow> u64 \<Rightarrow> u64 \<Rightarrow> pmem_state \<times> u64" where
  "probe_pmap s rbase rsize start = maybe_populate_pmap s rbase rsize start False"

section \<open>Reserved areas\<close>

function mark_area_from :: "pmem_state \<Rightarrow> u64 \<Rightarrow> u64 \<Rightarrow> pmem_state option" where
  "mark_area_from s runner area_left =
     (if area_left \<ge> BASE_PAGE_SIZE then
        Option.bind (mark_used s 0 runner)
          (\<lambda>s. mark_area_from s (runner + BASE_PAGE_SIZE) (area_left - BASE_PAGE_SIZE))
      else if area_left \<noteq> 0 then mark_used s 0 runner
      else Some s)"
  by pat_completeness auto
termination
proof (relation "measure (\<lambda>(s, runner, area_left). unat area_left)")
  show "((x, runner + BASE_PAGE_SIZE, area_left - BASE_PAGE_SIZE), s, runner, area_left)
      \<in> measure (\<lambda>(s, runner, area_left). unat area_left)"
    if "BASE_PAGE_SIZE \<le> area_left" for x s runner area_left
  proof -
    have "unat (area_left - BASE_PAGE_SIZE) = unat area_left - unat BASE_PAGE_SIZE" using that by (rule unat_sub)
    moreover have "unat BASE_PAGE_SIZE = 4096" by (simp add: BASE_PAGE_SIZE_def)
    ultimately show ?thesis using that by (simp add: word_le_nat_alt)
  qed
qed simp

declare mark_area_from.simps [simp del]

definition mark_area_used :: "pmem_state \<Rightarrow> u64 \<Rightarrow> u64 \<Rightarrow> pmem_state option" where
  "mark_area_used s base tp =
     (if tp < base then Some s
      else
        let tp = align_up tp BASE_PAGE_SIZE;
            base = align_down base BASE_PAGE_SIZE
        in mark_area_from s base (tp - base))"

type_synonym avoid_region = "u64 \<times> u64"

definition overlaps :: "u64 \<Rightarrow> u64 \<Rightarrow> u64 \<Rightarrow> u64 \<Rightarrow> bool" where
  "overlaps base1 size1 base2 size2 =
     (let b = base1 \<ge> base2 \<and> base1 < base2 + size2;
          t = base1 + size1 > base2 \<and> base1 + size1 \<le> base2 + size2
      in b \<or> t)"

fun mark_reserved :: "pmem_state \<Rightarrow> u64 \<Rightarrow> u64 \<Rightarrow> avoid_region list \<Rightarrow> pmem_state option" where
  "mark_reserved s rbase rsize [] = Some s"
| "mark_reserved s rbase rsize ((base, sz) # avoid) =
     (if \<not> overlaps base sz rbase rsize then mark_reserved s rbase rsize avoid
      else Option.bind (mark_area_used s base (base + sz))
             (\<lambda>s. mark_reserved s rbase rsize avoid))"

text \<open>
  The memory the device tree reserves is read with libfdt: \<open>regs\<close> is what \<open>fdt_load_reg_addr\<close>
  and \<open>fdt_load_reg_size\<close> return for the subnodes in turn. The table has 64 entries.
\<close>

fun build_reserved_map :: "avoid_region list \<Rightarrow> (u64 \<times> u64) list \<Rightarrow> avoid_region list option" where
  "build_reserved_map avoid [] = Some avoid"
| "build_reserved_map avoid ((base, sz) # regs) =
     (let avoid = avoid @ [(va base, sz)]
      in if length avoid < 64 then build_reserved_map avoid regs else None)"

fun select_base_from :: "u64 \<Rightarrow> u64 \<Rightarrow> u64 \<Rightarrow> avoid_region list \<Rightarrow> avoid_region list \<Rightarrow> u64" where
  "select_base_from rbase rsize sz avoid [] = 0"
| "select_base_from rbase rsize sz avoid ((abase, asize) # rest) =
     (let base = align_up (abase + asize) 8
      in if \<not> overlaps base sz rbase rsize then select_base_from rbase rsize sz avoid rest
         else if list_ex (\<lambda>(b, z). overlaps base sz b z) avoid
         then select_base_from rbase rsize sz avoid rest
         else base)"

definition select_base :: "u64 \<Rightarrow> u64 \<Rightarrow> u64 \<Rightarrow> avoid_region list \<Rightarrow> u64" where
  "select_base rbase rsize sz avoid = select_base_from rbase rsize sz avoid avoid"

text \<open>
  \<open>init_pmem\<close> up to the initialisation of the other subsystems. The array of regions to
  avoid starts with three entries and one that is all zero, because \<open>build_reserved_map\<close>
  is told that four exist.
\<close>

definition init_pmem :: "pmem_state \<Rightarrow> u64 \<Rightarrow> u64 \<Rightarrow> (u64 \<times> u64) \<Rightarrow> (u64 \<times> u64) \<Rightarrow> (u64 \<times> u64) list \<Rightarrow> pmem_state option" where
  "init_pmem s load kernel_size initrd fdt regs =
     (let rbase = va (ram_base (geom s));
          rsize = ram_size (geom s)
      in if \<not> is_aligned (fst initrd) BASE_PAGE_SIZE \<or> \<not> is_aligned (fst fdt) BASE_PAGE_SIZE then None
         else
           let (s, probe_size) = probe_pmap s 0 rsize 0;
               avoid = [(va load, kernel_size), (va (fst initrd), snd initrd), (va (fst fdt), snd fdt), (0, 0)]
           in Option.bind (build_reserved_map avoid regs) (\<lambda>avoid.
                let pmap_base = select_base rbase rsize probe_size avoid
                in if pmap_base = 0 then None
                   else
                     let (s, actual_size) = populate_pmap s rbase rsize pmap_base
                     in mark_reserved s rbase rsize (avoid @ [(pmap_base, actual_size)])))"

section \<open>Sizes\<close>

text \<open>The bytes a bucket of \<open>n\<close> pages takes, and those of all buckets down from an order.\<close>

definition bucket_bytes :: "mem_state \<Rightarrow> u64 \<Rightarrow> nat \<Rightarrow> u64" where
  "bucket_bytes g n order =
     (let bits = order_width g (order + 1);
          bits = (if bits = 0 then n else bits);
          sets = of_nat (unat (n div bits))
      in sizeof_mm_bucket + (sets + (if n - sets * bits = 0 then 0 else 1)) * set_size_of bits)"

fun orders_bytes :: "mem_state \<Rightarrow> u64 \<Rightarrow> nat \<Rightarrow> u64" where
  "orders_bytes g rsize order =
     (let num = rsize div order_size g order
      in (if num = 0 then 0 else bucket_bytes g num order) +
         (case order of 0 \<Rightarrow> 0 | Suc k \<Rightarrow> orders_bytes g rsize k))"

declare orders_bytes.simps [simp del]

lemma geom_updates [simp]:
  "geom (upd_bmap s p f) = geom s" "geom (upd_bucket s p g) = geom s" "geom (attach_set s p q) = geom s"
  "geom (detach_set s p q) = geom s" "geom (populate_set s p q c z first populate) = geom s"
  by (simp_all add: field_defs attach_set_def detach_set_def populate_set_def init_bmap_def Let_def)

lemma populate_sets_bytes:
  "populate_sets s bucket n cont set_size bits first populate k = (s', n', cont') \<Longrightarrow>
     n' = n - of_nat k * bits \<and> cont' = cont + of_nat k * set_size \<and> geom s' = geom s"
proof (induction k arbitrary: s n cont)
  case (Suc k)
  from Suc.prems Suc.IH [of "populate_set s bucket cont set_size bits first populate" "n - bits" "cont + set_size"]
  show ?case by (simp add: algebra_simps)
qed simp

lemma maybe_populate_bucket_bytes:
  "maybe_populate_bucket s n cont order first populate = (s', cont') \<Longrightarrow>
     cont' = cont + bucket_bytes (geom s) n order \<and> geom s' = geom s"
  by (auto simp: maybe_populate_bucket_def bucket_bytes_def Let_def algebra_simps
      split: prod.splits if_splits dest!: populate_sets_bytes)

lemma populate_orders_bytes:
  "populate_orders s rsize cont first populate order = (s', cont') \<Longrightarrow>
     cont' = cont + orders_bytes (geom s) rsize order \<and> geom s' = geom s"
proof (induction order arbitrary: s cont first)
  case 0
  then show ?case
    by (auto simp: populate_orders.simps [of s] orders_bytes.simps [of _ _ 0] Let_def
        split: prod.splits if_splits dest!: maybe_populate_bucket_bytes)
next
  case (Suc order)
  let ?num = "rsize div order_size (geom s) (Suc order)"
  obtain t c f where t: "populate_orders t rsize c f populate order = (s', cont')"
    "c = cont + (if ?num = 0 then 0 else bucket_bytes (geom s) ?num (Suc order))" "geom t = geom s"
    using Suc.prems
    by (auto simp: populate_orders.simps [of s _ _ _ _ "Suc order"] Let_def
        split: prod.splits if_splits dest!: maybe_populate_bucket_bytes)
  show ?case
    using Suc.IH [OF t(1)] t(2,3) by (simp add: orders_bytes.simps [of _ _ "Suc order"] Let_def algebra_simps)
qed

lemma maybe_populate_pmap_bytes:
  "snd (maybe_populate_pmap s rbase rsize start populate) =
     sizeof_mm_pmap + orders_bytes (geom s) rsize (max_order (geom s))"
  by (auto simp: maybe_populate_pmap_def Let_def split: prod.splits dest!: populate_orders_bytes)

text \<open>A node holds its bitmap when its bits fill whole bytes, but not a handful of bits.\<close>

lemma set_size_regular: "set_size_of 512 = sizeof_mm_bmap + 64"
  by (simp add: set_size_of_def sizeof_mm_bmap_def align_up_def align_down_def is_powerof2_def)

lemma set_size_small: "set_size_of 4 = sizeof_mm_bmap"
  by (simp add: set_size_of_def sizeof_mm_bmap_def align_up_def align_down_def is_powerof2_def)

section \<open>Addresses and bits\<close>

lemma page_bit_roundtrip:
  fixes base st b bits psize :: u64
  assumes "bits \<noteq> 0" "psize \<noteq> 0" "b < bits" "(unat st * unat bits + unat b) * unat psize < 2 ^ 64"
  shows "((base + st * psize * bits + b * psize) - base) div psize div bits = st"
    "((base + st * psize * bits + b * psize) - base) div psize mod bits = b"
proof -
  define p where "p = st * bits + b"
  have pos: "0 < unat psize" "0 < unat bits" "unat b < unat bits"
    using assms by (auto simp: unat_gt_0 word_less_nat_alt)
  have small: "unat st * unat bits + unat b < 2 ^ 64"
  proof -
    have "(unat st * unat bits + unat b) * 1 \<le> (unat st * unat bits + unat b) * unat psize"
      using pos(1) by (intro mult_le_mono2) simp
    then show ?thesis unfolding nat_mult_1_right using assms(4) by (rule le_less_trans)
  qed
  have up: "unat p = unat st * unat bits + unat b"
    unfolding p_def using small by (simp add: unat_word_ariths)
  then have upp: "unat (p * psize) = unat p * unat psize"
    using assms(4) by (simp add: unat_word_ariths)
  have "(base + st * psize * bits + b * psize) - base = p * psize" by (simp add: p_def algebra_simps)
  moreover have "p * psize div psize = p"
    using upp pos(1) by (simp add: word_unat_eq_iff unat_div)
  moreover have "p div bits = st" "p mod bits = b"
    using up pos(2,3) by (simp_all add: word_unat_eq_iff unat_div unat_mod)
  ultimately show "((base + st * psize * bits + b * psize) - base) div psize div bits = st"
    "((base + st * psize * bits + b * psize) - base) div psize mod bits = b" by simp_all
qed

text \<open>The page with index \<open>st\<close> times the width plus \<open>b\<close> ends below the address limit.\<close>

definition page_fits :: "pmem_state \<Rightarrow> ptr \<Rightarrow> u64 \<Rightarrow> u64 \<Rightarrow> bool" where
  "page_fits s bucket st b \<longleftrightarrow>
     (let bk = bucket_at s bucket
      in bk_bits bk \<noteq> 0 \<and> bk_page_size bk \<noteq> 0 \<and> b < bk_bits bk \<and>
         (unat st * unat (bk_bits bk) + unat b) * unat (bk_page_size bk) < 2 ^ 64)"

lemma get_bit_page_addr:
  "page_fits s bucket st b \<Longrightarrow> get_bit s bucket (bucket_page_addr s bucket st b) = (st, b)"
  using page_bit_roundtrip [of "bk_bits (bucket_at s bucket)" "bk_page_size (bucket_at s bucket)" b st "pmap_base s"]
  by (simp add: get_bit_def bucket_page_addr_def page_fits_def Let_def)

lemma get_set_index_get_set:
  assumes "unat (get_set_size s bucket) * unat st < 2 ^ 64" "get_set_size s bucket \<noteq> 0"
  shows "get_set_index s bucket (get_set s bucket st) = st"
proof -
  have "unat (get_set_size s bucket * st) = unat (get_set_size s bucket) * unat st"
    using assms(1) by (simp add: unat_word_ariths)
  moreover have "0 < unat (get_set_size s bucket)" using assms(2) by (simp add: unat_gt_0)
  ultimately show ?thesis
    by (simp add: get_set_index_def get_set_def word_unat_eq_iff unat_div)
qed

section \<open>The free list\<close>

text \<open>The nodes from \<open>p\<close> up to \<open>q\<close>, the first of which has \<open>prev\<close> before it.\<close>

fun seg :: "(ptr \<Rightarrow> mm_bmap) \<Rightarrow> ptr \<Rightarrow> ptr \<Rightarrow> ptr list \<Rightarrow> ptr \<Rightarrow> bool" where
  "seg h prev p [] q \<longleftrightarrow> p = q"
| "seg h prev p (x # xs) q \<longleftrightarrow>
     p = x \<and> x \<noteq> NULL \<and> bm_prev (h x) = prev \<and> seg h x (bm_next (h x)) xs q"

definition freelist :: "pmem_state \<Rightarrow> ptr \<Rightarrow> ptr list \<Rightarrow> bool" where
  "freelist s bucket xs \<longleftrightarrow> distinct xs \<and> seg (bmap_at s) NULL (bk_head (bucket_at s bucket)) xs NULL"

lemma seg_cong:
  assumes "\<And>x. x \<in> set xs \<Longrightarrow> bm_next (h' x) = bm_next (h x) \<and> bm_prev (h' x) = bm_prev (h x)"
  shows "seg h' prev p xs q \<longleftrightarrow> seg h prev p xs q"
  using assms by (induction xs arbitrary: prev p) auto

lemma seg_append:
  "seg h prev p (xs @ ys) q \<longleftrightarrow> (\<exists>m. seg h prev p xs m \<and> seg h (last (prev # xs)) m ys q)"
  by (induction xs arbitrary: prev p) auto

lemma seg_NULL_notin: "seg h prev p xs q \<Longrightarrow> NULL \<notin> set xs"
  by (induction xs arbitrary: prev p) auto

lemma seg_reprev:
  assumes "seg h prev p xs NULL" "distinct xs"
    and "\<And>x. x \<in> set xs \<Longrightarrow> bm_next (h' x) = bm_next (h x)"
    and "\<And>x. x \<in> set xs \<Longrightarrow> x \<noteq> p \<Longrightarrow> bm_prev (h' x) = bm_prev (h x)"
    and "p \<noteq> NULL \<Longrightarrow> bm_prev (h' p) = prev'"
  shows "seg h' prev' p xs NULL"
proof (cases xs)
  case (Cons x ys)
  then have "seg h' x q ys NULL \<longleftrightarrow> seg h x q ys NULL" for q using assms by (intro seg_cong) auto
  then show ?thesis using assms Cons by auto
qed (use assms in auto)

lemma seg_relast:
  assumes "seg h prev p (us @ [a]) q" "distinct (us @ [a])"
    and "\<And>x. x \<in> set us \<Longrightarrow> bm_next (h' x) = bm_next (h x)" "bm_next (h' a) = q'"
    and "\<And>x. x \<in> set (us @ [a]) \<Longrightarrow> bm_prev (h' x) = bm_prev (h x)"
  shows "seg h' prev p (us @ [a]) q'"
proof -
  have "seg h' prev p us m \<longleftrightarrow> seg h prev p us m" for m using assms by (intro seg_cong) auto
  then show ?thesis using assms unfolding seg_append by auto
qed

lemma attach_set_ok:
  assumes "freelist s bucket xs" "x \<notin> set xs" "x \<noteq> NULL"
    and "bm_next (bmap_at s x) = NULL" "bm_prev (bmap_at s x) = NULL"
  shows "freelist (attach_set s bucket x) bucket (x # xs)"
proof -
  let ?h = "bk_head (bucket_at s bucket)"
  have seg: "seg (bmap_at s) NULL ?h xs NULL" and d: "distinct xs" using assms(1) by (auto simp: freelist_def)
  have h: "?h \<noteq> x" "?h = NULL \<or> ?h \<in> set xs" using seg assms(2,3) by (cases xs; auto)+
  have "seg (bmap_at (attach_set s bucket x)) x ?h xs NULL"
    using seg d by (rule seg_reprev) (use h assms in \<open>auto simp: attach_set_def field_defs Let_def\<close>)
  moreover have "bm_next (bmap_at (attach_set s bucket x) x) = ?h" "bm_prev (bmap_at (attach_set s bucket x) x) = NULL"
    "bk_head (bucket_at (attach_set s bucket x) bucket) = x"
    using h assms by (auto simp: attach_set_def field_defs Let_def)
  ultimately show ?thesis using assms(2,3) d by (simp add: freelist_def)
qed

lemma detach_set_fields:
  assumes "bm_next (bmap_at s x) \<noteq> x" "bm_prev (bmap_at s x) \<noteq> x"
  shows "bm_next (bmap_at (detach_set s bucket x) y) =
      (if y = x then NULL else if y = bm_prev (bmap_at s x) \<and> y \<noteq> NULL then bm_next (bmap_at s x)
       else bm_next (bmap_at s y))"
    "bm_prev (bmap_at (detach_set s bucket x) y) =
      (if y = x then NULL else if y = bm_next (bmap_at s x) \<and> y \<noteq> NULL then bm_prev (bmap_at s x)
       else bm_prev (bmap_at s y))"
  using assms by (auto simp: detach_set_def field_defs Let_def)

lemma detach_set_ok:
  assumes "freelist s bucket (ys @ x # zs)"
  shows "freelist (detach_set s bucket x) bucket (ys @ zs)"
    "bm_next (bmap_at (detach_set s bucket x) x) = NULL" "bm_prev (bmap_at (detach_set s bucket x) x) = NULL"
proof -
  let ?s = "detach_set s bucket x" and ?h = "bmap_at s" and ?p = "bk_head (bucket_at s bucket)"
  show "bm_next (bmap_at ?s x) = NULL" "bm_prev (bmap_at ?s x) = NULL"
    by (simp_all add: detach_set_def field_defs Let_def)
  have d: "distinct (ys @ x # zs)" using assms by (simp add: freelist_def)
  have ys: "seg ?h NULL ?p ys x" and zs: "seg ?h x (bm_next (?h x)) zs NULL" and x: "x \<noteq> NULL"
    and prev: "bm_prev (?h x) = last (NULL # ys)"
    using assms by (auto simp: freelist_def seg_append)
  have nn: "NULL \<notin> set ys" "NULL \<notin> set zs" using ys zs seg_NULL_notin by blast+
  let ?n = "bm_next (?h x)"
  have n: "?n = NULL \<or> ?n \<in> set zs" using zs by (cases zs) auto
  show "freelist ?s bucket (ys @ zs)"
  proof (cases ys rule: rev_cases)
    case Nil
    then have head: "?p = x" "bm_prev (?h x) = NULL" using ys prev by auto
    have "seg (bmap_at ?s) NULL ?n zs NULL"
      using zs by (rule seg_reprev) (use d n head in \<open>auto simp: detach_set_def field_defs Let_def\<close>)
    moreover have "bk_head (bucket_at ?s bucket) = ?n"
      using head by (simp add: detach_set_def field_defs Let_def)
    ultimately show ?thesis using Nil d by (simp add: freelist_def)
  next
    case (snoc us a)
    then have a: "bm_prev (?h x) = a" "a \<noteq> NULL" "a \<noteq> x" "a \<notin> set zs" using prev nn d by auto
    have "?p \<noteq> x" using ys snoc d by (cases us) auto
    then have head: "bk_head (bucket_at ?s bucket) = ?p"
      by (simp add: detach_set_def field_defs Let_def)
    have ne: "?n \<noteq> x" "?n \<noteq> a" "\<forall>u \<in> set us. u \<noteq> ?n \<and> u \<noteq> x \<and> u \<noteq> a" using n d nn snoc x a by auto
    note fields = detach_set_fields [of s x bucket, unfolded a(1), OF ne(1) a(3)]
    have "seg (bmap_at ?s) NULL ?p (us @ [a]) ?n"
    proof (rule seg_relast)
      show "seg ?h NULL ?p (us @ [a]) x" "distinct (us @ [a])" using ys d snoc by simp_all
    qed (use a ne d snoc in \<open>auto simp: fields\<close>)
    moreover have "seg (bmap_at ?s) a ?n zs NULL"
    proof (rule seg_reprev [OF zs])
      show "distinct zs" using d by simp
    qed (use a ne d in \<open>auto simp: fields\<close>)
    ultimately show ?thesis using head d unfolding snoc by (auto simp: freelist_def seg_append)
  qed
qed

section \<open>Bitmap nodes\<close>

text \<open>A node counts its used pages.\<close>

definition set_bits_of :: "mm_bmap \<Rightarrow> nat set" where
  "set_bits_of m = {k. k < unat (bm_size m) \<and> bitmap_is_set (bm_bits m) k}"

definition bmap_ok :: "mm_bmap \<Rightarrow> bool" where
  "bmap_ok m \<longleftrightarrow> unat (bm_used m) = card (set_bits_of m)"

lemma finite_set_bits [simp]: "finite (set_bits_of m)"
  by (simp add: set_bits_of_def)

lemma bmap_ok_used_le: "bmap_ok m \<Longrightarrow> bm_used m \<le> bm_size m"
proof -
  assume "bmap_ok m"
  moreover have "card (set_bits_of m) \<le> card {..<unat (bm_size m)}"
    by (rule card_mono) (auto simp: set_bits_of_def)
  ultimately show ?thesis by (simp add: bmap_ok_def word_le_nat_alt)
qed

lemma free_bit_exists:
  assumes "bmap_ok m" "bm_used m < bm_size m"
  shows "\<exists>k < unat (bm_size m). \<not> bitmap_is_set (bm_bits m) k"
proof (rule ccontr)
  assume "\<not> ?thesis"
  then have "set_bits_of m = {..<unat (bm_size m)}" by (auto simp: set_bits_of_def)
  then show False using assms by (simp add: bmap_ok_def word_less_nat_alt)
qed

lemma first_unset_is_free:
  assumes "bmap_ok m" "bm_used m < bm_size m"
  shows "bitmap_find_first_unset (bm_bits m) (unat (bm_size m)) < unat (bm_size m)"
    "\<not> bitmap_is_set (bm_bits m) (bitmap_find_first_unset (bm_bits m) (unat (bm_size m)))"
  using free_bit_exists [OF assms] bitmap_find_first_some [of _ "unat (bm_size m)" "bm_bits m" False]
  by (auto simp: bitmap_find_first_unset_def)

lemma bmap_ok_take:
  assumes "bmap_ok m" "k < unat (bm_size m)" "\<not> bitmap_is_set (bm_bits m) k"
  shows "bmap_ok (m\<lparr>bm_used := bm_used m + 1, bm_bits := bitmap_set (bm_bits m) k\<rparr>)"
proof -
  have "set_bits_of (m\<lparr>bm_used := bm_used m + 1, bm_bits := bitmap_set (bm_bits m) k\<rparr>) = insert k (set_bits_of m)"
    using assms(2) by (auto simp: set_bits_of_def)
  moreover have "k \<notin> set_bits_of m" using assms(3) by (simp add: set_bits_of_def)
  moreover have "insert k (set_bits_of m) \<subseteq> {..<unat (bm_size m)}" using assms(2) by (auto simp: set_bits_of_def)
  then have "card (insert k (set_bits_of m)) \<le> unat (bm_size m)" using card_mono [of "{..<unat (bm_size m)}"] by fastforce
  ultimately have "Suc (unat (bm_used m)) \<le> unat (bm_size m)" "card (insert k (set_bits_of m)) = Suc (unat (bm_used m))"
    using assms(1) by (simp_all add: bmap_ok_def)
  moreover from this have "unat (bm_used m + 1) = Suc (unat (bm_used m))"
    using unat_u64_less [of "bm_size m"] by (simp add: unat_word_ariths)
  ultimately show ?thesis
    using \<open>set_bits_of _ = insert k _\<close> by (simp add: bmap_ok_def)
qed

lemma bmap_ok_drop:
  assumes "bmap_ok m" "k < unat (bm_size m)" "bitmap_is_set (bm_bits m) k"
  shows "bmap_ok (m\<lparr>bm_used := bm_used m - 1, bm_bits := bitmap_clear (bm_bits m) k\<rparr>)"
proof -
  have "set_bits_of (m\<lparr>bm_used := bm_used m - 1, bm_bits := bitmap_clear (bm_bits m) k\<rparr>) = set_bits_of m - {k}"
    by (auto simp: set_bits_of_def)
  moreover have "k \<in> set_bits_of m" using assms by (simp add: set_bits_of_def)
  moreover from this have "0 < unat (bm_used m)" using assms(1) by (metis bmap_ok_def card_gt_0_iff empty_iff finite_set_bits)
  moreover from this have "unat (bm_used m - 1) = unat (bm_used m) - 1"
    by (intro unat_minus_one) (auto simp: unat_gt_0)
  ultimately show ?thesis using assms(1) by (simp add: bmap_ok_def)
qed

text \<open>Detaching and attaching a node change links only.\<close>

lemma list_ops_keep_bits:
  "bm_bits (bmap_at (attach_set s bucket x) y) = bm_bits (bmap_at s y)"
  "bm_size (bmap_at (attach_set s bucket x) y) = bm_size (bmap_at s y)"
  "bm_used (bmap_at (attach_set s bucket x) y) = bm_used (bmap_at s y)"
  "bm_bits (bmap_at (detach_set s bucket x) y) = bm_bits (bmap_at s y)"
  "bm_size (bmap_at (detach_set s bucket x) y) = bm_size (bmap_at s y)"
  "bm_used (bmap_at (detach_set s bucket x) y) = bm_used (bmap_at s y)"
  by (simp_all add: attach_set_def detach_set_def field_defs Let_def)

lemma list_ops_keep_geometry:
  "bk_bits (bucket_at (attach_set s bucket x) y) = bk_bits (bucket_at s y)"
  "bk_page_size (bucket_at (attach_set s bucket x) y) = bk_page_size (bucket_at s y)"
  "bk_bits (bucket_at (detach_set s bucket x) y) = bk_bits (bucket_at s y)"
  "bk_page_size (bucket_at (detach_set s bucket x) y) = bk_page_size (bucket_at s y)"
  "pmap_base (attach_set s bucket x) = pmap_base s" "pmap_base (detach_set s bucket x) = pmap_base s"
  "pmap_buckets (attach_set s bucket x) = pmap_buckets s" "pmap_buckets (detach_set s bucket x) = pmap_buckets s"
  "used_bytes (attach_set s bucket x) = used_bytes s" "used_bytes (detach_set s bucket x) = used_bytes s"
  by (simp_all add: attach_set_def detach_set_def field_defs Let_def)

lemmas list_ops_keep = list_ops_keep_bits list_ops_keep_geometry

lemma upd_bmap_fields [simp]:
  "bucket_at (upd_bmap s p f) = bucket_at s" "pmap_base (upd_bmap s p f) = pmap_base s"
  "pmap_buckets (upd_bmap s p f) = pmap_buckets s" "used_bytes (upd_bmap s p f) = used_bytes s"
  "bmap_at (upd_bmap s p f) q = (if q = p then f (bmap_at s p) else bmap_at s q)"
  by (simp_all add: upd_bmap_def)

lemma get_set_index_cong:
  "bucket_at s' bucket = bucket_at s bucket \<Longrightarrow> get_set_index s' bucket bmap = get_set_index s bucket bmap"
  by (simp add: get_set_index_def get_set_size_def)

lemma page_addr_keep:
  "bk_bits (bucket_at s' bucket) = bk_bits (bucket_at s bucket) \<Longrightarrow>
   bk_page_size (bucket_at s' bucket) = bk_page_size (bucket_at s bucket) \<Longrightarrow>
   pmap_base s' = pmap_base s \<Longrightarrow> bucket_page_addr s' bucket st b = bucket_page_addr s bucket st b"
  by (simp add: bucket_page_addr_def Let_def)

lemma alloc_from_ok:
  assumes "bmap_ok (bmap_at s x)" "bm_used (bmap_at s x) < bm_size (bmap_at s x)" "alloc_from s bucket x = (a, s')"
  shows "\<exists>k < unat (bm_size (bmap_at s x)). \<not> bitmap_is_set (bm_bits (bmap_at s x)) k \<and>
      a = bucket_page_addr s bucket (get_set_index s bucket x) (of_nat k) \<and>
      bm_bits (bmap_at s' x) = bitmap_set (bm_bits (bmap_at s x)) k \<and>
      bmap_ok (bmap_at s' x) \<and> bm_size (bmap_at s' x) = bm_size (bmap_at s x) \<and>
      bm_used (bmap_at s' x) = bm_used (bmap_at s x) + 1 \<and>
      (\<forall>y. y \<noteq> x \<longrightarrow> bm_bits (bmap_at s' y) = bm_bits (bmap_at s y) \<and> bm_used (bmap_at s' y) = bm_used (bmap_at s y) \<and>
         bm_size (bmap_at s' y) = bm_size (bmap_at s y))"
proof -
  let ?m = "bmap_at s x"
  define k where "k = bitmap_find_first_unset (bm_bits ?m) (unat (bm_size ?m))"
  have k: "k < unat (bm_size ?m)" "\<not> bitmap_is_set (bm_bits ?m) k"
    unfolding k_def using first_unset_is_free [OF assms(1,2)] by blast+
  have s': "s' = (let s1 = upd_bmap (upd_bmap s x (\<lambda>m. m\<lparr>bm_used := bm_used m + 1\<rparr>)) x
        (\<lambda>m. m\<lparr>bm_bits := bitmap_set (bm_bits m) k\<rparr>)
      in if bm_used ?m + 1 = bm_size ?m then detach_set s1 bucket x else s1)"
    and a: "a = bucket_page_addr s' bucket (get_set_index s bucket x) (of_nat k)"
    using assms(3) by (auto simp: alloc_from_def Let_def k_def get_set_index_cong [of "upd_bmap _ _ _" _ s])
  have "bmap_ok (bmap_at s' x) \<longleftrightarrow> bmap_ok (?m\<lparr>bm_used := bm_used ?m + 1, bm_bits := bitmap_set (bm_bits ?m) k\<rparr>)"
    by (simp add: s' Let_def bmap_ok_def set_bits_of_def list_ops_keep)
  then have "bmap_ok (bmap_at s' x)" using bmap_ok_take [OF assms(1) k] by blast
  moreover have "bucket_page_addr s' bucket st b = bucket_page_addr s bucket st b" for st b
    by (rule page_addr_keep) (simp_all add: s' Let_def list_ops_keep)
  ultimately show ?thesis
    using k a by (intro exI [of _ k]) (auto simp: s' Let_def list_ops_keep)
qed

section \<open>Placing the map\<close>

lemma select_base_from_ok:
  "select_base_from rbase rsize sz avoid rest = base \<Longrightarrow> base \<noteq> 0 \<Longrightarrow>
     overlaps base sz rbase rsize \<and> (\<forall>(b, z) \<in> set avoid. \<not> overlaps base sz b z) \<and>
     (\<exists>(b, z) \<in> set rest. base = align_up (b + z) 8)"
proof (induction rest)
  case (Cons r rest)
  obtain ab az where r: "r = (ab, az)" by (cases r)
  show ?case
  proof (cases "select_base_from rbase rsize sz avoid rest = base")
    case True
    then show ?thesis using Cons.IH Cons.prems by auto
  next
    case False
    then have "base = align_up (ab + az) 8" "overlaps base sz rbase rsize" "\<not> list_ex (\<lambda>(b, z). overlaps base sz b z) avoid"
      using Cons.prems r by (auto simp: Let_def split: if_splits)
    then show ?thesis using r by (auto simp: list_ex_iff)
  qed
qed simp

lemma unat_plus_fits: "unat (a::u64) + unat b < 2 ^ 64 \<Longrightarrow> unat (a + b) = unat a + unat b"
  by (simp add: unat_word_ariths)

section \<open>Properties\<close>

text \<open>(C13) The size that \<^verbatim>\<open>probe_pmap\<close> predicts without writing anything is the
  size \<^verbatim>\<open>populate_pmap\<close> uses when it builds the map anywhere in memory.\<close>

theorem pmap_probe_exact:
  "snd (populate_pmap (fst (probe_pmap s 0 rsize 0)) rbase rsize start) = snd (probe_pmap s 0 rsize 0)"
proof -
  have "geom (fst (probe_pmap s 0 rsize 0)) = geom s"
    by (cases "populate_orders (s\<lparr>pmap := NULL\<rparr>) rsize sizeof_mm_pmap True False (max_order (geom s))")
      (auto simp: probe_pmap_def maybe_populate_pmap_def Let_def dest!: populate_orders_bytes)
  then show ?thesis by (simp add: probe_pmap_def populate_pmap_def maybe_populate_pmap_bytes)
qed

text \<open>\<^verbatim>\<open>__get_bit\<close> inverts \<^verbatim>\<open>__page_addr\<close> for every page that ends
  below the address limit.\<close>

theorem page_address_roundtrip:
  assumes "bk_bits (bucket_at s bucket) \<noteq> 0" "bk_page_size (bucket_at s bucket) \<noteq> 0"
    and "b < bk_bits (bucket_at s bucket)"
    and "(unat st * unat (bk_bits (bucket_at s bucket)) + unat b) * unat (bk_page_size (bucket_at s bucket)) < 2 ^ 64"
  shows "get_bit s bucket (bucket_page_addr s bucket st b) = (st, b)"
  using assms by (intro get_bit_page_addr) (simp add: page_fits_def Let_def)

definition pmem_example :: pmem_state where
  "pmem_example = \<lparr>geom = init_mem mem_zero, pmap = 0x1000, pmap_base = 0x80000000,
     pmap_buckets = (\<lambda>o'. if o' = 0 then 0x1058 else NULL),
     bucket_at = (\<lambda>_. \<lparr>bk_bits = 512, bk_page_size = 0x1000, bk_head = 0x1070\<rparr>),
     bmap_at = (\<lambda>_. \<lparr>bm_size = 512, bm_used = 1, bm_next = NULL, bm_prev = NULL,
       bm_bits = (\<lambda>i. if i = 0 then 1 else 0)\<rparr>),
     used_bytes = 0x1000\<rparr>"

theorem page_address_roundtrip_witness:
  "get_bit pmem_example 0x1058 (bucket_page_addr pmem_example 0x1058 3 17) = (3, 17)"
  using page_address_roundtrip [of pmem_example "0x1058" 17 3] by (simp add: pmem_example_def)

text \<open>(C8) An order with a node on its free list hands out a page
  whose bit was clear, marks exactly that page used in exactly that node, and keeps the
  node's count in step with its bits.\<close>

theorem alloc_page_takes_free_page:
  assumes "order < MM_NUM" "pmap_buckets s order = bucket" "bucket \<noteq> NULL"
    and "bk_head (bucket_at s bucket) = x" "x \<noteq> NULL"
    and "bmap_ok (bmap_at s x)" "bm_used (bmap_at s x) < bm_size (bmap_at s x)"
  shows "\<exists>a s' k. alloc_page s order = Some (a, s') \<and> k < unat (bm_size (bmap_at s x)) \<and>
      \<not> bitmap_is_set (bm_bits (bmap_at s x)) k \<and>
      a = bucket_page_addr s bucket (get_set_index s bucket x) (of_nat k) \<and>
      bm_bits (bmap_at s' x) = bitmap_set (bm_bits (bmap_at s x)) k \<and> bmap_ok (bmap_at s' x) \<and>
      (\<forall>y. y \<noteq> x \<longrightarrow> bm_bits (bmap_at s' y) = bm_bits (bmap_at s y) \<and> bm_used (bmap_at s' y) = bm_used (bmap_at s y))"
proof -
  obtain a s1 where af: "alloc_from s bucket x = (a, s1)" by fastforce
  then have "alloc_page_worker s order = Some (a, s1)"
    using assms by (subst alloc_page_worker.simps) (simp add: Let_def)
  then have "alloc_page s order = Some (a, if a \<noteq> 0 then s1\<lparr>used_bytes := used_bytes s1 + order_size (geom s1) order\<rparr> else s1)"
    by (simp add: alloc_page_def)
  moreover obtain k where k: "k < unat (bm_size (bmap_at s x))" "\<not> bitmap_is_set (bm_bits (bmap_at s x)) k"
    "a = bucket_page_addr s bucket (get_set_index s bucket x) (of_nat k)"
    "bm_bits (bmap_at s1 x) = bitmap_set (bm_bits (bmap_at s x)) k" "bmap_ok (bmap_at s1 x)"
    "\<forall>y. y \<noteq> x \<longrightarrow> bm_bits (bmap_at s1 y) = bm_bits (bmap_at s y) \<and> bm_used (bmap_at s1 y) = bm_used (bmap_at s y)"
    using alloc_from_ok [OF assms(6,7) af] by blast
  ultimately show ?thesis by (intro exI conjI) (assumption | simp)+
qed

lemma pmem_example_bits: "bitmap_is_set (bm_bits (bmap_at pmem_example x)) k \<longleftrightarrow> k = 0"
proof -
  have one: "bit (if a = 0 then 1 else 0 :: u8) b \<longleftrightarrow> a = 0 \<and> b = 0" for a b :: nat by (simp add: bit_1_iff)
  have "bm_bits (bmap_at pmem_example x) = (\<lambda>i. if i = 0 then 1 else 0)" by (simp add: pmem_example_def)
  then show ?thesis using div_mod_eq_iff [of k 0] by (simp only: bitmap_is_set_bit one div_0 mod_0)
qed

lemma pmem_example_ok: "bmap_ok (bmap_at pmem_example x)"
proof -
  have ex: "unat (bm_size (bmap_at pmem_example x)) = 512" "unat (bm_used (bmap_at pmem_example x)) = 1"
    by (simp_all add: pmem_example_def)
  have "set_bits_of (bmap_at pmem_example x) = {0}"
    unfolding set_bits_of_def pmem_example_bits ex by auto
  then show ?thesis unfolding bmap_ok_def ex by simp
qed

theorem alloc_page_takes_free_page_witness:
  "\<exists>a s' k. alloc_page pmem_example 0 = Some (a, s') \<and> k < 512 \<and> k \<noteq> 0 \<and>
     bm_bits (bmap_at s' 0x1070) = bitmap_set (bm_bits (bmap_at pmem_example 0x1070)) k"
proof -
  have "pmap_buckets pmem_example 0 = 0x1058" "bk_head (bucket_at pmem_example 0x1058) = 0x1070"
    "bm_used (bmap_at pmem_example 0x1070) < bm_size (bmap_at pmem_example 0x1070)"
    "unat (bm_size (bmap_at pmem_example 0x1070)) = 512"
    by (simp_all add: pmem_example_def)
  then show ?thesis
    using alloc_page_takes_free_page [of 0 pmem_example "0x1058" "0x1070"] pmem_example_ok pmem_example_bits
    by (auto simp: MM_NUM_def)
qed

text \<open>(C9) Freeing the page just allocated from a node that has others in use
  brings back the bits, the counts and the total of bytes in use.\<close>

lemma free_page_worker_simple:
  assumes "order < MM_NUM" "pmap_buckets s order = bucket" "bucket \<noteq> NULL"
    and "get_bit s bucket a = (st, b)" "get_set s bucket st = x"
    and "bitmap_is_set (bm_bits (bmap_at s x)) (unat b)" "bm_used (bmap_at s x) \<noteq> 1"
  shows "free_page_worker s order a = Some (True, attach_set (upd_bmap s x
      (\<lambda>m. m\<lparr>bm_used := bm_used m - 1, bm_bits := bitmap_clear (bm_bits m) (unat b)\<rparr>)) bucket x)"
proof -
  have "upd_bmap (upd_bmap s x (\<lambda>m. m\<lparr>bm_used := bm_used m - 1\<rparr>)) x
      (\<lambda>m. m\<lparr>bm_bits := bitmap_clear (bm_bits m) (unat b)\<rparr>) =
    upd_bmap s x (\<lambda>m. m\<lparr>bm_used := bm_used m - 1, bm_bits := bitmap_clear (bm_bits m) (unat b)\<rparr>)"
    by (simp add: upd_bmap_def)
  moreover have "bm_used (bmap_at s x) - 1 \<noteq> 0" using assms(7) by simp
  ultimately show ?thesis
    using assms by (subst free_page_worker.simps) (simp add: Let_def list_ops_keep)
qed

lemma bitmap_clear_set: "\<not> bitmap_is_set b k \<Longrightarrow> bitmap_clear (bitmap_set b k) k = b"
proof
  fix i
  assume "\<not> bitmap_is_set b k"
  then have "bitmap_is_set (bitmap_clear (bitmap_set b k) k) (8 * i + j) = bitmap_is_set b (8 * i + j)" for j
    by (metis bitmap_is_set_clear bitmap_is_set_set)
  then have "bit (bitmap_clear (bitmap_set b k) k i) j = bit (b i) j" if "j < 8" for j
  proof -
    have "(8 * i + j) div 8 = i" "(8 * i + j) mod 8 = j" using that by simp_all
    then show ?thesis using \<open>\<And>j. bitmap_is_set _ (8 * i + j) = bitmap_is_set b (8 * i + j)\<close> [of j]
      by (simp only: bitmap_is_set_bit)
  qed
  then show "bitmap_clear (bitmap_set b k) k i = b i" by (intro bit_word_eqI) simp
qed



text \<open>(C15) \<^verbatim>\<open>__attach_set\<close> takes a node for detached when it has no next node,
  which is also true of the last node of the list: attaching that node again closes the
  free list into a cycle.\<close>

theorem attach_tail_cycles:
  assumes "freelist s bucket (y # xs @ [x])"
  shows "bk_head (bucket_at (attach_set s bucket x) bucket) = x \<and>
    bm_next (bmap_at (attach_set s bucket x) x) = y \<and>
    bm_next (bmap_at (attach_set s bucket x) (last (y # xs))) = x"
proof -
  have d: "distinct (y # xs @ [x])" and seg: "seg (bmap_at s) NULL (bk_head (bucket_at s bucket)) ((y # xs) @ [x]) NULL"
    using assms by (simp_all add: freelist_def)
  have y: "bk_head (bucket_at s bucket) = y" "y \<noteq> NULL" using seg by auto
  obtain us l where us: "y # xs = us @ [l]" by (metis rev_exhaust list.distinct(1))
  have "bm_next (bmap_at s x) = NULL" "bm_next (bmap_at s l) = x"
    using seg unfolding us by (auto simp: seg_append)
  moreover have "l \<noteq> x" "y \<noteq> x" using d us by (auto simp: Cons_eq_append_conv split: if_splits)
  ultimately show ?thesis using y us by (auto simp: attach_set_def field_defs Let_def)
qed

theorem attach_tail_cycles_witness:
  "\<exists>s. freelist s 8 [16, 24] \<and> bk_head (bucket_at (attach_set s 8 24) 8) = 24 \<and>
     bm_next (bmap_at (attach_set s 8 24) 24) = 16 \<and> bm_next (bmap_at (attach_set s 8 24) 16) = 24"
proof -
  let ?s = "pmem_example\<lparr>bucket_at := (\<lambda>_. \<lparr>bk_bits = 512, bk_page_size = 0x1000, bk_head = 16\<rparr>),
     bmap_at := (\<lambda>p. \<lparr>bm_size = 512, bm_used = 1, bm_next = if p = 16 then 24 else NULL,
       bm_prev = if p = 16 then NULL else 16, bm_bits = (\<lambda>_. 1)\<rparr>)\<rparr>"
  have "freelist ?s 8 [16, 24]" by (simp add: freelist_def)
  then show ?thesis using attach_tail_cycles [of ?s 8 16 "[]" 24] by auto
qed

text \<open>(C16) For two regions that end below the address limit \<^verbatim>\<open>overlaps\<close> says that
  they share an address, except when the first sticks out of the second on both sides:
  such an overlap goes unnoticed.\<close>

theorem overlaps_exact:
  assumes "unat b1 + unat s1 < 2 ^ 64" "unat b2 + unat s2 < 2 ^ 64" "s1 \<noteq> 0" "s2 \<noteq> 0"
  shows "overlaps b1 s1 b2 s2 \<longleftrightarrow>
    ({unat b1..<unat b1 + unat s1} \<inter> {unat b2..<unat b2 + unat s2} \<noteq> {}) \<and>
    \<not> (unat b1 < unat b2 \<and> unat b2 + unat s2 < unat b1 + unat s1)"
proof -
  have pos: "0 < unat s1" "0 < unat s2" using assms(3,4) by (simp_all add: unat_gt_0)
  have "{unat b1..<unat b1 + unat s1} \<inter> {unat b2..<unat b2 + unat s2} \<noteq> {} \<longleftrightarrow>
    unat b1 < unat b2 + unat s2 \<and> unat b2 < unat b1 + unat s1"
    using pos by (auto simp: ivl_disj_int)
  then show ?thesis
    using pos by (auto simp: overlaps_def word_le_nat_alt word_less_nat_alt unat_plus_fits [OF assms(1)] unat_plus_fits [OF assms(2)])
qed

theorem overlaps_exact_witness:
  "\<not> overlaps 0 100 10 20 \<and> {unat (0::u64)..<unat (0::u64) + unat (100::u64)} \<inter> {unat (10::u64)..<unat (10::u64) + unat (20::u64)} \<noteq> {}"
  using overlaps_exact [of 0 100 10 20] by auto



end
