(* ===== verification/Paging.thy ===== *)
theory Paging
  imports Pmem
begin

text \<open>
  Page tables on riscv64: \<^verbatim>\<open>arch/riscv64/kernel/vmem.c\<close> and the entry macros of
  \<^verbatim>\<open>arch/riscv64/kernel/pte.h\<close>. A table is 512 entries at a kernel address, the tables are a
  heap of such arrays next to the physical page allocator, and a pointer to an entry is a
  table with an index. The model is of a build without debug output, in which
  \<open>map_io_dbg\<close> is empty. The functions that only execute \<^verbatim>\<open>sfence.vma\<close> change nothing that
  is modelled.
\<close>

section \<open>Flags and entries\<close>

definition VM_V :: u64 where "VM_V = 0x01"
definition VM_R :: u64 where "VM_R = 0x02"
definition VM_W :: u64 where "VM_W = 0x04"
definition VM_X :: u64 where "VM_X = 0x08"
definition VM_U :: u64 where "VM_U = 0x10"
definition VM_G :: u64 where "VM_G = 0x20"
definition VM_A :: u64 where "VM_A = 0x40"
definition VM_D :: u64 where "VM_D = 0x80"

lemmas flag_defs = VM_V_def VM_R_def VM_W_def VM_X_def VM_U_def VM_G_def VM_A_def VM_D_def

definition KERNEL_PAGE :: nat where "KERNEL_PAGE = 510"
definition IO_PAGE :: nat where "IO_PAGE = 511"
definition KSTART_PAGE :: nat where "KSTART_PAGE = 256"
definition CSTACK_PAGE :: nat where "CSTACK_PAGE = 248"
definition VM_KERNEL :: u64 where "VM_KERNEL = 0xffffffff80000000"
definition TOP_PAGE_SIZE :: u64 where "TOP_PAGE_SIZE = 0x40000000"
definition UVMEM_END :: u64 where "UVMEM_END = 0x3e00000000"
definition RPC_STACK_BASE :: u64 where "RPC_STACK_BASE = UVMEM_END"
definition RISCV_NUM_LEAVES :: nat where "RISCV_NUM_LEAVES = 512"

definition GRAVESTONE :: u64 where "GRAVESTONE = VM_G"

definition vp_flags :: "u64 \<Rightarrow> u64" where "vp_flags x = x AND 0xff"

definition vm_flags :: "u64 \<Rightarrow> u64" where "vm_flags x = x AND NOT 0xff"

definition pte_ppn :: "u64 \<Rightarrow> u64" where "pte_ppn pte = drop_bit 10 pte"

definition pte_flags :: "u64 \<Rightarrow> u64" where "pte_flags pte = pte AND 0xff"

definition to_pte :: "mem_state \<Rightarrow> u64 \<Rightarrow> u64 \<Rightarrow> u64" where
  "to_pte m p f = push_bit 10 (drop_bit (unat (page_shift m)) p) OR f"

definition pte_paddr :: "mem_state \<Rightarrow> u64 \<Rightarrow> u64" where
  "pte_paddr m pte = push_bit (unat (page_shift m)) (pte_ppn pte)"

definition pte_addr :: "mem_state \<Rightarrow> u64 \<Rightarrow> u64" where
  "pte_addr m pte = va (pte_paddr m pte)"

definition vm_to_index :: "mem_state \<Rightarrow> u64 \<Rightarrow> nat \<Rightarrow> nat" where
  "vm_to_index m a order = unat (pm_to_index m a order)"

definition is_active :: "u64 \<Rightarrow> bool" where
  "is_active pte \<longleftrightarrow> pte_flags pte AND VM_V \<noteq> 0"

definition is_leaf :: "u64 \<Rightarrow> bool" where
  "is_leaf pte \<longleftrightarrow> is_active pte \<and> pte_flags pte AND NOT VM_V \<noteq> 0"

definition is_branch :: "u64 \<Rightarrow> bool" where
  "is_branch pte \<longleftrightarrow> is_active pte \<and> pte_flags pte AND NOT VM_V = 0"

definition unused :: "u64 \<Rightarrow> bool" where
  "unused b \<longleftrightarrow> b = GRAVESTONE \<or> b = 0"

section \<open>State\<close>

type_synonym tables = "ptr \<Rightarrow> nat \<Rightarrow> u64"
type_synonym pte_ptr = "ptr \<times> nat"

record vm_state =
  phys :: pmem_state
  tables :: tables
  kvmem :: ptr
  rpc_pages :: u64
  satp :: u64

abbreviation vgeom :: "vm_state \<Rightarrow> mem_state" where "vgeom s \<equiv> geom (phys s)"

definition get_pte :: "vm_state \<Rightarrow> pte_ptr \<Rightarrow> u64" where
  "get_pte s p = tables s (fst p) (snd p)"

definition set_pte :: "vm_state \<Rightarrow> pte_ptr \<Rightarrow> u64 \<Rightarrow> vm_state" where
  "set_pte s p v = s\<lparr>tables := (tables s)(fst p := (tables s (fst p))(snd p := v))\<rparr>"

section \<open>Looking up and changing entries\<close>

fun find_vmem_from :: "mem_state \<Rightarrow> tables \<Rightarrow> ptr \<Rightarrow> u64 \<Rightarrow> nat \<Rightarrow> (pte_ptr \<times> nat) option" where
  "find_vmem_from m t b v order =
     (let idx = vm_to_index m v order;
          pte = t b idx
      in if unused pte then None
         else if is_leaf pte then Some ((b, idx), order)
         else case order of 0 \<Rightarrow> None | Suc order' \<Rightarrow> find_vmem_from m t (pte_addr m pte) v order')"

declare find_vmem_from.simps [simp del]

definition find_vmem :: "vm_state \<Rightarrow> ptr \<Rightarrow> u64 \<Rightarrow> (pte_ptr \<times> nat) option" where
  "find_vmem s b v = find_vmem_from (vgeom s) (tables s) b v (max_order (vgeom s))"

definition set_vpage_flags :: "vm_state \<Rightarrow> ptr \<Rightarrow> u64 \<Rightarrow> u64 \<Rightarrow> stat_t \<times> vm_state" where
  "set_vpage_flags s branch vaddr flags =
     (case find_vmem s branch vaddr of
        Some (pte, _) \<Rightarrow> (OK, set_pte s pte (set_bits_mask (get_pte s pte) (vp_flags flags)))
      | None \<Rightarrow> (ERR_NF, s))"

definition clear_vpage_flags :: "vm_state \<Rightarrow> ptr \<Rightarrow> u64 \<Rightarrow> u64 \<Rightarrow> stat_t \<times> vm_state" where
  "clear_vpage_flags s branch vaddr flags =
     (case find_vmem s branch vaddr of
        Some (pte, _) \<Rightarrow> (OK, set_pte s pte (clear_bits (get_pte s pte) (vp_flags flags)))
      | None \<Rightarrow> (ERR_NF, s))"

definition mod_vpage :: "vm_state \<Rightarrow> ptr \<Rightarrow> u64 \<Rightarrow> u64 \<Rightarrow> u64 \<Rightarrow> stat_t \<times> vm_state" where
  "mod_vpage s branch vaddr paddr flags =
     (let flags = flags OR (VM_A OR VM_D)
      in case find_vmem s branch vaddr of
           Some (pte, _) \<Rightarrow> (OK, set_pte s pte (to_pte (vgeom s) (pa paddr) (vp_flags flags)))
         | None \<Rightarrow> (ERR_NF, s))"

text \<open>\<open>stat_vpage\<close> with every out parameter present: address, order and flags.\<close>

definition stat_vpage :: "vm_state \<Rightarrow> ptr \<Rightarrow> u64 \<Rightarrow> (u64 \<times> nat \<times> u64) option" where
  "stat_vpage s branch vaddr =
     (case find_vmem s branch vaddr of
        Some (pte, order) \<Rightarrow>
          Some (pte_addr (vgeom s) (get_pte s pte), order, pte_flags (get_pte s pte))
      | None \<Rightarrow> None)"

section \<open>Mapping and unmapping\<close>

definition create_leaf :: "vm_state \<Rightarrow> (u64 \<times> vm_state) option" where
  "create_leaf s =
     (case alloc_page (phys s) 0 of
        None \<Rightarrow> None
      | Some (new_leaf, p) \<Rightarrow>
          if new_leaf = 0 then Some (0, s\<lparr>phys := p\<rparr>)
          else Some (to_pte (geom p) (pa new_leaf) VM_V,
                     s\<lparr>phys := p, tables := (tables s)(new_leaf := (\<lambda>_. 0))\<rparr>))"

partial_function (option) destroy_from :: "vm_state \<Rightarrow> ptr \<Rightarrow> nat \<Rightarrow> vm_state option" where
  "destroy_from s b i =
     (if i < RISCV_NUM_LEAVES then
        (if is_branch (tables s b i)
         then Option.bind (destroy_from s (pte_addr (vgeom s) (tables s b i)) 0) (\<lambda>s. destroy_from s b (i + 1))
         else destroy_from s b (i + 1))
      else map_option (\<lambda>p. s\<lparr>phys := p\<rparr>) (free_page (phys s) 0 b))"

definition destroy_branch :: "vm_state \<Rightarrow> ptr \<Rightarrow> vm_state option" where
  "destroy_branch s b = (if b = NULL then Some s else destroy_from s b 0)"

text \<open>The loop of \<open>__add_graves\<close>: \<open>add_graves_below t i\<close> looks at the entries below \<open>i\<close>.\<close>

fun add_graves_below :: "(nat \<Rightarrow> u64) \<Rightarrow> nat \<Rightarrow> nat \<Rightarrow> u64" where
  "add_graves_below t 0 = t"
| "add_graves_below t (Suc i) =
     (if \<not> unused (t i) then t else add_graves_below (t(i := GRAVESTONE)) i)"

definition add_graves :: "vm_state \<Rightarrow> ptr \<Rightarrow> nat \<Rightarrow> vm_state" where
  "add_graves s branch idx =
     (if idx \<ge> CSTACK_PAGE then s
      else s\<lparr>tables := (tables s)(branch := add_graves_below (tables s branch) idx)\<rparr>)"

text \<open>
  The descent of \<open>map_vpage\<close>: to the table of the order that is asked for, making tables
  on the way. Orders only decrease, so an order above the top one is never met.
\<close>

fun map_descend :: "vm_state \<Rightarrow> ptr \<Rightarrow> u64 \<Rightarrow> nat \<Rightarrow> nat \<Rightarrow> (stat_t \<times> ptr \<times> vm_state) option" where
  "map_descend s branch vaddr order top' =
     (if top' = order then Some (OK, branch, s)
      else case top' of
        0 \<Rightarrow> None
      | Suc lower \<Rightarrow>
          let idx = vm_to_index (vgeom s) vaddr top'
          in case (if unused (tables s branch idx) then
                     (case create_leaf s of
                        None \<Rightarrow> None
                      | Some (leaf, s) \<Rightarrow>
                          if leaf = 0 then Some (ERR_OOMEM, s) else Some (OK, set_pte s (branch, idx) leaf))
                   else Some (OK, s)) of
               None \<Rightarrow> None
             | Some (st, s) \<Rightarrow>
                 if st \<noteq> OK then Some (st, branch, s)
                 else map_descend s (pte_addr (vgeom s) (tables s branch idx)) vaddr order lower)"

declare map_descend.simps [simp del]

definition map_vpage :: "vm_state \<Rightarrow> ptr \<Rightarrow> u64 \<Rightarrow> u64 \<Rightarrow> u64 \<Rightarrow> nat \<Rightarrow> (stat_t \<times> vm_state) option" where
  "map_vpage s branch paddr vaddr flags order =
     (let root = branch;
          flags = flags OR (VM_A OR VM_D)
      in case map_descend s branch vaddr order (max_order (vgeom s)) of
           None \<Rightarrow> None
         | Some (st, branch, s) \<Rightarrow>
             if st \<noteq> OK then Some (st, s)
             else
               let idx = vm_to_index (vgeom s) vaddr order
               in if \<not> unused (tables s branch idx) then Some (ERR_INVAL, s)
                  else
                    let s = set_pte s (branch, idx) (to_pte (vgeom s) (pa paddr) (vp_flags flags))
                    in Some (OK, add_graves s root (vm_to_index (vgeom s) vaddr (max_order (vgeom s)))))"

fun remove_graves_from :: "(nat \<Rightarrow> u64) \<Rightarrow> nat \<Rightarrow> nat \<Rightarrow> u64" where
  "remove_graves_from t i =
     (if t i \<noteq> GRAVESTONE then t
      else case i of 0 \<Rightarrow> t(i := 0) | Suc k \<Rightarrow> remove_graves_from (t(i := 0)) k)"

declare remove_graves_from.simps [simp del]

definition remove_graves :: "vm_state \<Rightarrow> ptr \<Rightarrow> nat \<Rightarrow> vm_state" where
  "remove_graves s branch idx =
     (if idx \<ge> CSTACK_PAGE then s
      else if tables s branch (idx + 1) \<noteq> 0 then s
      else s\<lparr>tables := (tables s)(branch := remove_graves_from (tables s branch) idx)\<rparr>)"

definition unmap_vpage :: "vm_state \<Rightarrow> ptr \<Rightarrow> u64 \<Rightarrow> stat_t \<times> vm_state" where
  "unmap_vpage s branch vaddr =
     (case find_vmem s branch vaddr of
        Some (pte, _) \<Rightarrow>
          (OK, remove_graves (set_pte s pte GRAVESTONE) branch (vm_to_index (vgeom s) vaddr (max_order (vgeom s))))
      | None \<Rightarrow> (ERR_NF, s))"

section \<open>Address spaces\<close>

text \<open>\<open>branch_to_satp\<close> in the mode the kernel uses.\<close>

definition branch_to_satp :: "mem_state \<Rightarrow> u64 \<Rightarrow> u64" where
  "branch_to_satp m branch = 0x8000000000000000 OR drop_bit (unat (page_shift m)) branch"

definition use_vmem :: "vm_state \<Rightarrow> ptr \<Rightarrow> vm_state" where
  "use_vmem s b = s\<lparr>satp := branch_to_satp (vgeom s) (pa b)\<rparr>"

definition populate_dmap :: "vm_state \<Rightarrow> ptr \<Rightarrow> vm_state" where
  "populate_dmap s branch =
     (let flags = VM_V OR VM_R OR VM_W OR VM_X OR VM_G OR VM_D OR VM_A
      in s\<lparr>tables := (tables s)(branch :=
           (\<lambda>i. if i < CSTACK_PAGE then to_pte (vgeom s) (TOP_PAGE_SIZE * of_nat i) flags else tables s branch i))\<rparr>)"

definition map_kernel :: "vm_state \<Rightarrow> ptr \<Rightarrow> vm_state" where
  "map_kernel s b =
     (let addr = kvmem s;
          addr = (if sint addr < 0 then addr - VM_KERNEL + load_addr (vgeom s) else addr)
      in set_pte s (b, KERNEL_PAGE) (to_pte (vgeom s) addr VM_V))"

definition populate_kvmem :: "vm_state \<Rightarrow> ptr \<Rightarrow> stat_t \<times> vm_state" where
  "populate_kvmem s b =
     (let flags = VM_V OR VM_R OR VM_W OR VM_X OR VM_G OR VM_D OR VM_A;
          s = s\<lparr>tables := (tables s)(b :=
           (\<lambda>i. if KSTART_PAGE \<le> i \<and> i < KERNEL_PAGE
                then to_pte (vgeom s) (TOP_PAGE_SIZE * of_nat (i - KSTART_PAGE)) flags else tables s b i))\<rparr>
      in (OK, map_kernel s b))"

text \<open>\<open>setup_kernel_io\<close> of a debug build.\<close>

definition setup_kernel_io :: "vm_state \<Rightarrow> ptr \<Rightarrow> u64 \<Rightarrow> u64 \<times> vm_state" where
  "setup_kernel_io s b paddr =
     (let top_page = paddr div TOP_PAGE_SIZE;
          addr = top_page * TOP_PAGE_SIZE
      in (- TOP_PAGE_SIZE + paddr - addr,
          set_pte s (b, IO_PAGE) (to_pte (vgeom s) addr (VM_V OR VM_R OR VM_W OR VM_A OR VM_D))))"

definition init_mapping :: "vm_state \<Rightarrow> ptr \<Rightarrow> u64 \<Rightarrow> vm_state" where
  "init_mapping s bootvmem load =
     (let s = s\<lparr>rpc_pages := order_size (vgeom s) 1 div BASE_PAGE_SIZE\<rparr>;
          s = set_pte s (kvmem s, 0)
            (to_pte (vgeom s) load (VM_A OR VM_G OR VM_D OR VM_R OR VM_W OR VM_X OR VM_V));
          s = populate_dmap s bootvmem;
          s = snd (populate_kvmem s bootvmem)
      in s\<lparr>satp := branch_to_satp (vgeom s) bootvmem\<rparr>)"

definition create_vmem :: "vm_state \<Rightarrow> (ptr \<times> vm_state) option" where
  "create_vmem s =
     (case alloc_page (phys s) 0 of
        None \<Rightarrow> None
      | Some (b, p) \<Rightarrow>
          if b = NULL then Some (NULL, s\<lparr>phys := p\<rparr>)
          else
            let s = s\<lparr>phys := p, tables := (tables s)(b := (\<lambda>_. 0))\<rparr>
            in Some (b, snd (populate_kvmem s b)))"

definition init_vmem :: "vm_state \<Rightarrow> (ptr \<times> vm_state) option" where
  "init_vmem s =
     (case create_vmem s of
        None \<Rightarrow> None
      | Some (b, s) \<Rightarrow> if b = NULL then Some (NULL, s) else Some (b, use_vmem (populate_dmap s b) b))"

text \<open>The loops that destroy the branches among the entries from \<open>i\<close> up to the kernel's.\<close>

function destroy_entries :: "vm_state \<Rightarrow> ptr \<Rightarrow> nat \<Rightarrow> vm_state option" where
  "destroy_entries s b i =
     (if i < KERNEL_PAGE then
        (if is_branch (tables s b i)
         then Option.bind (destroy_branch s (pte_addr (vgeom s) (tables s b i))) (\<lambda>s. destroy_entries s b (i + 1))
         else destroy_entries s b (i + 1))
      else Some s)"
  by pat_completeness auto
termination
  by (relation "measure (\<lambda>(s, b, i). KERNEL_PAGE - i)") auto

declare destroy_entries.simps [simp del]

definition destroy_vmem :: "vm_state \<Rightarrow> ptr \<Rightarrow> vm_state option" where
  "destroy_vmem s b =
     (if b = NULL then Some s
      else Option.bind (destroy_entries s b 0)
             (\<lambda>s. map_option (\<lambda>p. s\<lparr>phys := p\<rparr>) (free_page (phys s) 0 b)))"

definition destroy_rpcmem :: "vm_state \<Rightarrow> ptr \<Rightarrow> vm_state option" where
  "destroy_rpcmem s b =
     (if b = NULL then Some s
      else Option.bind (destroy_entries s b CSTACK_PAGE)
             (\<lambda>s. map_option (\<lambda>p. s\<lparr>phys := p\<rparr>) (free_page (phys s) 0 b)))"

text \<open>\<open>clone_uvmem\<close>: copy up to the first empty entry, then clear up to the first empty one.\<close>

function clone_copy :: "(nat \<Rightarrow> u64) \<Rightarrow> (nat \<Rightarrow> u64) \<Rightarrow> nat \<Rightarrow> (nat \<Rightarrow> u64) \<times> nat" where
  "clone_copy r b i =
     (if i < CSTACK_PAGE then (if r i = 0 then (b, i) else clone_copy r (b(i := r i)) (i + 1))
      else (b, i))"
  by pat_completeness auto
termination
  by (relation "measure (\<lambda>(r, b, i). CSTACK_PAGE - i)") auto

function clone_clear :: "(nat \<Rightarrow> u64) \<Rightarrow> nat \<Rightarrow> nat \<Rightarrow> u64" where
  "clone_clear b i =
     (if i < CSTACK_PAGE then (if b i = 0 then b else clone_clear (b(i := 0)) (i + 1)) else b)"
  by pat_completeness auto
termination
  by (relation "measure (\<lambda>(b, i). CSTACK_PAGE - i)") auto

declare clone_copy.simps [simp del] clone_clear.simps [simp del]

definition clone_uvmem :: "vm_state \<Rightarrow> ptr \<Rightarrow> ptr \<Rightarrow> vm_state" where
  "clone_uvmem s r b =
     (let (t, i) = clone_copy (tables s r) (tables s b) 0
      in s\<lparr>tables := (tables s)(b := clone_clear t i)\<rparr>)"

section \<open>Entries\<close>

lemma flags_mask: "x AND 0xff = take_bit 8 (x::u64)"
proof -
  have "(0xff::u64) = mask 8" by (simp add: mask_eq_exp_minus_1)
  then show ?thesis by (simp only: take_bit_eq_mask)
qed

lemma pte_flags_to_pte: "pte_flags (to_pte m p (vp_flags f)) = vp_flags f"
  unfolding pte_flags_def to_pte_def vp_flags_def flags_mask
  by (rule bit_word_eqI) (auto simp: bit_simps)

lemma pte_paddr_to_pte:
  assumes "page_shift m = 12"
  shows "pte_paddr m (to_pte m p (vp_flags f)) = p AND NOT 0xfff"
proof -
  have mask: "(0xfff::u64) = mask 12" by (simp add: mask_eq_exp_minus_1)
  have sh: "unat (page_shift m) = 12" by (simp add: assms)
  show ?thesis
    unfolding pte_paddr_def to_pte_def vp_flags_def pte_ppn_def flags_mask mask sh
    by (rule bit_word_eqI) (auto simp: bit_simps dest: bit_imp_le_length)
qed

lemma page_aligned_split:
  assumes "a AND 0xfff = (0::u64)"
  shows "a AND NOT 0xfff = a" "a = push_bit 12 (drop_bit 12 a)"
proof -
  have mask: "(0xfff::u64) = mask 12" by (simp add: mask_eq_exp_minus_1)
  have low: "\<not> bit a i" if "i < 12" for i
  proof -
    have "\<not> bit (a AND mask 12) i" using assms mask by simp
    then show ?thesis using that by (auto simp: bit_simps)
  qed
  have high: "12 \<le> i" if "bit a i" for i
    using low [of i] that by (rule_tac ccontr) simp
  show "a AND NOT 0xfff = a" unfolding mask
    by (rule bit_word_eqI) (auto simp: bit_simps dest: high)
  show "a = push_bit 12 (drop_bit 12 a)"
  proof (rule bit_word_eqI)
    fix n assume "n < LENGTH(64)"
    show "bit a n \<longleftrightarrow> bit (push_bit 12 (drop_bit 12 a)) n"
      using high [of n] \<open>n < LENGTH(64)\<close> by (cases "12 \<le> n") (auto simp: bit_simps)
  qed
qed

lemma pa_aligned: "a AND 0xfff = 0 \<Longrightarrow> pa a AND 0xfff = 0"
proof -
  assume "a AND 0xfff = 0"
  then have a: "a = push_bit 12 (drop_bit 12 a)" by (rule page_aligned_split)
  have "pa a = push_bit 12 (drop_bit 12 a) - push_bit 12 0xffffffc000000"
    using a by (simp add: pa_def VM_DMAP_def)
  also have "\<dots> = push_bit 12 (drop_bit 12 a - 0xffffffc000000)"
    by (simp add: push_bit_eq_mult algebra_simps)
  finally have "pa a = push_bit 12 (drop_bit 12 a - 0xffffffc000000)" .
  moreover have "push_bit 12 z AND 0xfff = 0" for z :: u64
  proof -
    have mask: "(0xfff::u64) = mask 12" by (simp add: mask_eq_exp_minus_1)
    show ?thesis unfolding mask by (rule bit_word_eqI) (auto simp: bit_simps)
  qed
  ultimately show ?thesis by simp
qed

lemma pte_addr_to_pte:
  assumes "page_shift m = 12" "a AND 0xfff = 0"
  shows "pte_addr m (to_pte m (pa a) (vp_flags f)) = a"
  using page_aligned_split(1) [OF pa_aligned [OF assms(2)]]
  by (simp add: pte_addr_def pte_paddr_to_pte [OF assms(1)])

lemma VM_V_flags: "VM_V = vp_flags VM_V"
  by (simp add: VM_V_def vp_flags_def)

lemma unused_zero [simp]: "unused 0" "unused GRAVESTONE"
  by (simp_all add: unused_def)

section \<open>Gravestones\<close>

text \<open>
  The invariant behind \<open>clone_uvmem\<close>: among the entries of user space, everything below an
  entry that is not empty is not empty either.
\<close>

definition graves_ok :: "(nat \<Rightarrow> u64) \<Rightarrow> bool" where
  "graves_ok t \<longleftrightarrow> (\<forall>i j. i < j \<and> j < CSTACK_PAGE \<and> t j \<noteq> 0 \<longrightarrow> t i \<noteq> 0)"

lemma graves_okD: "graves_ok t \<Longrightarrow> i < j \<Longrightarrow> j < CSTACK_PAGE \<Longrightarrow> t j \<noteq> 0 \<Longrightarrow> t i \<noteq> 0"
  unfolding graves_ok_def by blast

lemma GRAVESTONE_nonzero [simp]: "GRAVESTONE \<noteq> 0"
  by (simp add: GRAVESTONE_def VM_G_def)

lemma add_graves_below_above: "idx \<le> i \<Longrightarrow> add_graves_below t idx i = t i"
  by (induction t idx rule: add_graves_below.induct) auto

lemma add_graves_below_same: "\<not> unused (t i) \<Longrightarrow> add_graves_below t idx i = t i"
proof (induction t idx rule: add_graves_below.induct)
  case (2 t k)
  then show ?case by (cases "i = k") (auto simp: fun_upd_def)
qed simp

lemma add_graves_below_unused: "unused (add_graves_below t idx i) \<longleftrightarrow> unused (t i)"
proof (induction t idx rule: add_graves_below.induct)
  case (2 t k)
  then show ?case by (cases "i = k") (auto simp: fun_upd_def)
qed simp

lemma add_graves_below_nonzero:
  assumes "\<And>i j. i < j \<Longrightarrow> j < idx \<Longrightarrow> t j \<noteq> 0 \<Longrightarrow> t i \<noteq> 0" "i < idx"
  shows "add_graves_below t idx i \<noteq> 0"
  using assms
proof (induction t idx rule: add_graves_below.induct)
  case (2 t k)
  show ?case
  proof (cases "unused (t k)")
    case False
    then have "t k \<noteq> 0" by (auto simp: unused_def)
    then have "t i \<noteq> 0" using "2.prems" by (cases "i = k") (auto simp: less_Suc_eq)
    then show ?thesis using False by simp
  next
    case True
    show ?thesis
    proof (cases "i = k")
      case False
      then have "add_graves_below (t(k := GRAVESTONE)) k i \<noteq> 0"
        using "2.prems" True by (intro "2.IH") (auto simp: less_Suc_eq)
      then show ?thesis using True by simp
    qed (use True in \<open>simp add: add_graves_below_above\<close>)
  qed
qed simp

lemma graves_ok_add:
  assumes "graves_ok t" "v \<noteq> 0" "idx < CSTACK_PAGE"
  shows "graves_ok (add_graves_below (t(idx := v)) idx)"
  unfolding graves_ok_def
proof (intro allI impI)
  fix i j
  assume ij: "i < j \<and> j < CSTACK_PAGE \<and> add_graves_below (t(idx := v)) idx j \<noteq> 0"
  show "add_graves_below (t(idx := v)) idx i \<noteq> 0"
  proof (cases "i < idx")
    case True
    have "(t(idx := v)) a \<noteq> 0" if "a < b" "b < idx" "(t(idx := v)) b \<noteq> 0" for a b
      using that assms(1,3) by (simp add: graves_okD [OF assms(1) that(1)])
    then show ?thesis by (rule add_graves_below_nonzero [OF _ True])
  next
    case False
    then have "add_graves_below (t(idx := v)) idx i = (t(idx := v)) i"
      "add_graves_below (t(idx := v)) idx j = t j"
      using ij by (simp_all add: add_graves_below_above)
    then show ?thesis using ij assms by (auto simp: graves_ok_def)
  qed
qed

lemma graves_ok_grave: "graves_ok t \<Longrightarrow> t idx \<noteq> 0 \<Longrightarrow> v \<noteq> 0 \<Longrightarrow> graves_ok (t(idx := v))"
  by (auto simp: graves_ok_def)

text \<open>Clearing gravestones downwards from below an empty entry keeps the invariant.\<close>

lemma remove_graves_from_above: "idx < i \<Longrightarrow> remove_graves_from t idx i = t i"
proof (induction t idx rule: remove_graves_from.induct)
  case (1 t idx)
  then show ?case by (cases idx) (auto simp: remove_graves_from.simps [of t] fun_upd_def)
qed

lemma graves_ok_remove:
  assumes "graves_ok t" "\<forall>j. idx < j \<and> j < CSTACK_PAGE \<longrightarrow> t j = 0"
  shows "graves_ok (remove_graves_from t idx)"
  using assms
proof (induction t idx rule: remove_graves_from.induct)
  case (1 t idx)
  show ?case
  proof (cases "t idx = GRAVESTONE")
    case True
    have ok: "graves_ok (t(idx := 0))" using "1.prems" by (auto simp: graves_ok_def)
    show ?thesis
    proof (cases idx)
      case 0
      then show ?thesis using True ok by (simp add: remove_graves_from.simps [of t] fun_upd_def)
    next
      case (Suc k)
      have "graves_ok (remove_graves_from (t(idx := 0)) k)"
        by (rule "1.IH" [OF _ Suc]) (use True Suc ok "1.prems" in \<open>auto simp: fun_upd_def\<close>)
      then show ?thesis using True Suc by (simp add: remove_graves_from.simps [of t])
    qed
  qed (use "1.prems" in \<open>simp add: remove_graves_from.simps [of t]\<close>)
qed

lemma clone_copy_spec:
  assumes "clone_copy r b i = (b', k)" "i \<le> CSTACK_PAGE"
  shows "i \<le> k \<and> k \<le> CSTACK_PAGE \<and> (\<forall>j. b' j = (if i \<le> j \<and> j < k then r j else b j)) \<and>
    (k < CSTACK_PAGE \<longrightarrow> r k = 0)"
  using assms
proof (induction r b i arbitrary: b' k rule: clone_copy.induct)
  case (1 r b i)
  show ?case
  proof (cases "i < CSTACK_PAGE \<and> r i \<noteq> 0")
    case True
    then have "clone_copy r (b(i := r i)) (i + 1) = (b', k)"
      using "1.prems"(1) by (simp add: clone_copy.simps [of r b])
    from "1.IH" [OF _ _ this] True show ?thesis by auto
  next
    case False
    then show ?thesis using "1.prems" by (auto simp: clone_copy.simps [of r b] split: if_splits)
  qed
qed

lemma clone_clear_spec:
  assumes "\<And>x y. i \<le> x \<Longrightarrow> x < y \<Longrightarrow> y < CSTACK_PAGE \<Longrightarrow> b y \<noteq> 0 \<Longrightarrow> b x \<noteq> 0"
  shows "clone_clear b i j = (if i \<le> j \<and> j < CSTACK_PAGE then 0 else b j)"
  using assms
proof (induction b i rule: clone_clear.induct)
  case (1 b i)
  show ?case
  proof (cases "i < CSTACK_PAGE \<and> b i \<noteq> 0")
    case True
    then have "clone_clear b i = clone_clear (b(i := 0)) (i + 1)" by (simp add: clone_clear.simps [of b])
    moreover have "clone_clear (b(i := 0)) (i + 1) j = (if i + 1 \<le> j \<and> j < CSTACK_PAGE then 0 else (b(i := 0)) j)"
      using True "1.prems" by (intro "1.IH") auto
    ultimately show ?thesis using True by auto
  next
    case False
    have "b j = 0" if "i \<le> j" "j < CSTACK_PAGE" for j
      using that False "1.prems" [of i j] by (cases "i = j") auto
    then show ?thesis using False by (auto simp: clone_clear.simps [of b])
  qed
qed

lemma clone_uvmem_entries:
  assumes "graves_ok (tables s r)" "graves_ok (tables s b)" "r \<noteq> b"
  shows "tables (clone_uvmem s r b) b i = (if i < CSTACK_PAGE then tables s r i else tables s b i)"
proof -
  obtain t k where c: "clone_copy (tables s r) (tables s b) 0 = (t, k)" by fastforce
  note spec = clone_copy_spec [OF c, simplified]
  have "clone_clear t k i = (if k \<le> i \<and> i < CSTACK_PAGE then 0 else t i)"
    by (rule clone_clear_spec) (use spec assms(2) in \<open>auto simp: graves_ok_def\<close>)
  moreover have "tables s r i = 0" if "k \<le> i" "i < CSTACK_PAGE"
    using that spec graves_okD [OF assms(1), of k i] by (cases "i = k") auto
  ultimately show ?thesis using spec by (auto simp: clone_uvmem_def c)
qed

section \<open>Properties\<close>

text \<open>(C20) A page table entry gives back what it was built from: the flags, and
  the address of any page, for the page shift of riscv64.\<close>

theorem pte_roundtrip:
  assumes "page_shift m = 12" "a AND 0xfff = 0"
  shows "pte_addr m (to_pte m (pa a) (vp_flags f)) = a \<and>
    pte_flags (to_pte m (pa a) (vp_flags f)) = vp_flags f"
  using pte_addr_to_pte [OF assms] pte_flags_to_pte by blast

theorem pte_roundtrip_witness:
  "\<exists>m. page_shift m = 12 \<and> pte_addr m (to_pte m (pa 0xffffffc080001000) (vp_flags 0xcf)) = 0xffffffc080001000"
proof -
  obtain m :: mem_state where m: "page_shift m = 12" using sv39_init_mem by (auto simp: sv39_def)
  have "pte_addr m (to_pte m (pa 0xffffffc080001000) (vp_flags 0xcf)) = 0xffffffc080001000"
    using pte_roundtrip [OF m, of "0xffffffc080001000" "0xcf"] by simp
  with m show ?thesis by blast
qed

text \<open>(C19) Unmapping keeps the rule the copying of address spaces relies on:
  below a used entry of the user part of a top table no entry is empty.\<close>

lemma find_vmem_from_used:
  "find_vmem_from m t b v order = Some (p, k) \<Longrightarrow> \<not> unused (t (fst p) (snd p)) \<and> is_leaf (t (fst p) (snd p))"
proof (induction m t b v order rule: find_vmem_from.induct)
  case (1 m t b v order)
  show ?case
    using "1.prems" "1.IH" [OF refl refl]
    by (cases order) (auto simp: find_vmem_from.simps [of m t b] Let_def split: if_splits)
qed

lemma graves_ok_tail: "graves_ok t \<Longrightarrow> t (Suc idx) = 0 \<Longrightarrow> idx < j \<Longrightarrow> j < CSTACK_PAGE \<Longrightarrow> t j = 0"
  using graves_okD [of t "Suc idx" j] by (cases "j = Suc idx") auto

lemma remove_graves_keeps:
  assumes "graves_ok (tables s b)"
  shows "graves_ok (tables (remove_graves s b idx) b)"
  using assms graves_ok_tail [OF assms, of idx]
  by (auto simp: remove_graves_def intro!: graves_ok_remove)

theorem unmap_keeps_graves:
  assumes "graves_ok (tables s root)"
  shows "graves_ok (tables (snd (unmap_vpage s root vaddr)) root)"
proof (cases "find_vmem s root vaddr")
  case (Some pk)
  obtain p k where pk: "pk = (p, k)" by fastforce
  then have "tables s (fst p) (snd p) \<noteq> 0"
    using Some find_vmem_from_used [of "vgeom s" "tables s" root vaddr _ p k] by (auto simp: find_vmem_def unused_def)
  then have "graves_ok (tables (set_pte s p GRAVESTONE) root)"
    using assms by (cases "fst p = root") (auto simp: set_pte_def intro!: graves_ok_grave)
  then show ?thesis using Some pk by (simp add: unmap_vpage_def remove_graves_keeps)
qed (simp add: unmap_vpage_def assms)

definition vm_example :: vm_state where
  "vm_example = \<lparr>phys = pmem_example, tables = (\<lambda>b i. if i = 0 then GRAVESTONE else if i = 1 then 0x21 else 0),
     kvmem = 0, rpc_pages = 512, satp = 0\<rparr>"

theorem unmap_keeps_graves_witness:
  "graves_ok (tables vm_example 0x2000) \<and> graves_ok (tables (snd (unmap_vpage vm_example 0x2000 0x40000000)) 0x2000)"
proof -
  have "graves_ok (tables vm_example 0x2000)" by (auto simp: graves_ok_def vm_example_def split: if_splits)
  then show ?thesis using unmap_keeps_graves by blast
qed

text \<open>(C18) \<^verbatim>\<open>clone_uvmem\<close> stops at the first empty entry of the source, and then at
  the first empty one of the destination; under the gravestone rule that still makes the
  user part of the destination equal to that of the source, and changes nothing else.\<close>

theorem clone_uvmem_copies:
  assumes "graves_ok (tables s r)" "graves_ok (tables s b)" "r \<noteq> b"
  shows "(\<forall>i < CSTACK_PAGE. tables (clone_uvmem s r b) b i = tables s r i) \<and>
    (\<forall>i \<ge> CSTACK_PAGE. tables (clone_uvmem s r b) b i = tables s b i) \<and>
    (\<forall>c. c \<noteq> b \<longrightarrow> tables (clone_uvmem s r b) c = tables s c)"
  using clone_uvmem_entries [OF assms] by (auto simp: clone_uvmem_def split: prod.splits)

theorem clone_uvmem_copies_witness:
  "tables (clone_uvmem (vm_example\<lparr>tables := (tables vm_example)(0x3000 := (\<lambda>_. 0))\<rparr>) 0x2000 0x3000) 0x3000 1 = 0x21"
proof -
  let ?s = "vm_example\<lparr>tables := (tables vm_example)(0x3000 := (\<lambda>_. 0))\<rparr>"
  have "graves_ok (tables ?s 0x2000)" "graves_ok (tables ?s 0x3000)"
    by (auto simp: graves_ok_def vm_example_def split: if_splits)
  from clone_uvmem_copies [OF this] show ?thesis by (simp add: CSTACK_PAGE_def vm_example_def)
qed

end
