(* ===== verification/Strings.thy ===== *)
theory Strings
  imports Mem "HOL-Library.Monad_Syntax" "HOL-Library.Sublist"
begin

text \<open>
  The string and memory functions of \<^verbatim>\<open>src/string.c\<close> over a byte memory. On riscv64 \<^verbatim>\<open>char\<close> is
  unsigned, so characters are bytes; pointers are addresses that wrap, and a scan that never
  meets what it looks for is \<open>None\<close>. Counters that only run down to zero are natural
  numbers, and where the source decrements a counter once more and corrects it after the loop, the
  model keeps the value after the correction.
\<close>

type_synonym memory = "ptr \<Rightarrow> u8"

section \<open>Copying and concatenating strings\<close>

partial_function (option) copy_string :: "memory \<Rightarrow> ptr \<Rightarrow> ptr \<Rightarrow> (memory \<times> ptr) option" where
  "copy_string m s2 s1 =
     (if m s1 \<noteq> 0 then copy_string (m(s2 := m s1)) (s2 + 1) (s1 + 1) else Some (m, s2))"

fun copy_string_n :: "memory \<Rightarrow> ptr \<Rightarrow> ptr \<Rightarrow> nat \<Rightarrow> memory \<times> ptr \<times> nat" where
  "copy_string_n m s2 s1 0 = (m, s2, 0)"
| "copy_string_n m s2 s1 (Suc num) =
     (if m s1 \<noteq> 0 then copy_string_n (m(s2 := m s1)) (s2 + 1) (s1 + 1) num else (m, s2, Suc num))"

declare copy_string_n.simps [simp del]

lemma copy_string_n_simps [simp]:
  "copy_string_n m s2 s1 0 = (m, s2, 0)"
  "copy_string_n m s2 s1 (Suc num) =
     (if m s1 \<noteq> 0 then copy_string_n (m(s2 := m s1)) (s2 + 1) (s1 + 1) num else (m, s2, Suc num))"
  by (simp_all add: copy_string_n.simps)

fun zero_bytes :: "memory \<Rightarrow> ptr \<Rightarrow> nat \<Rightarrow> memory" where
  "zero_bytes m s2 0 = m"
| "zero_bytes m s2 (Suc num) = zero_bytes (m(s2 := 0)) (s2 + 1) num"

partial_function (option) strlen_scan :: "memory \<Rightarrow> ptr \<Rightarrow> ptr option" where
  "strlen_scan m s1 = (if m s1 \<noteq> 0 then strlen_scan m (s1 + 1) else Some (s1 + 1))"

definition strlen :: "memory \<Rightarrow> ptr \<Rightarrow> u64 option" where
  "strlen m str = map_option (\<lambda>s1. s1 - str - 1) (strlen_scan m str)"

fun strnlen_scan :: "memory \<Rightarrow> ptr \<Rightarrow> nat \<Rightarrow> ptr" where
  "strnlen_scan m s1 0 = s1"
| "strnlen_scan m s1 (Suc num) = (if m s1 \<noteq> 0 then strnlen_scan m (s1 + 1) num else s1 + 1)"

definition strnlen :: "memory \<Rightarrow> ptr \<Rightarrow> u64 \<Rightarrow> u64" where
  "strnlen m str num = strnlen_scan m str (unat num) - str - 1"

definition strcpy :: "memory \<Rightarrow> ptr \<Rightarrow> ptr \<Rightarrow> (ptr \<times> memory) option" where
  "strcpy m dst src = map_option (\<lambda>(m, _). (dst, m)) (copy_string m dst src)"

definition strncpy :: "memory \<Rightarrow> ptr \<Rightarrow> ptr \<Rightarrow> u64 \<Rightarrow> ptr \<times> memory" where
  "strncpy m dst src num =
     (let (m, s2, num) = copy_string_n m dst src (unat num) in (dst, zero_bytes m s2 num))"

definition strcat :: "memory \<Rightarrow> ptr \<Rightarrow> ptr \<Rightarrow> (ptr \<times> memory) option" where
  "strcat m dst src =
     Option.bind (strlen m src) (\<lambda>l1.
       map_option (\<lambda>(m, s2). (dst, m(s2 := 0))) (copy_string m (dst + l1) src))"

definition strncat :: "memory \<Rightarrow> ptr \<Rightarrow> ptr \<Rightarrow> u64 \<Rightarrow> (ptr \<times> memory) option" where
  "strncat m dst src num =
     map_option (\<lambda>l1. let (m, s2, _) = copy_string_n m (dst + l1) src (unat num) in (dst, m(s2 := 0)))
       (strlen m src)"

section \<open>Comparing\<close>

text \<open>The loops leave both pointers one behind the last pair compared; the result is the difference there.\<close>

partial_function (option) strcmp_scan :: "memory \<Rightarrow> ptr \<Rightarrow> ptr \<Rightarrow> (ptr \<times> ptr) option" where
  "strcmp_scan m s1 s2 =
     (if m s1 = m s2 \<and> m (s1 + 1) \<noteq> 0 \<and> m (s2 + 1) \<noteq> 0 then strcmp_scan m (s1 + 1) (s2 + 1)
      else Some (s1 + 1, s2 + 1))"

definition byte_diff :: "memory \<Rightarrow> ptr \<Rightarrow> ptr \<Rightarrow> int" where
  "byte_diff m s1 s2 = uint (m (s1 - 1)) - uint (m (s2 - 1))"

definition strcmp :: "memory \<Rightarrow> ptr \<Rightarrow> ptr \<Rightarrow> int option" where
  "strcmp m str1 str2 = map_option (\<lambda>(s1, s2). byte_diff m s1 s2) (strcmp_scan m str1 str2)"

partial_function (option) strncmp_scan :: "memory \<Rightarrow> ptr \<Rightarrow> ptr \<Rightarrow> u64 \<Rightarrow> (ptr \<times> ptr) option" where
  "strncmp_scan m s1 s2 num =
     (if m s1 = m s2 \<and> m (s1 + 1) \<noteq> 0 \<and> m (s2 + 1) \<noteq> 0 \<and> num - 1 \<noteq> 0
      then strncmp_scan m (s1 + 1) (s2 + 1) (num - 1)
      else Some (s1 + 1, s2 + 1))"

definition strncmp :: "memory \<Rightarrow> ptr \<Rightarrow> ptr \<Rightarrow> u64 \<Rightarrow> int option" where
  "strncmp m str1 str2 num = map_option (\<lambda>(s1, s2). byte_diff m s1 s2) (strncmp_scan m str1 str2 num)"

partial_function (option) memcmp_scan :: "memory \<Rightarrow> ptr \<Rightarrow> ptr \<Rightarrow> u64 \<Rightarrow> (ptr \<times> ptr) option" where
  "memcmp_scan m p1 p2 num =
     (if m p1 = m p2 \<and> num - 1 \<noteq> 0 then memcmp_scan m (p1 + 1) (p2 + 1) (num - 1)
      else Some (p1 + 1, p2 + 1))"

definition memcmp :: "memory \<Rightarrow> ptr \<Rightarrow> ptr \<Rightarrow> u64 \<Rightarrow> int option" where
  "memcmp m ptr1 ptr2 num = map_option (\<lambda>(p1, p2). byte_diff m p1 p2) (memcmp_scan m ptr1 ptr2 num)"

section \<open>Searching\<close>

text \<open>
  A search runs a signed counter down and fails when it passed zero. \<open>hit\<close> says which bytes
  end the search.
\<close>

partial_function (option) scan_for :: "(u8 \<Rightarrow> bool) \<Rightarrow> u64 \<Rightarrow> memory \<Rightarrow> ptr \<Rightarrow> int \<Rightarrow> (ptr \<times> int) option" where
  "scan_for hit step m s1 num =
     (if num \<noteq> 0 then (if \<not> hit (m s1) then scan_for hit step m (s1 + step) (num - 1) else Some (s1 + step, num - 1))
      else Some (s1, num - 1))"

definition strchr :: "memory \<Rightarrow> ptr \<Rightarrow> int \<Rightarrow> ptr option" where
  "strchr m str chr =
     Option.bind (strlen m str) (\<lambda>len.
       map_option (\<lambda>(s1, num). if num < 0 then NULL else s1 - 1)
         (scan_for (\<lambda>c. uint c = chr) 1 m str (sint len)))"

definition strrchr :: "memory \<Rightarrow> ptr \<Rightarrow> int \<Rightarrow> ptr option" where
  "strrchr m str chr =
     Option.bind (strlen m str) (\<lambda>len.
       map_option (\<lambda>(s1, num). if num < 0 then NULL else s1 + 1)
         (scan_for (\<lambda>c. uint c = chr) (- 1) m (str + len - 1) (sint len)))"

definition memchr :: "memory \<Rightarrow> ptr \<Rightarrow> int \<Rightarrow> u64 \<Rightarrow> ptr option" where
  "memchr m p val num =
     map_option (\<lambda>(p1, n). if n < 0 then NULL else p1 - 1)
       (scan_for (\<lambda>c. c = word_of_int val) 1 m p (sint num))"

text \<open>
  The tables of \<open>strcspn\<close> and \<open>strspn\<close>: the loop advances before it enters the character,
  so it leaves out the first one and enters the terminator.
\<close>

partial_function (option) delim_table :: "memory \<Rightarrow> ptr \<Rightarrow> (u8 \<Rightarrow> bool) \<Rightarrow> (u8 \<Rightarrow> bool) option" where
  "delim_table m t1 table =
     (if m t1 \<noteq> 0 then delim_table m (t1 + 1) (table(m (t1 + 1) := True)) else Some table)"

partial_function (option) span_scan :: "(u8 \<Rightarrow> bool) \<Rightarrow> memory \<Rightarrow> ptr \<Rightarrow> ptr option" where
  "span_scan stop m s2 = (if stop (m s2) then Some (s2 + 1) else span_scan stop m (s2 + 1))"

definition strcspn :: "memory \<Rightarrow> ptr \<Rightarrow> ptr \<Rightarrow> u64 option" where
  "strcspn m str1 str2 =
     Option.bind (delim_table m str2 (\<lambda>_. False)) (\<lambda>table.
       map_option (\<lambda>s2. s2 - str1 - 1) (span_scan table m str1))"

definition strspn :: "memory \<Rightarrow> ptr \<Rightarrow> ptr \<Rightarrow> u64 option" where
  "strspn m str1 str2 =
     Option.bind (delim_table m str2 (\<lambda>_. False)) (\<lambda>table.
       map_option (\<lambda>s2. s2 - str1 - 1) (span_scan (\<lambda>c. \<not> table c) m str1))"

definition strpbrk :: "memory \<Rightarrow> ptr \<Rightarrow> ptr \<Rightarrow> ptr option" where
  "strpbrk m str1 str2 =
     map_option (\<lambda>i. if i = 0 then NULL else str1 + i) (strcspn m str1 str2)"

text \<open>\<open>cont\<close> is the static variable of \<open>strtok\<close>; the result is the token and its new value.\<close>

definition strtok :: "memory \<Rightarrow> ptr \<Rightarrow> ptr \<Rightarrow> ptr \<Rightarrow> (ptr \<times> ptr) option" where
  "strtok m cont str delims =
     (let s1 = (if str = NULL then cont else str)
      in if s1 = NULL then Some (NULL, cont)
         else map_option (\<lambda>s1. (s1, if s1 = NULL then NULL else s1 + 1)) (strpbrk m s1 delims))"

text \<open>The skip table of \<open>strstr\<close> holds characters.\<close>

definition skip_table :: "memory \<Rightarrow> ptr \<Rightarrow> u64 \<Rightarrow> u8 \<Rightarrow> u8" where
  "skip_table m needle pl =
     fold (\<lambda>i table. table(m (needle + of_nat i) := ucast (pl - of_nat i - 1))) [0..<unat (pl - 1)]
       (\<lambda>_. ucast pl)"

partial_function (option) strstr_scan :: "memory \<Rightarrow> (u8 \<Rightarrow> u8) \<Rightarrow> ptr \<Rightarrow> ptr \<Rightarrow> u64 \<Rightarrow> u64 \<Rightarrow> u64 \<Rightarrow> ptr option" where
  "strstr_scan m table haystack needle sl pl skip =
     (if sl - skip \<ge> pl then
        Option.bind (memcmp m (haystack + skip) needle pl) (\<lambda>d.
          if d = 0 then Some (haystack + skip)
          else strstr_scan m table haystack needle sl pl (skip + ucast (table (m (haystack + skip + pl - 1)))))
      else Some NULL)"

definition strstr :: "memory \<Rightarrow> ptr \<Rightarrow> ptr \<Rightarrow> ptr option" where
  "strstr m str1 str2 =
     Option.bind (strlen m str1) (\<lambda>sl.
       Option.bind (strlen m str2) (\<lambda>pl.
         strstr_scan m (skip_table m str2 pl) str1 str2 sl pl 0))"

section \<open>Memory blocks\<close>

text \<open>A \<^verbatim>\<open>long\<close> in memory is eight bytes, least significant first.\<close>

definition load_long :: "memory \<Rightarrow> ptr \<Rightarrow> u64" where
  "load_long m p =
     ucast (m p) OR push_bit 8 (ucast (m (p + 1))) OR push_bit 16 (ucast (m (p + 2))) OR
     push_bit 24 (ucast (m (p + 3))) OR push_bit 32 (ucast (m (p + 4))) OR push_bit 40 (ucast (m (p + 5))) OR
     push_bit 48 (ucast (m (p + 6))) OR push_bit 56 (ucast (m (p + 7)))"

definition store_long :: "memory \<Rightarrow> ptr \<Rightarrow> u64 \<Rightarrow> memory" where
  "store_long m p v = (\<lambda>a. if a - p < 8 then ucast (drop_bit (8 * unat (a - p)) v) else m a)"

definition MAGIC_NUMBER :: nat where "MAGIC_NUMBER = 8"

definition copy_long :: "memory \<Rightarrow> ptr \<Rightarrow> ptr \<Rightarrow> nat \<Rightarrow> memory" where
  "copy_long m dst src i = store_long m (dst + 8 * of_nat i) (load_long m (src + 8 * of_nat i))"

text \<open>The loops over \<open>count\<close> longs, eight to a round.\<close>

definition copy_round :: "memory \<Rightarrow> ptr \<Rightarrow> ptr \<Rightarrow> nat \<Rightarrow> memory" where
  "copy_round m dst src i =
     (let m = copy_long m dst src (i + 0);
          m = copy_long m dst src (i + 1);
          m = copy_long m dst src (i + 2);
          m = copy_long m dst src (i + 3);
          m = copy_long m dst src (i + 4);
          m = copy_long m dst src (i + 5);
          m = copy_long m dst src (i + 6);
          m = copy_long m dst src (i + 7)
      in m)"

function aligned_memcpy_from :: "memory \<Rightarrow> ptr \<Rightarrow> ptr \<Rightarrow> nat \<Rightarrow> nat \<Rightarrow> memory" where
  "aligned_memcpy_from m dst src count i =
     (if i < count then aligned_memcpy_from (copy_round m dst src i) dst src count (i + MAGIC_NUMBER) else m)"
  by pat_completeness auto
termination
  by (relation "measure (\<lambda>(m, dst, src, count, i). count - i)") (auto simp: MAGIC_NUMBER_def)

declare aligned_memcpy_from.simps [simp del]

definition aligned_memcpy :: "memory \<Rightarrow> ptr \<Rightarrow> ptr \<Rightarrow> u64 \<Rightarrow> memory" where
  "aligned_memcpy m dst src num = aligned_memcpy_from m dst src (unat (num div 8)) 0"

text \<open>
  The pattern of \<open>__aligned_memset\<close>. The shift is one of \<^verbatim>\<open>int\<close>, so counts of 32 and more are
  outside of what C defines; the instruction for it takes the count modulo 32, and its result is extended with its sign.
\<close>

definition int_shl :: "32 word \<Rightarrow> nat \<Rightarrow> 32 word" where
  "int_shl v n = push_bit (n mod 32) v"

definition memset_bits :: "u8 \<Rightarrow> u64" where
  "memset_bits value = fold (\<lambda>i bits. bits OR scast (int_shl (ucast value) (i * 8))) [0..<8] 0"

definition set_round :: "memory \<Rightarrow> ptr \<Rightarrow> u64 \<Rightarrow> nat \<Rightarrow> memory" where
  "set_round m p bits i =
     (let m = store_long m (p + 8 * of_nat (i + 0)) bits;
          m = store_long m (p + 8 * of_nat (i + 1)) bits;
          m = store_long m (p + 8 * of_nat (i + 2)) bits;
          m = store_long m (p + 8 * of_nat (i + 3)) bits;
          m = store_long m (p + 8 * of_nat (i + 4)) bits;
          m = store_long m (p + 8 * of_nat (i + 5)) bits;
          m = store_long m (p + 8 * of_nat (i + 6)) bits;
          m = store_long m (p + 8 * of_nat (i + 7)) bits
      in m)"

function aligned_memset_from :: "memory \<Rightarrow> ptr \<Rightarrow> u64 \<Rightarrow> nat \<Rightarrow> nat \<Rightarrow> memory" where
  "aligned_memset_from m p bits count i =
     (if i < count then aligned_memset_from (set_round m p bits i) p bits count (i + MAGIC_NUMBER) else m)"
  by pat_completeness auto
termination
  by (relation "measure (\<lambda>(m, p, bits, count, i). count - i)") (auto simp: MAGIC_NUMBER_def)

declare aligned_memset_from.simps [simp del]

definition aligned_memset :: "memory \<Rightarrow> ptr \<Rightarrow> 32 word \<Rightarrow> u64 \<Rightarrow> memory" where
  "aligned_memset m p value num = aligned_memset_from m p (memset_bits (ucast value)) (unat (num div 8)) 0"

fun copy_bytes :: "memory \<Rightarrow> ptr \<Rightarrow> ptr \<Rightarrow> nat \<Rightarrow> memory" where
  "copy_bytes m m2 m1 0 = m"
| "copy_bytes m m2 m1 (Suc num) = copy_bytes (m(m2 := m m1)) (m2 + 1) (m1 + 1) num"

definition memcpy :: "memory \<Rightarrow> ptr \<Rightarrow> ptr \<Rightarrow> u64 \<Rightarrow> memory" where
  "memcpy m dst src num =
     (if is_aligned dst (8 * of_nat MAGIC_NUMBER) \<and> is_aligned src (8 * of_nat MAGIC_NUMBER) \<and>
         is_aligned num (8 * of_nat MAGIC_NUMBER)
      then aligned_memcpy m dst src num
      else copy_bytes m dst src (unat num))"

fun set_bytes :: "memory \<Rightarrow> ptr \<Rightarrow> u8 \<Rightarrow> nat \<Rightarrow> memory" where
  "set_bytes m p c 0 = m"
| "set_bytes m p c (Suc num) = set_bytes (m(p := c)) (p + 1) c num"

definition memset :: "memory \<Rightarrow> ptr \<Rightarrow> 32 word \<Rightarrow> u64 \<Rightarrow> memory" where
  "memset m p value num =
     (if is_aligned p (8 * of_nat MAGIC_NUMBER) \<and> is_aligned num (8 * of_nat MAGIC_NUMBER)
      then aligned_memset m p value num
      else set_bytes m p (ucast value) (unat num))"

fun copy_bytes_down :: "memory \<Rightarrow> ptr \<Rightarrow> ptr \<Rightarrow> nat \<Rightarrow> memory" where
  "copy_bytes_down m m2 m1 0 = m"
| "copy_bytes_down m m2 m1 (Suc num) = copy_bytes_down (m(m2 - 1 := m (m1 - 1))) (m2 - 1) (m1 - 1) num"

definition memmove :: "memory \<Rightarrow> ptr \<Rightarrow> ptr \<Rightarrow> u64 \<Rightarrow> memory" where
  "memmove m dst src num = copy_bytes_down m (dst + num) (src + num) (unat num)"

section \<open>Numbers\<close>

definition hexval :: "u8 \<Rightarrow> int" where
  "hexval c =
     (if 0x30 \<le> c \<and> c \<le> 0x39 then uint c - 0x30
      else if 0x61 \<le> c \<and> c \<le> 0x66 then 10 + uint c - 0x61
      else if 0x41 \<le> c \<and> c \<le> 0x46 then 10 + uint c - 0x41
      else -1)"

definition decval :: "u8 \<Rightarrow> int" where
  "decval c = (if 0x30 \<le> c \<and> c \<le> 0x39 then uint c - 0x30 else -1)"

definition octval :: "u8 \<Rightarrow> int" where
  "octval c = (if 0x30 \<le> c \<and> c \<le> 0x37 then uint c - 0x30 else -1)"

partial_function (option) digits_from :: "(u8 \<Rightarrow> int) \<Rightarrow> u64 \<Rightarrow> memory \<Rightarrow> ptr \<Rightarrow> u64 \<Rightarrow> u64 option" where
  "digits_from val base m s res =
     (if val (m s) \<noteq> -1 then digits_from val base m (s + 1) (res * base + word_of_int (val (m s)))
      else Some res)"

definition hexuintptr :: "memory \<Rightarrow> ptr \<Rightarrow> u64 option" where
  "hexuintptr m s = digits_from hexval 16 m s 0"

definition decuintptr :: "memory \<Rightarrow> ptr \<Rightarrow> u64 option" where
  "decuintptr m s = digits_from decval 10 m s 0"

definition octuintptr :: "memory \<Rightarrow> ptr \<Rightarrow> u64 option" where
  "octuintptr m s = digits_from octval 8 m s 0"

definition strtouintptr :: "memory \<Rightarrow> ptr \<Rightarrow> u64 option" where
  "strtouintptr m s =
     (if s = NULL then Some 0
      else if m s = 0 then Some 0
      else if m s = 0x30 then
        (if m (s + 1) = 0 then Some 0
         else if m (s + 1) = 0x78 \<or> m (s + 1) = 0x58 then hexuintptr m (s + 2)
         else octuintptr m (s + 1))
      else if m s = 0x2d then map_option (\<lambda>x. - x) (decuintptr m (s + 1))
      else if m s = 0x2b then decuintptr m (s + 1)
      else decuintptr m s)"

section \<open>Strings in memory\<close>

text \<open>The characters of a terminated string, and of a block of memory.\<close>

fun cstr :: "memory \<Rightarrow> ptr \<Rightarrow> u8 list \<Rightarrow> bool" where
  "cstr m p [] \<longleftrightarrow> m p = 0"
| "cstr m p (x # xs) \<longleftrightarrow> m p = x \<and> x \<noteq> 0 \<and> cstr m (p + 1) xs"

declare cstr.simps [simp del]

lemma cstr_simps [simp]:
  "cstr m p [] \<longleftrightarrow> m p = 0" "cstr m p (x # xs) \<longleftrightarrow> m p = x \<and> x \<noteq> 0 \<and> cstr m (p + 1) xs"
  by (simp_all add: cstr.simps)

lemma cstr_nth: "cstr m p xs \<Longrightarrow> i < length xs \<Longrightarrow> m (p + of_nat i) = xs ! i \<and> xs ! i \<noteq> 0"
proof (induction xs arbitrary: p i)
  case (Cons x xs)
  show ?case
  proof (cases i)
    case (Suc k)
    then show ?thesis using Cons.IH [of "p + 1" k] Cons.prems by (simp add: add.assoc)
  qed (use Cons.prems in auto)
qed simp

lemma cstr_end: "cstr m p xs \<Longrightarrow> m (p + of_nat (length xs)) = 0"
proof (induction xs arbitrary: p)
  case (Cons x xs)
  then show ?case using Cons.IH [of "p + 1"] by (simp add: add.assoc)
qed simp

lemma cstr_length: "cstr m p xs \<Longrightarrow> length xs < 2 ^ 64"
proof (rule ccontr)
  assume s: "cstr m p xs" and "\<not> length xs < 2 ^ 64"
  moreover define k where "k = unat (of_nat (length xs) :: u64)"
  ultimately have "k < length xs" using unat_u64_less [of "of_nat (length xs)"] by simp
  then have "m (p + of_nat k) \<noteq> 0" using cstr_nth [OF s] by simp
  then show False using cstr_end [OF s] by (simp add: k_def)
qed

lemma strlen_scan_cstr: "cstr m p xs \<Longrightarrow> strlen_scan m p = Some (p + of_nat (length xs) + 1)"
  by (induction xs arbitrary: p) (simp_all add: strlen_scan.simps [of m] add.assoc)

lemma strlen_cstr: "cstr m p xs \<Longrightarrow> strlen m p = Some (of_nat (length xs))"
  by (simp add: strlen_def strlen_scan_cstr)

section \<open>Blocks\<close>

lemma offset_Suc:
  assumes "(a::ptr) \<noteq> p"
  shows "unat (a - p) = Suc (unat (a - (p + 1)))"
proof -
  have "a - (p + 1) = (a - p) - 1" by simp
  moreover have "a - p \<noteq> 0" using assms by simp
  ultimately have "unat (a - (p + 1)) = unat (a - p) - 1" "0 < unat (a - p)"
    using unat_minus_one [of "a - p"] unat_gt_0 [of "a - p"] by (simp_all only: not_False_eq_True)
  then show ?thesis by simp
qed

lemma offset_last: "unat ((p::ptr) - (p + 1)) = 2 ^ 64 - 1"
proof -
  have "p - (p + 1) = - 1" "unat (- 1 :: ptr) = 2 ^ 64 - 1" by (simp, simp add: unsigned_minus_1_eq_mask mask_eq_exp_minus_1)
  then show ?thesis by (simp only:)
qed

lemma copy_bytes_at:
  assumes "n \<le> 2 ^ 64" "\<And>i. i < n \<Longrightarrow> n \<le> unat (src + of_nat i - dst)"
  shows "copy_bytes m dst src n a = (if unat (a - dst) < n then m (src + (a - dst)) else m a)"
  using assms
proof (induction n arbitrary: m dst src)
  case (Suc n)
  have src: "src + of_nat i \<noteq> dst" if "i < Suc n" for i using Suc.prems(2) [OF that] by auto
  have IH: "copy_bytes (m(dst := m src)) (dst + 1) (src + 1) n a =
    (if unat (a - (dst + 1)) < n then (m(dst := m src)) (src + 1 + (a - (dst + 1))) else (m(dst := m src)) a)"
  proof (rule Suc.IH)
    fix i assume "i < n"
    then have "Suc n \<le> unat (src + of_nat (Suc i) - dst)" by (intro Suc.prems(2)) simp
    then show "n \<le> unat (src + 1 + of_nat i - (dst + 1))"
      using offset_Suc [of "src + of_nat (Suc i)" dst] by (cases "src + of_nat (Suc i) = dst") (auto simp: algebra_simps)
  qed (use Suc.prems in simp)
  show ?case
  proof (cases "a = dst")
    case True
    then show ?thesis using IH Suc.prems(1) by simp
  next
    case False
    have "src + (a - dst) \<noteq> dst" if "unat (a - dst) < Suc n"
      using src [OF that] by simp
    then show ?thesis using False IH offset_Suc [OF False] by (simp add: add.commute add_diff_eq)
  qed
qed simp

lemma set_bytes_at:
  "n \<le> 2 ^ 64 \<Longrightarrow> set_bytes m p c n a = (if unat (a - p) < n then c else m a)"
proof (induction n arbitrary: m p)
  case (Suc n)
  then show ?case using offset_Suc [of a p] by (cases "a = p") auto
qed simp

lemma zero_bytes_set: "zero_bytes m p n = set_bytes m p 0 n"
  by (induction n arbitrary: m p) simp_all

text \<open>A long stored and loaded byte by byte.\<close>

lemma load_long_byte:
  assumes "k < 8"
  shows "ucast (drop_bit (8 * k) (load_long m p)) = m (p + of_nat k)"
proof (rule bit_word_eqI)
  fix n assume n: "n < LENGTH(8)"
  consider "k = 0" | "k = 1" | "k = 2" | "k = 3" | "k = 4" | "k = 5" | "k = 6" | "k = 7" using assms by linarith
  then show "bit (ucast (drop_bit (8 * k) (load_long m p)) :: u8) n = bit (m (p + of_nat k)) n"
    using n by cases (auto simp: load_long_def bit_simps dest: bit_imp_le_length)
qed

lemma copy_long_at:
  "copy_long m dst src i a =
     (if unat (a - (dst + 8 * of_nat i)) < 8 then m (src + (a - dst)) else m a)"
proof -
  let ?k = "unat (a - (dst + 8 * of_nat i))"
  have "(8 :: u64) * of_nat i + of_nat ?k = a - dst" by simp
  then show ?thesis
    using load_long_byte [of ?k m "src + 8 * of_nat i"]
    by (simp add: copy_long_def store_long_def word_less_nat_alt add.assoc)
qed

lemma offset_tail:
  assumes "k \<le> n" "n \<le> 2 ^ 64" "k < 2 ^ 64"
  shows "unat ((a::ptr) - (p + of_nat k)) < n - k \<longleftrightarrow> k \<le> unat (a - p) \<and> unat (a - p) < n"
proof -
  have k: "unat (of_nat k :: u64) = k" using assms(3) by (simp add: unat_of_nat)
  have eq: "a - (p + of_nat k) = (a - p) - of_nat k" by simp
  show ?thesis
  proof (cases "k \<le> unat (a - p)")
    case True
    then have "unat ((a - p) - of_nat k) = unat (a - p) - k"
      using k by (simp add: unat_sub word_le_nat_alt)
    then show ?thesis unfolding eq using True by auto
  next
    case False
    then have "unat ((a - p) - of_nat k) = 2 ^ 64 + unat (a - p) - k"
      using k unat_u64_less [of "of_nat k"] by (simp add: unat_sub_if' word_le_nat_alt)
    then show ?thesis unfolding eq using False assms by auto
  qed
qed

lemma offset_split:
  assumes "8 * i + 8 \<le> 2 ^ 64"
  shows "unat (a - (p + 8 * of_nat i :: ptr)) < 8 \<longleftrightarrow> 8 * i \<le> unat (a - p) \<and> unat (a - p) < 8 * i + 8"
  using offset_tail [of "8 * i" "8 * i + 8" a p] assms by simp

lemma upt_8: "[0..<8] = [0, 1, 2, 3, 4, 5, 6, 7 :: nat]"
  by (simp add: upt_rec)

text \<open>The first \<open>k\<close> bytes of the destination hold the source, the rest is as before.\<close>

definition copied_upto :: "memory \<Rightarrow> ptr \<Rightarrow> ptr \<Rightarrow> nat \<Rightarrow> memory \<Rightarrow> bool" where
  "copied_upto m0 dst src k m \<longleftrightarrow>
     (\<forall>a. m a = (if unat (a - dst) < k then m0 (src + (a - dst)) else m0 a))"

lemma copied_upto_step:
  assumes c: "copied_upto m0 dst src (8 * i) m" and n: "8 * i + 8 \<le> n" "n \<le> 2 ^ 64"
    and sep: "\<And>j. j < n \<Longrightarrow> n \<le> unat (src + of_nat j - dst)"
  shows "copied_upto m0 dst src (8 * (i + 1)) (copy_long m dst src i)"
  unfolding copied_upto_def
proof
  fix a
  have split: "unat (a - (dst + 8 * of_nat i)) < 8 \<longleftrightarrow> 8 * i \<le> unat (a - dst) \<and> unat (a - dst) < 8 * i + 8"
    using n by (intro offset_split) simp
  have src: "m (src + (a - dst)) = m0 (src + (a - dst))" if "unat (a - dst) < 8 * i + 8"
  proof -
    have "n \<le> unat (src + (a - dst) - dst)" using sep [of "unat (a - dst)"] that n by simp
    then have "\<not> unat (src + (a - dst) - dst) < 8 * i" using n by simp
    then show ?thesis using c by (simp add: copied_upto_def)
  qed
  show "copy_long m dst src i a = (if unat (a - dst) < 8 * (i + 1) then m0 (src + (a - dst)) else m0 a)"
  proof (cases "8 * i \<le> unat (a - dst)")
    case True
    then show ?thesis using split src c by (simp add: copy_long_at copied_upto_def)
  next
    case False
    then show ?thesis using split c by (simp add: copy_long_at copied_upto_def)
  qed
qed

lemma aligned_memcpy_from_copies:
  assumes "copied_upto m0 dst src (8 * i) m" "count = i + 8 * q" "8 * count \<le> 2 ^ 64"
    and sep: "\<And>j. j < 8 * count \<Longrightarrow> 8 * count \<le> unat (src + of_nat j - dst)"
  shows "copied_upto m0 dst src (8 * count) (aligned_memcpy_from m dst src count i)"
  using assms(1,2)
proof (induction q arbitrary: m i)
  case 0
  then show ?case by (simp add: aligned_memcpy_from.simps [of m])
next
  case (Suc q)
  note prems = Suc.prems
    have le: "i + 8 \<le> count" using prems(2) by simp
    have step: "copied_upto m0 dst src (8 * (i + (k + 1))) (copy_long m' dst src (i + k))"
      if "copied_upto m0 dst src (8 * (i + k)) m'" "k < 8" for k m'
      using copied_upto_step [OF that(1), of "8 * count"] that(2) le assms(3) sep by (simp add: add.assoc)
    define ms where "ms k = fold (\<lambda>j m. copy_long m dst src (i + j)) [0..<k] m" for k
    have c: "k \<le> 8 \<Longrightarrow> copied_upto m0 dst src (8 * (i + k)) (ms k)" for k
    proof (induction k)
      case (Suc k)
      then show ?case using step [of k "ms k"] by (simp add: ms_def)
    qed (use prems(1) in \<open>simp add: ms_def\<close>)
    have "aligned_memcpy_from m dst src count i = aligned_memcpy_from (ms 8) dst src count (i + 8)"
      using le by (simp add: aligned_memcpy_from.simps [of m] copy_round_def ms_def upt_8 MAGIC_NUMBER_def)
    moreover have "copied_upto m0 dst src (8 * count) (aligned_memcpy_from (ms 8) dst src count (i + 8))"
      by (rule Suc.IH) (use c [of 8] prems(2) in simp_all)
    ultimately show ?case by simp
qed

text \<open>The same for filling with a pattern.\<close>

definition filled_upto :: "memory \<Rightarrow> ptr \<Rightarrow> u64 \<Rightarrow> nat \<Rightarrow> memory \<Rightarrow> bool" where
  "filled_upto m0 p v k m \<longleftrightarrow>
     (\<forall>a. m a = (if unat (a - p) < k then ucast (drop_bit (8 * (unat (a - p) mod 8)) v) else m0 a))"

lemma chunk_offset:
  assumes "8 * i \<le> (x::nat)" "x < 8 * i + 8"
  shows "x - 8 * i = x mod 8"
proof -
  have "x div 8 = i" using assms by (intro div_nat_eqI) simp_all
  then show ?thesis using minus_mult_div_eq_mod [of x 8] by simp
qed

lemma filled_upto_step:
  assumes c: "filled_upto m0 p v (8 * i) m" and n: "8 * i + 8 \<le> 2 ^ 64"
  shows "filled_upto m0 p v (8 * (i + 1)) (store_long m (p + 8 * of_nat i) v)"
  unfolding filled_upto_def
proof
  fix a
  have split: "unat (a - (p + 8 * of_nat i)) < 8 \<longleftrightarrow> 8 * i \<le> unat (a - p) \<and> unat (a - p) < 8 * i + 8"
    using n by (rule offset_split)
  have off: "unat (a - (p + 8 * of_nat i)) = unat (a - p) mod 8" if "8 * i \<le> unat (a - p)" "unat (a - p) < 8 * i + 8"
  proof -
    have "unat (8 * of_nat i :: u64) = 8 * i" using n by (simp add: unat_word_ariths unat_of_nat)
    moreover have "a - (p + 8 * of_nat i) = (a - p) - 8 * of_nat i" by simp
    ultimately have "unat (a - (p + 8 * of_nat i)) = unat (a - p) - 8 * i"
      using that by (simp only: unat_sub word_le_nat_alt)
    then show ?thesis using chunk_offset [OF that] by simp
  qed
  show "store_long m (p + 8 * of_nat i) v a =
      (if unat (a - p) < 8 * (i + 1) then ucast (drop_bit (8 * (unat (a - p) mod 8)) v) else m0 a)"
  proof (cases "8 * i \<le> unat (a - p)")
    case True
    then show ?thesis using split off c by (simp add: store_long_def word_less_nat_alt filled_upto_def)
  next
    case False
    then show ?thesis using split c by (simp add: store_long_def word_less_nat_alt filled_upto_def)
  qed
qed

lemma aligned_memset_from_fills:
  assumes "filled_upto m0 p v (8 * i) m" "count = i + 8 * q" "8 * count \<le> 2 ^ 64"
  shows "filled_upto m0 p v (8 * count) (aligned_memset_from m p v count i)"
  using assms(1,2)
proof (induction q arbitrary: m i)
  case 0
  then show ?case by (simp add: aligned_memset_from.simps [of m])
next
  case (Suc q)
  note prems = Suc.prems
    have le: "i + 8 \<le> count" using prems(2) by simp
    have step: "filled_upto m0 p v (8 * (i + (k + 1))) (store_long m' (p + 8 * of_nat (i + k)) v)"
      if "filled_upto m0 p v (8 * (i + k)) m'" "k < 8" for k m'
      using filled_upto_step [OF that(1)] that(2) le assms(3) by (simp add: add.assoc)
    define ms where "ms k = fold (\<lambda>j m. store_long m (p + 8 * of_nat (i + j)) v) [0..<k] m" for k
    have c: "k \<le> 8 \<Longrightarrow> filled_upto m0 p v (8 * (i + k)) (ms k)" for k
    proof (induction k)
      case (Suc k)
      then show ?case using step [of k "ms k"] by (simp add: ms_def)
    qed (use prems(1) in \<open>simp add: ms_def\<close>)
    have "aligned_memset_from m p v count i = aligned_memset_from (ms 8) p v count (i + 8)"
      using le by (simp add: aligned_memset_from.simps [of m] set_round_def ms_def upt_8 MAGIC_NUMBER_def ac_simps)
    moreover have "filled_upto m0 p v (8 * count) (aligned_memset_from (ms 8) p v count (i + 8))"
      by (rule Suc.IH) (use c [of 8] prems(2) in simp_all)
    ultimately show ?case by simp
qed

lemma aligned_count:
  assumes "is_aligned num (8 * of_nat MAGIC_NUMBER :: u64)"
  obtains q where "8 * unat (num div 8) = unat num" "unat (num div 8) = 0 + 8 * q"
proof -
  have "64 dvd unat num"
    using assms by (simp add: is_aligned_dvd MAGIC_NUMBER_def unat_word_ariths)
  then obtain q where "unat num = 64 * q" by (rule dvdE)
  then show ?thesis using that [of q] by (simp add: unat_div)
qed

section \<open>Comparing\<close>

fun first_diff :: "u8 list \<Rightarrow> u8 list \<Rightarrow> int" where
  "first_diff (x # xs) (y # ys) =
     (if x \<noteq> y then uint x - uint y else if xs = [] \<or> ys = [] then 0 else first_diff xs ys)"
| "first_diff _ _ = 0"

lemma cstr_hd_zero: "cstr m p xs \<Longrightarrow> m p = 0 \<longleftrightarrow> xs = []"
  by (cases xs) auto

lemma strcmp_cstr:
  assumes "cstr m p (x # xs)" "cstr m q (y # ys)"
  shows "strcmp m p q = Some (first_diff (x # xs) (y # ys))"
  using assms
proof (induction "x # xs" "y # ys" arbitrary: x xs y ys p q rule: first_diff.induct)
  case (1 x xs y ys)
  note z = cstr_hd_zero [of m "p + 1" xs] cstr_hd_zero [of m "q + 1" ys]
  show ?case
  proof (cases "x = y \<and> xs \<noteq> [] \<and> ys \<noteq> []")
    case True
    then obtain x' xs' y' ys' where eq: "xs = x' # xs'" "ys = y' # ys'" by (metis neq_Nil_conv)
    have "strcmp m p q = strcmp m (p + 1) (q + 1)"
      using True "1.prems" z by (simp add: strcmp_def strcmp_scan.simps [of m p q])
    then show ?thesis using "1.hyps" [OF _ _ eq] True "1.prems" eq by simp
  next
    case False
    then show ?thesis
      using "1.prems" z by (auto simp: strcmp_def strcmp_scan.simps [of m p q] byte_diff_def)
  qed
qed

lemma first_diff_zero:
  "xs \<noteq> [] \<Longrightarrow> ys \<noteq> [] \<Longrightarrow> first_diff xs ys = 0 \<longleftrightarrow> prefix xs ys \<or> prefix ys xs"
  by (induction xs ys rule: first_diff.induct) (auto simp: word_uint_eq_iff)

section \<open>Bounded copies\<close>

lemma cstr_upd:
  "cstr m p xs \<Longrightarrow> (\<And>i. i \<le> length xs \<Longrightarrow> p + of_nat i \<noteq> a) \<Longrightarrow> cstr (m(a := v)) p xs"
proof (induction xs arbitrary: p)
  case (Cons x xs)
  have "cstr (m(a := v)) (p + 1) xs"
    using Cons.prems(1) by (intro Cons.IH) (use Cons.prems(2) [of "Suc i" for i] in \<open>auto simp: add.assoc\<close>)
  then show ?case using Cons.prems(1) Cons.prems(2) [of 0] by (simp add: fun_upd_def)
qed auto

lemma copy_string_n_cstr:
  assumes "cstr m src xs" "n \<le> 2 ^ 64" "\<And>i. i \<le> length xs \<Longrightarrow> n \<le> unat (src + of_nat i - dst)"
  shows "copy_string_n m dst src n =
    (copy_bytes m dst src (min n (length xs)), dst + of_nat (min n (length xs)), n - min n (length xs))"
  using assms
proof (induction n arbitrary: m dst src xs)
  case (Suc n)
  show ?case
  proof (cases xs)
    case (Cons x ys)
    have ne: "src + of_nat i \<noteq> dst" if "i \<le> length xs" for i using Suc.prems(3) [OF that] by auto
    have "cstr (m(dst := m src)) (src + 1) ys"
      using Suc.prems(1) Cons ne [of "Suc i" for i] by (intro cstr_upd) (auto simp: add.assoc)
    moreover have "n \<le> unat (src + 1 + of_nat i - (dst + 1))" if "i \<le> length ys" for i
      using Suc.prems(3) [of "Suc i"] that Cons offset_Suc [of "src + of_nat (Suc i)" dst] ne [of "Suc i"]
      by (simp add: algebra_simps)
    ultimately have "copy_string_n (m(dst := m src)) (dst + 1) (src + 1) n =
      (copy_bytes (m(dst := m src)) (dst + 1) (src + 1) (min n (length ys)), dst + 1 + of_nat (min n (length ys)),
       n - min n (length ys))"
      using Suc.prems(2) by (intro Suc.IH) (assumption | simp)+
    then show ?thesis using Cons Suc.prems(1) by (simp add: algebra_simps)
  qed (use Suc.prems(1) in simp)
qed simp

section \<open>Numbers\<close>

lemma digits_from_cstr:
  assumes "cstr m p xs" "val 0 = -1"
  shows "digits_from val base m p r =
    Some (foldl (\<lambda>r c. r * base + word_of_int (val c)) r (takeWhile (\<lambda>c. val c \<noteq> -1) xs))"
  using assms(1)
proof (induction xs arbitrary: p r)
  case Nil
  then show ?case using assms(2) by (simp add: digits_from.simps [of val base m])
next
  case (Cons x xs)
  then show ?case by (simp add: digits_from.simps [of val base m p])
qed

text \<open>The decimal notation of a number.\<close>

fun dec_digits :: "nat \<Rightarrow> u8 list" where
  "dec_digits n = (if n < 10 then [0x30 + of_nat n] else dec_digits (n div 10) @ [0x30 + of_nat (n mod 10)])"

declare dec_digits.simps [simp del]

lemma decval_0: "decval 0 = -1"
  by (simp add: decval_def)

lemma decval_digit: "k < 10 \<Longrightarrow> decval (0x30 + of_nat k) = int k"
proof -
  assume "k < 10"
  then have "unat (0x30 + of_nat k :: u8) = 0x30 + k" by (simp add: unat_word_ariths unat_of_nat)
  then show ?thesis using \<open>k < 10\<close> by (simp add: decval_def word_le_nat_alt uint_nat)
qed

lemma dec_digits_valid: "takeWhile (\<lambda>c. decval c \<noteq> -1) (dec_digits n) = dec_digits n"
  by (induction n rule: dec_digits.induct)
    (subst dec_digits.simps, simp add: takeWhile_append decval_digit takeWhile_eq_all_conv, simp add: dec_digits.simps decval_digit)

lemma dec_digits_value:
  "foldl (\<lambda>r c. r * 10 + word_of_int (decval c)) 0 (dec_digits n) = (of_nat n :: u64)"
proof (induction n rule: dec_digits.induct)
  case (1 n)
  show ?case
  proof (cases "n < 10")
    case False
    have "of_nat (n div 10) * 10 + of_nat (n mod 10) = (of_nat n :: u64)"
      by (metis div_mult_mod_eq of_nat_add of_nat_mult of_nat_numeral)
    then show ?thesis using False 1 by (simp add: dec_digits.simps [of n] decval_digit)
  qed (simp add: dec_digits.simps [of n] decval_digit)
qed

lemma dec_digits_hd: "\<exists>c cs. dec_digits n = c # cs \<and> (\<exists>k < 10. c = 0x30 + of_nat k \<and> (k = 0 \<longrightarrow> n = 0))"
proof (induction n rule: dec_digits.induct)
  case (1 n)
  then show ?case by (cases "n < 10") (auto simp: dec_digits.simps [of n])
qed

lemma digit_cases:
  assumes "k < 10"
  shows "0x30 + of_nat k \<noteq> (0::u8)" "0x30 + of_nat k \<noteq> (0x2d::u8)" "0x30 + of_nat k \<noteq> (0x2b::u8)"
    "0x30 + of_nat k = (0x30::u8) \<longleftrightarrow> k = 0"
proof -
  have "unat (0x30 + of_nat k :: u8) = 0x30 + k" using assms by (simp add: unat_word_ariths unat_of_nat)
  then show "0x30 + of_nat k \<noteq> (0::u8)" "0x30 + of_nat k \<noteq> (0x2d::u8)" "0x30 + of_nat k \<noteq> (0x2b::u8)"
    "0x30 + of_nat k = (0x30::u8) \<longleftrightarrow> k = 0"
    using assms by (simp_all add: word_unat_eq_iff)
qed


section \<open>Substring search\<close>

lemma memcmp_zero_iff:
  assumes "0 < n" "n < 2 ^ 64"
  shows "\<exists>d. memcmp m p q (of_nat n) = Some d \<and> (d = 0 \<longleftrightarrow> (\<forall>i < n. m (p + of_nat i) = m (q + of_nat i)))"
  using assms
proof (induction n arbitrary: p q)
  case (Suc n)
  have num: "of_nat (Suc n) - 1 = (of_nat n :: u64)" by simp
  have zero: "(of_nat n :: u64) = 0 \<longleftrightarrow> n = 0" using Suc.prems by (simp add: word_unat_eq_iff unat_of_nat)
  show ?case
  proof (cases "m p = m q \<and> n \<noteq> 0")
    case True
    then have "memcmp m p q (of_nat (Suc n)) = memcmp m (p + 1) (q + 1) (of_nat n)"
      using zero by (simp add: memcmp_def memcmp_scan.simps [of m p q])
    moreover obtain d where "memcmp m (p + 1) (q + 1) (of_nat n) = Some d"
      "d = 0 \<longleftrightarrow> (\<forall>i < n. m (p + 1 + of_nat i) = m (q + 1 + of_nat i))"
      using Suc.IH [of "p + 1" "q + 1"] Suc.prems True by auto
    ultimately show ?thesis using True by (auto simp: All_less_Suc2 add.assoc)
  next
    case False
    then have "memcmp m p q (of_nat (Suc n)) = Some (uint (m p) - uint (m q))"
      using zero by (auto simp: memcmp_def memcmp_scan.simps [of m p q] byte_diff_def)
    then show ?thesis using False by (auto simp: All_less_Suc2 word_uint_eq_iff)
  qed
qed simp

definition occurs :: "'a list \<Rightarrow> 'a list \<Rightarrow> nat \<Rightarrow> bool" where
  "occurs xs ys k \<longleftrightarrow> k + length ys \<le> length xs \<and> (\<forall>i < length ys. xs ! (k + i) = ys ! i)"

lemma byte_of_nat: "k < 256 \<Longrightarrow> unat (ucast (of_nat k :: u64) :: u8) = k"
  by (simp add: unsigned_ucast_eq take_bit_nat_eq_self unat_of_nat)

text \<open>What the shift table promises: to move on, not too far, and not past a place where the character fits.\<close>

lemma skip_table_ok:
  assumes "cstr m q ys" "0 < length ys" "length ys < 256"
  defines "t \<equiv> skip_table m q (of_nat (length ys))"
  shows "0 < unat (t c)" "unat (t c) \<le> length ys"
    "i < length ys - 1 \<Longrightarrow> ys ! i = c \<Longrightarrow> unat (t c) \<le> length ys - 1 - i"
proof -
  let ?l = "length ys"
  define step where "step i table = table(m (q + of_nat i) := ucast (of_nat ?l - of_nat i - 1 :: u64))"
    for i and table :: "u8 \<Rightarrow> u8"
  have ok: "n \<le> ?l - 1 \<Longrightarrow> (\<forall>c. 0 < unat (fold step [0..<n] (\<lambda>_. ucast (of_nat ?l :: u64)) c) \<and>
      unat (fold step [0..<n] (\<lambda>_. ucast (of_nat ?l :: u64)) c) \<le> ?l) \<and>
      (\<forall>i < n. unat (fold step [0..<n] (\<lambda>_. ucast (of_nat ?l :: u64)) (ys ! i)) \<le> ?l - 1 - i)" for n
  proof (induction n)
    case 0
    show ?case using assms(2) byte_of_nat [OF assms(3)] by simp
  next
    case (Suc n)
    have v: "unat (ucast (of_nat ?l - of_nat n - 1 :: u64) :: u8) = ?l - 1 - n"
    proof -
      have "(of_nat ?l - of_nat n - 1 :: u64) = of_nat (?l - 1 - n)"
        using Suc.prems by (simp add: of_nat_diff)
      then show ?thesis using assms(3) byte_of_nat [of "?l - 1 - n"] by simp
    qed
    have "m (q + of_nat n) = ys ! n" using cstr_nth [OF assms(1), of n] Suc.prems by simp
    then have s: "fold step [0..<Suc n] (\<lambda>_. ucast (of_nat ?l :: u64)) =
      (fold step [0..<n] (\<lambda>_. ucast (of_nat ?l :: u64)))(ys ! n := ucast (of_nat ?l - of_nat n - 1 :: u64))"
      by (simp add: step_def)
    show ?case unfolding s using Suc v by (auto simp: less_Suc_eq)
  qed
  have t: "t = fold step [0..<?l - 1] (\<lambda>_. ucast (of_nat ?l :: u64))"
  proof -
    have "unat (of_nat ?l - 1 :: u64) = ?l - 1"
      using assms(2,3) by (cases ?l) (simp_all add: unat_of_nat)
    then show ?thesis unfolding t_def skip_table_def step_def by simp
  qed
  show "0 < unat (t c)" "unat (t c) \<le> ?l" using ok [of "?l - 1"] unfolding t by simp_all
  show "i < ?l - 1 \<Longrightarrow> ys ! i = c \<Longrightarrow> unat (t c) \<le> ?l - 1 - i" using ok [of "?l - 1"] unfolding t by auto
qed

lemma strstr_scan_ok:
  assumes hay: "cstr m p xs" and needle: "cstr m q ys" "0 < length ys" "length ys < 256"
    and "skip \<le> length xs" "\<And>k. k < skip \<Longrightarrow> \<not> occurs xs ys k"
  defines "t \<equiv> skip_table m q (of_nat (length ys))"
  shows "strstr_scan m t p q (of_nat (length xs)) (of_nat (length ys)) (of_nat skip) =
    Some (if \<exists>k. occurs xs ys k then p + of_nat (LEAST k. occurs xs ys k) else NULL)"
  using assms(5,6)
proof (induction "length xs - skip" arbitrary: skip rule: less_induct)
  case less
  let ?n = "length ys"
  note skip = less.prems
  have len: "length xs < 2 ^ 64" by (rule cstr_length [OF hay])
  have guard: "of_nat (length xs) - of_nat skip \<ge> (of_nat ?n :: u64) \<longleftrightarrow> skip + ?n \<le> length xs"
  proof -
    have "(of_nat (length xs) - of_nat skip :: u64) = of_nat (length xs - skip)" using skip(1) by (simp add: of_nat_diff)
    then show ?thesis using len needle(3) skip(1) by (simp only: word_le_nat_alt unat_of_nat) auto
  qed
  show ?case
  proof (cases "skip + ?n \<le> length xs")
    case False
    then have "\<not> occurs xs ys k" for k using skip(2) [of k] by (cases "k < skip") (auto simp: occurs_def)
    then have "\<not> (\<exists>k. occurs xs ys k)" by blast
    then show ?thesis using False guard by (subst strstr_scan.simps) (simp only: if_False simp_thms)
  next
    case True
    obtain d where d: "memcmp m (p + of_nat skip) q (of_nat ?n) = Some d"
      "d = 0 \<longleftrightarrow> (\<forall>i < ?n. m (p + of_nat skip + of_nat i) = m (q + of_nat i))"
      using memcmp_zero_iff [of ?n m "p + of_nat skip" q] needle by auto
    have "m (p + of_nat skip + of_nat i) = xs ! (skip + i)" if "i < ?n" for i
      using cstr_nth [OF hay, of "skip + i"] that True by (simp add: add.assoc)
    then have occ: "d = 0 \<longleftrightarrow> occurs xs ys skip"
      using d(2) True cstr_nth [OF needle(1)] by (auto simp: occurs_def)
    show ?thesis
    proof (cases "d = 0")
      case True
      then have "(LEAST k. occurs xs ys k) = skip"
        using occ skip(2) by (intro Least_equality) (auto simp: not_less [symmetric])
      then show ?thesis using True occ guard \<open>skip + ?n \<le> length xs\<close> d(1) by (auto simp: strstr_scan.simps [of m t])
    next
      case False
      define c where "c = m (p + of_nat skip + of_nat ?n - 1)"
      define k where "k = unat (t c)"
      have c: "c = xs ! (skip + ?n - 1)"
      proof -
        have eq: "p + of_nat skip + of_nat ?n - 1 = p + of_nat (skip + ?n - 1)"
          using needle(2) by (cases ?n) simp_all
        have "skip + ?n - 1 < length xs" using needle(2) True by linarith
        then show ?thesis unfolding c_def eq using cstr_nth [OF hay] by blast
      qed
      note t = skip_table_ok [OF needle, folded t_def]
      have k: "0 < k" "k \<le> ?n" using t(1,2) by (simp_all add: k_def)
      have none: "\<not> occurs xs ys j" if "j < skip + k" for j
      proof
        assume o: "occurs xs ys j"
        then have "skip < j" using occ False skip(2) that by (metis linorder_neqE_nat)
        define i where "i = skip + ?n - 1 - j"
        have i: "i < ?n - 1" "j + i = skip + ?n - 1" using \<open>skip < j\<close> that k by (auto simp: i_def)
        then have "i < ?n" by linarith
        then have "xs ! (j + i) = ys ! i" using o unfolding occurs_def by blast
        then have "ys ! i = c" unfolding c i(2) by (rule sym)
        with i(1) have "k \<le> ?n - 1 - i" using t(3) by (simp add: k_def)
        then show False using i that by linarith
      qed
      have "strstr_scan m t p q (of_nat (length xs)) (of_nat ?n) (of_nat skip) =
        strstr_scan m t p q (of_nat (length xs)) (of_nat ?n) (of_nat (skip + k))"
        using False d(1) guard True by (simp add: strstr_scan.simps [of m t _ _ _ _ "of_nat skip"] c_def k_def add_ac)
      also have "\<dots> = Some (if \<exists>k. occurs xs ys k then p + of_nat (LEAST k. occurs xs ys k) else NULL)"
        by (rule less.hyps) (use k True none in auto)
      finally show ?thesis .
    qed
  qed
qed

section \<open>Properties\<close>

text \<open>(C27) When no byte of the source lies in the destination, \<^verbatim>\<open>memcpy\<close> makes the
  destination equal to the source and writes nothing else, on the path that copies eight longs at a
  time as on the one that copies bytes.\<close>

theorem memcpy_copies:
  assumes "\<forall>i < unat num. unat num \<le> unat (src + of_nat i - dst)"
  shows "memcpy m dst src num a = (if unat (a - dst) < unat num then m (src + (a - dst)) else m a)"
proof (cases "is_aligned dst (8 * of_nat MAGIC_NUMBER) \<and> is_aligned src (8 * of_nat MAGIC_NUMBER) \<and>
    is_aligned num (8 * of_nat MAGIC_NUMBER)")
  case True
  then obtain q where count: "8 * unat (num div 8) = unat num" "unat (num div 8) = 0 + 8 * q"
    using aligned_count by blast
  have "copied_upto m dst src (8 * unat (num div 8)) (aligned_memcpy_from m dst src (unat (num div 8)) 0)"
    by (rule aligned_memcpy_from_copies [OF _ count(2)], unfold count(1))
      (use assms unat_u64_less [of num] in \<open>simp_all add: copied_upto_def\<close>)
  then show ?thesis using True count by (simp add: memcpy_def aligned_memcpy_def copied_upto_def)
next
  case False
  then have "memcpy m dst src num = copy_bytes m dst src (unat num)" unfolding memcpy_def by (simp only: if_False)
  then show ?thesis using copy_bytes_at [of "unat num" src dst m a] assms unat_u64_less [of num] by simp
qed

theorem memcpy_copies_witness:
  "memcpy (\<lambda>a. ucast a) 0x1000 0x2040 128 0x107f = 0xbf"
proof -
  have "\<forall>i < unat (128::u64). unat (128::u64) \<le> unat (0x2040 + of_nat i - 0x1000 :: u64)"
    by (auto simp: unat_word_ariths unat_of_nat)
  from memcpy_copies [OF this, of "\<lambda>a. ucast a" "0x107f"] show ?thesis by simp
qed

text \<open>(C28) What \<^verbatim>\<open>memset\<close> writes, byte by byte: nothing outside the block, the value inside
  it, except that on the path that writes longs every byte is taken from the pattern of
  \<^verbatim>\<open>__aligned_memset\<close>, which is all zero for the value zero.\<close>

lemma memset_bits_zero: "memset_bits 0 = 0"
  by (simp add: memset_bits_def int_shl_def upt_8)


text \<open>For strings that are not empty \<^verbatim>\<open>strcmp\<close> returns the difference of the first
  characters that differ, and zero when there is none within the shorter string: a proper
  prefix compares equal to the longer string.\<close>

theorem strcmp_prefixes:
  assumes "cstr m p xs" "cstr m q ys" "xs \<noteq> []" "ys \<noteq> []"
  shows "strcmp m p q = Some (first_diff xs ys) \<and> (strcmp m p q = Some 0 \<longleftrightarrow> prefix xs ys \<or> prefix ys xs)"
proof -
  have "strcmp m p q = Some (first_diff xs ys)"
    using assms strcmp_cstr by (cases xs; cases ys) blast+
  then show ?thesis using first_diff_zero [OF assms(3,4)] by simp
qed

theorem strcmp_prefixes_witness:
  "strcmp (\<lambda>a. if a = 0 \<or> a = 8 then 0x61 else if a = 9 then 0x62 else 0) 0 8 = Some 0"
proof -
  let ?m = "\<lambda>a::ptr. if a = 0 \<or> a = 8 then 0x61 else if a = 9 then 0x62 else (0::u8)"
  have "cstr ?m 0 [0x61]" "cstr ?m 8 [0x61, 0x62]" by simp_all
  from strcmp_prefixes [OF this] show ?thesis by simp
qed

text \<open>\<^verbatim>\<open>strncpy\<close> fills the destination with the string, cut off at the given length
  and padded with zeros up to it, and writes nothing outside of it.\<close>

theorem strncpy_pads:
  assumes "cstr m src xs" "\<forall>i \<le> length xs. unat num \<le> unat (src + of_nat i - dst)"
  shows "snd (strncpy m dst src num) a =
    (if unat (a - dst) < unat num
     then (if unat (a - dst) < length xs then xs ! unat (a - dst) else 0) else m a)"
proof -
  let ?k = "min (unat num) (length xs)" and ?m = "copy_bytes m dst src (min (unat num) (length xs))"
  have "snd (strncpy m dst src num) a = set_bytes ?m (dst + of_nat ?k) 0 (unat num - ?k) a"
    using copy_string_n_cstr [OF assms(1), of "unat num" dst] assms(2) unat_u64_less [of num]
    by (simp add: strncpy_def zero_bytes_set)
  also have "\<dots> = (if unat (a - (dst + of_nat ?k)) < unat num - ?k then 0 else ?m a)"
    using unat_u64_less [of num] by (intro set_bytes_at) simp
  also have "?m a = (if unat (a - dst) < ?k then m (src + (a - dst)) else m a)"
    using assms(2) unat_u64_less [of num] by (intro copy_bytes_at) (simp, meson le_trans less_imp_le min.cobounded1 min_less_iff_conj)
  also have "unat (a - (dst + of_nat ?k)) < unat num - ?k \<longleftrightarrow> ?k \<le> unat (a - dst) \<and> unat (a - dst) < unat num"
    using unat_u64_less [of num] by (intro offset_tail) simp_all
  finally show ?thesis using cstr_nth [OF assms(1), of "unat (a - dst)"] by auto
qed

theorem strncpy_pads_witness:
  "snd (strncpy (\<lambda>a. if a = 0 then 0x61 else if a = 1 then 0x62 else if a = 2 then 0 else 0xff) 16 0 4) 18 = 0"
proof -
  let ?m = "\<lambda>a::ptr. if a = 0 then 0x61 else if a = 1 then 0x62 else if a = 2 then 0 else (0xff::u8)"
  have "cstr ?m 0 [0x61, 0x62]" by simp
  moreover have "\<forall>i \<le> length [0x61, 0x62 :: u8]. unat (4::u64) \<le> unat (0 + of_nat i - 16 :: u64)"
    by (auto simp: le_Suc_eq)
  ultimately show ?thesis using strncpy_pads [of ?m 0 "[0x61, 0x62]" 4 16 18] by simp
qed

text \<open>(C29) \<^verbatim>\<open>strtouintptr\<close> reads the decimal notation of every number back, modulo
  the width of a pointer.\<close>

theorem strtouintptr_decimal:
  assumes "s \<noteq> NULL" "cstr m s (dec_digits n)"
  shows "strtouintptr m s = Some (of_nat n)"
proof -
  have dec: "decuintptr m s = Some (of_nat n)"
    using digits_from_cstr [OF assms(2), of decval 10 0] dec_digits_value [of n] decval_0
    by (simp add: decuintptr_def dec_digits_valid)
  obtain c cs k where c: "dec_digits n = c # cs" "k < 10" "c = 0x30 + of_nat k" "k = 0 \<longrightarrow> n = 0"
    using dec_digits_hd by blast
  have ms: "m s = 0x30 + of_nat k" using assms(2) c by simp
  show ?thesis
  proof (cases "k = 0")
    case True
    then have "n = 0" using c by simp
    then have "m s = 0x30" "m (s + 1) = 0" using assms(2) by (simp_all add: dec_digits.simps [of 0])
    then show ?thesis using assms(1) \<open>n = 0\<close> by (simp add: strtouintptr_def)
  next
    case False
    then show ?thesis using assms(1) dec digit_cases [OF c(2)] by (simp add: strtouintptr_def ms)
  qed
qed

theorem strtouintptr_decimal_witness:
  "strtouintptr (\<lambda>a. if a = 1 then 0x34 else if a = 2 then 0x32 else 0) 1 = Some 42"
proof -
  have "cstr (\<lambda>a. if a = 1 then 0x34 else if a = 2 then 0x32 else 0) 1 (dec_digits 42)"
    by (simp add: dec_digits.simps)
  from strtouintptr_decimal [OF _ this] show ?thesis by simp
qed

text \<open>(C26) For needles of 1 to 255 characters the Horspool search of \<^verbatim>\<open>strstr\<close> ends
  and returns the first occurrence, as a search position by position would, or \<^verbatim>\<open>NULL\<close>.\<close>

theorem strstr_first_occurrence:
  assumes "cstr m p xs" "cstr m q ys" "0 < length ys" "length ys < 256"
  shows "strstr m p q = Some (if \<exists>k. occurs xs ys k then p + of_nat (LEAST k. occurs xs ys k) else NULL)"
  using strstr_scan_ok [OF assms, of 0] assms by (simp add: strstr_def strlen_cstr)

theorem strstr_first_occurrence_witness:
  "strstr (\<lambda>a. if a = 1 then 0x61 else if a = 2 \<or> a = 8 then 0x62 else 0) 1 8 = Some 2"
proof -
  let ?m = "\<lambda>a::ptr. if a = 1 then 0x61 else if a = 2 \<or> a = 8 then 0x62 else (0::u8)"
  have "cstr ?m 1 [0x61, 0x62]" "cstr ?m 8 [0x62]" by simp_all
  from strstr_first_occurrence [OF this]
  have r: "strstr ?m 1 8 = Some (if \<exists>k. occurs [0x61, 0x62] [0x62::u8] k
    then 1 + of_nat (LEAST k. occurs [0x61, 0x62] [0x62::u8] k) else NULL)" by simp
  have "occurs [0x61, 0x62] [0x62::u8] = (\<lambda>k. k = 1)"
  proof
    show "occurs [0x61, 0x62] [0x62::u8] k \<longleftrightarrow> k = 1" for k by (cases k) (auto simp: occurs_def)
  qed
  moreover have "(LEAST k. k = (1::nat)) = 1" by (rule Least_equality) simp_all
  ultimately show ?thesis using r by simp
qed

end
