(* ===== verification/Nodes.thy ===== *)
theory Nodes
  imports Pmem
begin

text \<open>
  The node allocator, \<^verbatim>\<open>src/nodes.c\<close> and \<^verbatim>\<open>include/kmi/nodes.h\<close>: pages cut into slots of one
  size, each page with a header, a bitmap of its slots and links to the other pages, and a
  second list of the pages with free slots. The headers are a heap of records by page
  address, with the bitmap that follows a header as its last field. The instance
  \<open>node_root\<close> is passed and returned. A page that cannot be allocated is written to
  through \<^verbatim>\<open>NULL\<close> in the source; that, and a loop that does not end, is \<open>None\<close>.
\<close>

section \<open>State\<close>

record node_region =
  used_nodes :: u64
  av_next :: ptr
  av_prev :: ptr
  nr_next :: ptr
  nr_prev :: ptr
  slots :: bytes

record node_root =
  node_size :: u64
  max_nodes :: u64
  bitmap_off :: u64
  first_node :: u64
  nr_head :: ptr
  av_head :: ptr

record node_state =
  nphys :: pmem_state
  region_at :: "ptr \<Rightarrow> node_region"

definition sizeof_node_region :: u64 where "sizeof_node_region = 40"

definition node_region_of :: "ptr \<Rightarrow> ptr" where
  "node_region_of r = r AND NOT (BASE_PAGE_SIZE - 1)"

definition upd_region :: "node_state \<Rightarrow> ptr \<Rightarrow> (node_region \<Rightarrow> node_region) \<Rightarrow> node_state" where
  [field_defs]: "upd_region s p f = s\<lparr>region_at := (region_at s)(p := f (region_at s p))\<rparr>"

definition empty_region :: node_region where
  "empty_region = \<lparr>used_nodes = 0, av_next = NULL, av_prev = NULL, nr_next = NULL, nr_prev = NULL, slots = (\<lambda>_. 0)\<rparr>"

section \<open>Operations\<close>

definition create_node_region :: "node_state \<Rightarrow> (ptr \<times> node_state) option" where
  "create_node_region s =
     (case alloc_page (nphys s) 0 of
        None \<Rightarrow> None
      | Some (r, p) \<Rightarrow>
          if r = NULL then None
          else Some (r, upd_region (s\<lparr>nphys := p\<rparr>) r (\<lambda>_. empty_region)))"

text \<open>The slot layout \<open>init_nodes\<close> computes for a node size.\<close>

definition node_layout :: "u64 \<Rightarrow> ptr \<Rightarrow> node_root" where
  "node_layout size_of_node page =
     (let max = BASE_PAGE_SIZE div size_of_node;
          bitmap_size = (max div 8) + 1;
          first = align_up (sizeof_node_region + bitmap_size) size_of_node
      in \<lparr>node_size = size_of_node, max_nodes = max - first div size_of_node, bitmap_off = sizeof_node_region,
          first_node = first, nr_head = page, av_head = page\<rparr>)"

definition init_nodes :: "node_state \<Rightarrow> u64 \<Rightarrow> (node_root \<times> node_state) option" where
  "init_nodes s size_of_node = map_option (\<lambda>(p, s). (node_layout size_of_node p, s)) (create_node_region s)"

partial_function (option) destroy_nodes_from :: "node_state \<Rightarrow> ptr \<Rightarrow> node_state option" where
  "destroy_nodes_from s nr =
     (if nr = NULL then Some s
      else Option.bind (free_page (nphys s) 0 nr)
             (\<lambda>p. destroy_nodes_from (s\<lparr>nphys := p\<rparr>) (nr_prev (region_at s nr))))"

definition destroy_nodes :: "node_state \<Rightarrow> node_root \<Rightarrow> node_state option" where
  "destroy_nodes s r = destroy_nodes_from s (nr_head r)"

fun find_free_slot :: "bytes \<Rightarrow> nat \<Rightarrow> nat \<Rightarrow> nat option" where
  "find_free_slot b i 0 = None"
| "find_free_slot b i (Suc k) = (if bitmap_is_set b i then find_free_slot b (i + 1) k else Some i)"

definition slot_addr :: "node_root \<Rightarrow> ptr \<Rightarrow> nat \<Rightarrow> ptr" where
  "slot_addr r nr i = (of_nat i * node_size r) + (first_node r + nr)"

definition find_free_node :: "node_state \<Rightarrow> node_root \<Rightarrow> ptr \<Rightarrow> ptr \<times> node_state" where
  "find_free_node s r nr =
     (case find_free_slot (slots (region_at s nr)) 0 (unat (max_nodes r)) of
        None \<Rightarrow> (NULL, s)
      | Some i \<Rightarrow> (slot_addr r nr i, upd_region s nr (\<lambda>n. n\<lparr>slots := bitmap_set (slots n) i\<rparr>)))"

definition pop_av_head :: "node_state \<Rightarrow> node_root \<Rightarrow> node_root \<times> node_state" where
  "pop_av_head s r =
     (let t = av_head r;
          r = r\<lparr>av_head := nr_next (region_at s (av_head r))\<rparr>;
          s = (if av_head r \<noteq> NULL then upd_region s (av_head r) (\<lambda>n. n\<lparr>av_prev := NULL\<rparr>) else s)
      in (r, upd_region s t (\<lambda>n. n\<lparr>av_next := NULL, av_prev := NULL\<rparr>)))"

definition get_node :: "node_state \<Rightarrow> node_root \<Rightarrow> (ptr \<times> node_root \<times> node_state) option" where
  "get_node s r =
     (case (if av_head r = NULL then
              map_option (\<lambda>(n, s).
                  let r = r\<lparr>av_head := n\<rparr>;
                      s = upd_region s n (\<lambda>x. x\<lparr>nr_prev := nr_head r\<rparr>);
                      s = upd_region s (nr_head r) (\<lambda>x. x\<lparr>nr_next := n\<rparr>)
                  in (r\<lparr>nr_head := n\<rparr>, s))
                (create_node_region s)
            else Some (r, s)) of
        None \<Rightarrow> None
      | Some (r, s) \<Rightarrow>
          let (p, s) = find_free_node s r (av_head r);
              s = upd_region s (av_head r) (\<lambda>n. n\<lparr>used_nodes := used_nodes n + 1\<rparr>);
              (r, s) = (if used_nodes (region_at s (av_head r)) = max_nodes r then pop_av_head s r else (r, s))
          in Some (p, r, s))"

definition push_av_head :: "node_state \<Rightarrow> node_root \<Rightarrow> ptr \<Rightarrow> node_root \<times> node_state" where
  "push_av_head s r nr =
     (let s = upd_region s nr (\<lambda>n. n\<lparr>av_prev := NULL, av_next := av_head r\<rparr>);
          s = (if av_head r \<noteq> NULL then upd_region s (av_head r) (\<lambda>n. n\<lparr>av_prev := nr\<rparr>) else s)
      in (r\<lparr>av_head := nr\<rparr>, s))"

definition free_node_region :: "node_state \<Rightarrow> node_root \<Rightarrow> ptr \<Rightarrow> (node_root \<times> node_state) option" where
  "free_node_region s r nr =
     (let av_n = av_next (region_at s nr);
          av_p = av_prev (region_at s nr);
          s = (if av_n \<noteq> NULL then upd_region s av_n (\<lambda>n. n\<lparr>av_prev := av_p\<rparr>) else s);
          s = (if av_p \<noteq> NULL then upd_region s av_p (\<lambda>n. n\<lparr>av_next := av_n\<rparr>) else s);
          (r, s) = (if nr = av_head r then pop_av_head s r else (r, s));
          n = nr_next (region_at s nr);
          p = nr_prev (region_at s nr);
          s = (if n \<noteq> NULL then upd_region s n (\<lambda>x. x\<lparr>nr_prev := p\<rparr>) else s);
          s = (if p \<noteq> NULL then upd_region s p (\<lambda>x. x\<lparr>nr_next := n\<rparr>) else s)
      in if nr = nr_head r \<and> nr_prev (region_at s (nr_head r)) = NULL then Some (r, s)
         else
           let (r, s) = (if nr = nr_head r
                         then (r\<lparr>nr_head := nr_prev (region_at s (nr_head r))\<rparr>,
                               upd_region s (nr_head r) (\<lambda>x. x\<lparr>nr_next := NULL\<rparr>))
                         else (r, s))
           in map_option (\<lambda>p. (r, s\<lparr>nphys := p\<rparr>)) (free_page (nphys s) 0 nr))"

definition slot_of :: "node_root \<Rightarrow> ptr \<Rightarrow> nat" where
  "slot_of r p = unat ((p - (first_node r + node_region_of p)) div node_size r)"

definition free_node :: "node_state \<Rightarrow> node_root \<Rightarrow> ptr \<Rightarrow> (node_root \<times> node_state) option" where
  "free_node s r p =
     (let nr = node_region_of p;
          s = upd_region s nr (\<lambda>n. n\<lparr>slots := bitmap_clear (slots n) (slot_of r p)\<rparr>);
          s = upd_region s nr (\<lambda>n. n\<lparr>used_nodes := used_nodes n - 1\<rparr>)
      in if used_nodes (region_at s nr) = 0 then free_node_region s r nr
         else if av_next (region_at s nr) = NULL \<and> av_prev (region_at s nr) = NULL then Some (push_av_head s r nr)
         else Some (r, s))"

section \<open>Slots\<close>

lemma find_free_slot_some:
  "find_free_slot b i k = Some j \<Longrightarrow> i \<le> j \<and> j < i + k \<and> \<not> bitmap_is_set b j"
proof (induction k arbitrary: i)
  case (Suc k)
  show ?case
  proof (cases "bitmap_is_set b i")
    case True
    then show ?thesis using Suc.IH [of "Suc i"] Suc.prems by simp
  qed (use Suc.prems in auto)
qed simp

lemma find_free_slot_none: "find_free_slot b i k = None \<longleftrightarrow> (\<forall>j. i \<le> j \<and> j < i + k \<longrightarrow> bitmap_is_set b j)"
proof (induction k arbitrary: i)
  case (Suc k)
  have "(\<forall>j. i \<le> j \<and> j < i + Suc k \<longrightarrow> bitmap_is_set b j) \<longleftrightarrow>
    bitmap_is_set b i \<and> (\<forall>j. i + 1 \<le> j \<and> j < i + 1 + k \<longrightarrow> bitmap_is_set b j)"
    by (auto simp: Suc_le_eq) (metis le_neq_implies_less)
  then show ?case using Suc.IH [of "i + 1"] by simp
qed auto

text \<open>The layout in numbers: header, bitmap and slots follow each other inside the page.\<close>

lemma node_layout_numbers:
  assumes "0 < size_of_node" "size_of_node \<le> 4096" and r_def: "r = node_layout size_of_node page"
  shows "unat (first_node r) + unat (max_nodes r) * unat size_of_node \<le> 4096"
    "41 + unat (max_nodes r) div 8 \<le> unat (first_node r)"
    "unat size_of_node dvd unat (first_node r)"
proof -
  let ?n = "unat size_of_node"
  define M where "M = 4096 div ?n"
  have n: "0 < ?n" "?n \<le> 4096" "size_of_node \<noteq> 0"
    using assms(1,2) by (auto simp: word_less_nat_alt word_le_nat_alt)
  have max: "unat (BASE_PAGE_SIZE div size_of_node) = M" by (simp add: M_def unat_div BASE_PAGE_SIZE_def)
  have M: "M \<le> 4096" "M * ?n \<le> 4096" "1 \<le> M" "4096 < M * ?n + ?n"
    using n dividend_less_div_times [OF n(1), of 4096]
    by (auto simp: M_def div_le_dividend Suc_le_eq div_greater_zero_iff)
  define v where "v = sizeof_node_region + (BASE_PAGE_SIZE div size_of_node div 8 + 1)"
  have v: "unat v = 41 + M div 8"
    using M(1) max by (simp add: v_def sizeof_node_region_def unat_word_ariths unat_div)
  have first: "unat (first_node r) = (unat v + ?n - 1) div ?n * ?n"
    using unat_align_up [OF n(3), of v] v M n
    by (simp add: r_def node_layout_def v_def [symmetric] Let_def)
  show "unat size_of_node dvd unat (first_node r)" using first by simp
  have fits: "unat v \<le> M * ?n"
  proof (cases "?n \<le> 553")
    case True
    then show ?thesis using v M by linarith
  next
    case False
    then have "M < 8" unfolding M_def by (intro less_mult_imp_div_less) simp
    moreover have "?n \<le> M * ?n" using M(3) by simp
    ultimately show ?thesis using v False by linarith
  qed
  have "(unat v + ?n - 1) div ?n \<le> M"
  proof -
    have "(unat v + ?n - 1) div ?n \<le> (M * ?n + ?n - 1) div ?n" using fits by (intro div_le_mono) simp
    also have "\<dots> = M" using n(1) by (intro div_nat_eqI) (simp_all add: mult.commute)
    finally show ?thesis .
  qed
  moreover have "unat (first_node r div size_of_node) = (unat v + ?n - 1) div ?n"
    using first n(1) by (simp add: unat_div)
  ultimately have mx: "unat (max_nodes r) = M - (unat v + ?n - 1) div ?n"
    using max by (simp add: r_def node_layout_def Let_def unat_sub word_le_nat_alt)
  show "unat (first_node r) + unat (max_nodes r) * ?n \<le> 4096"
    using first mx M(2) \<open>_ div ?n \<le> M\<close> by (simp add: diff_mult_distrib)
  have "unat v \<le> unat (first_node r)" unfolding first
    using n(1) dividend_less_div_times [OF n(1), of "unat v + ?n - 1"] by linarith
  then show "41 + unat (max_nodes r) div 8 \<le> unat (first_node r)"
    using v mx div_le_mono [of "unat (max_nodes r)" M 8] by simp
qed


lemma node_region_of_page:
  assumes "nr AND 0xfff = 0" "k < 4096"
  shows "node_region_of (nr + of_nat k) = nr"
proof -
  have mask: "(0xfff::u64) = mask 12" by (simp add: mask_eq_exp_minus_1)
  have "take_bit 12 nr = 0" using assms(1) by (simp only: mask take_bit_eq_mask)
  then have "nr mod 2 ^ 12 = 0" by (simp only: take_bit_eq_mod)
  then have "unat (nr mod 2 ^ 12) = 0" by simp
  then have "unat nr mod 4096 = 0" by (simp add: unat_mod)
  then have "4096 dvd unat nr" by (simp add: dvd_eq_mod_eq_0)
  then obtain q where q: "unat nr = 4096 * q" by (rule dvdE)
  then have "q < 2 ^ 52" using unat_u64_less [of nr] by simp
  then have "unat (nr + of_nat k) = 4096 * q + k"
    using q assms(2) by (simp add: unat_word_ariths unat_of_nat)
  then have "unat ((nr + of_nat k) mod 2 ^ 12) = k" using assms(2) by (simp add: unat_mod)
  then have "(nr + of_nat k) mod 2 ^ 12 = of_nat k" by (metis of_nat_unat ucast_id)
  moreover have "node_region_of (nr + of_nat k) = (nr + of_nat k) - (nr + of_nat k) mod 2 ^ 12"
    using and_not_mask_eq_sub_mod [of 12 "nr + of_nat k"] by (simp add: node_region_of_def BASE_PAGE_SIZE_def)
  ultimately show ?thesis by simp
qed

lemma slot_roundtrip:
  assumes "0 < size_of_node" "size_of_node \<le> 4096" "r = node_layout size_of_node page"
    and "nr AND 0xfff = 0" "i < unat (max_nodes r)"
  shows "node_region_of (slot_addr r nr i) = nr" "slot_of r (slot_addr r nr i) = i"
proof -
  let ?n = "unat size_of_node"
  note num = node_layout_numbers [OF assms(1-3)]
  have size: "node_size r = size_of_node" by (simp add: assms(3) node_layout_def Let_def)
  have n: "0 < ?n" using assms(1) by (simp add: word_less_nat_alt)
  have "(i + 1) * ?n \<le> unat (max_nodes r) * ?n" using assms(5) by (intro mult_le_mono1) simp
  then have k: "i * ?n + unat (first_node r) < 4096" using num(1) n by simp
  have addr: "slot_addr r nr i = nr + of_nat (i * ?n + unat (first_node r))"
    by (simp add: slot_addr_def size algebra_simps)
  show region: "node_region_of (slot_addr r nr i) = nr" unfolding addr using assms(4) k by (rule node_region_of_page)
  have "slot_addr r nr i - (first_node r + nr) = of_nat (i * ?n)" by (simp add: slot_addr_def size)
  moreover have "unat (of_nat (i * ?n) :: u64) = i * ?n"
    unfolding unat_of_nat using k by (intro mod_less) simp
  ultimately show "slot_of r (slot_addr r nr i) = i"
    unfolding slot_of_def region size using n by (simp only: unat_div) simp
qed


section \<open>Taking and returning nodes\<close>

lemma get_node_available:
  assumes "av_head r = nr" "nr \<noteq> NULL" "find_free_slot (slots (region_at s nr)) 0 (unat (max_nodes r)) = Some i"
  shows "\<exists>r' s'. get_node s r = Some (slot_addr r nr i, r', s') \<and> nphys s' = nphys s \<and>
     slots (region_at s' nr) = bitmap_set (slots (region_at s nr)) i \<and>
     used_nodes (region_at s' nr) = used_nodes (region_at s nr) + 1 \<and>
     (\<forall>x. x \<noteq> nr \<longrightarrow> slots (region_at s' x) = slots (region_at s x) \<and> used_nodes (region_at s' x) = used_nodes (region_at s x)) \<and>
     (used_nodes (region_at s nr) + 1 \<noteq> max_nodes r \<longrightarrow> r' = r)"
  using assms by (auto simp: get_node_def find_free_node_def pop_av_head_def upd_region_def Let_def)

lemma free_node_in_use:
  assumes "node_region_of p = nr" "used_nodes (region_at s nr) \<noteq> 1"
  shows "\<exists>r' s'. free_node s r p = Some (r', s') \<and> nphys s' = nphys s \<and>
     slots (region_at s' nr) = bitmap_clear (slots (region_at s nr)) (slot_of r p) \<and>
     used_nodes (region_at s' nr) = used_nodes (region_at s nr) - 1 \<and>
     (\<forall>x. x \<noteq> nr \<longrightarrow> slots (region_at s' x) = slots (region_at s x) \<and> used_nodes (region_at s' x) = used_nodes (region_at s x)) \<and>
     (av_next (region_at s nr) = NULL \<and> av_prev (region_at s nr) = NULL \<longrightarrow>
       av_next (region_at s' nr) = av_head r \<and> av_head r' = nr)"
  using assms by (auto simp: free_node_def push_av_head_def upd_region_def Let_def)

section \<open>Properties\<close>

text \<open>(C31) For every node size up to a page, the slots \<^verbatim>\<open>init_nodes\<close> lays out start behind
  the header and a bitmap large enough for them, end within the page, and the page and the
  index of a slot are found back from its address.\<close>

theorem node_slots_fit:
  assumes "0 < size_of_node" "size_of_node \<le> 4096" "r = node_layout size_of_node page"
    and "nr AND 0xfff = 0" "i < unat (max_nodes r)"
  shows "41 + unat (max_nodes r) div 8 \<le> unat (first_node r) \<and>
     unat (first_node r) + (i + 1) * unat size_of_node \<le> 4096 \<and>
     node_region_of (slot_addr r nr i) = nr \<and> slot_of r (slot_addr r nr i) = i"
proof -
  have "(i + 1) * unat size_of_node \<le> unat (max_nodes r) * unat size_of_node"
    using assms(5) by (intro mult_le_mono1) simp
  then show ?thesis using node_layout_numbers [OF assms(1-3)] slot_roundtrip [OF assms] by simp
qed

theorem node_slots_fit_witness:
  "unat (max_nodes (node_layout 88 0x1000)) = 45 \<and> slot_of (node_layout 88 0x1000) (slot_addr (node_layout 88 0x1000) 0x1000 44) = 44"
proof -
  have m: "unat (max_nodes (node_layout 88 0x1000)) = 45"
    by (simp add: node_layout_def BASE_PAGE_SIZE_def sizeof_node_region_def align_up_def align_down_def is_powerof2_def Let_def)
  then show ?thesis using node_slots_fit [of 88 "node_layout 88 0x1000" "0x1000" "0x1000" 44] by simp
qed

text \<open>(C30) \<^verbatim>\<open>get_node\<close> hands out a slot of the first available page whose bit was clear,
  and marks just that slot; without a free slot it returns no address of the page.\<close>

theorem get_node_takes_free:
  assumes "av_head r = nr" "nr \<noteq> NULL" "\<exists>j < unat (max_nodes r). \<not> bitmap_is_set (slots (region_at s nr)) j"
  shows "\<exists>i r' s'. i < unat (max_nodes r) \<and> \<not> bitmap_is_set (slots (region_at s nr)) i \<and>
     get_node s r = Some (slot_addr r nr i, r', s') \<and>
     (\<forall>x j. bitmap_is_set (slots (region_at s' x)) j \<longleftrightarrow> bitmap_is_set (slots (region_at s x)) j \<or> x = nr \<and> j = i)"
proof -
  obtain i where i: "find_free_slot (slots (region_at s nr)) 0 (unat (max_nodes r)) = Some i"
    using assms(3) find_free_slot_none [of "slots (region_at s nr)" 0] by (metis le0 add_0 not_None_eq)
  then have "i < unat (max_nodes r)" "\<not> bitmap_is_set (slots (region_at s nr)) i"
    using find_free_slot_some [OF i] by simp_all
  moreover obtain r' s' where "get_node s r = Some (slot_addr r nr i, r', s')"
    "slots (region_at s' nr) = bitmap_set (slots (region_at s nr)) i"
    "\<forall>x. x \<noteq> nr \<longrightarrow> slots (region_at s' x) = slots (region_at s x)"
    using get_node_available [OF assms(1,2) i] by blast
  ultimately show ?thesis
    by (intro exI [of _ i] exI [of _ r'] exI [of _ s']) (metis bitmap_is_set_set)
qed


text \<open>A page at address \<open>0x1000\<close> with the first of its 88-byte slots taken.\<close>

definition node_example :: node_state where
  "node_example = \<lparr>nphys = pmem_example,
     region_at = (\<lambda>_. empty_region\<lparr>used_nodes := 1, slots := (\<lambda>i. if i = 0 then 1 else 0)\<rparr>)\<rparr>"

lemma node_example_slots: "bitmap_is_set (slots (region_at node_example x)) k \<longleftrightarrow> k = 0"
proof -
  have one: "bit (if a = 0 then 1 else 0 :: u8) b \<longleftrightarrow> a = 0 \<and> b = 0" for a b :: nat by (simp add: bit_1_iff)
  have "slots (region_at node_example x) = (\<lambda>i. if i = 0 then 1 else 0)" by (simp add: node_example_def)
  then show ?thesis using div_mod_eq_iff [of k 0] by (simp only: bitmap_is_set_bit one div_0 mod_0)
qed

lemma node_example_layout:
  "av_head (node_layout 88 0x1000) = 0x1000" "unat (max_nodes (node_layout 88 0x1000)) = 45" "max_nodes (node_layout 88 0x1000) = 45"
  by (simp_all add: node_layout_def BASE_PAGE_SIZE_def sizeof_node_region_def align_up_def align_down_def is_powerof2_def Let_def)

theorem get_node_takes_free_witness:
  "\<exists>i r' s'. i < 45 \<and> i \<noteq> 0 \<and> get_node node_example (node_layout 88 0x1000) = Some (slot_addr (node_layout 88 0x1000) 0x1000 i, r', s')"
proof -
  have "\<exists>j < unat (max_nodes (node_layout 88 0x1000)). \<not> bitmap_is_set (slots (region_at node_example 0x1000)) j"
    by (intro exI [of _ 1]) (simp add: node_example_layout node_example_slots)
  from get_node_takes_free [OF node_example_layout(1) _ this] show ?thesis
    by (simp add: node_example_layout(2) node_example_slots) blast
qed





end
