(* ===== verification/Regions.thy ===== *)
theory Regions
  imports Paging Strings Nodes Sp_Remove "HOL-Library.Product_Lexorder"
begin

text \<open>
  Memory regions, \<^verbatim>\<open>src/regions.c\<close>: an arena of pages is cut into regions that form a doubly
  linked list by address; the used ones are in one balanced tree ordered by address, the free ones
  in another ordered by size and address. The region structures come from the node allocator.

  The fields of \<^verbatim>\<open>struct mem_region\<close> are split over two heaps with the same addresses: its
  tree links, which stand first in the structure, are nodes of the heap of \<open>Sp_Tree\<close>, and the rest are records
  here. Addresses and sizes of regions are in pages. A failed assertion, an access through \<^verbatim>\<open>NULL\<close> and
  a loop that does not end are \<open>None\<close>.
\<close>

section \<open>State\<close>

definition MR_USED :: u64 where "MR_USED = 0x100"
definition MR_KEEP :: u64 where "MR_KEEP = 0x200"
definition MR_SHARED :: u64 where "MR_SHARED = 0x400"
definition MR_NONBACKED :: u64 where "MR_NONBACKED = 0x800"

record mem_region =
  m_next :: ptr
  m_prev :: ptr
  m_end :: u64
  m_start :: u64
  m_pid :: int
  m_refcount :: u64
  m_flags :: u64

text \<open>The union of \<^verbatim>\<open>shaddr\<close> and \<^verbatim>\<open>refcount\<close> is the one field \<open>m_refcount\<close>.\<close>

record mem_region_root =
  reserved :: u64
  rr_start :: u64
  rr_end :: u64
  free_regions :: ptr
  used_regions :: ptr

record region_state =
  kvm :: vm_state
  knodes :: "ptr \<Rightarrow> node_region"
  kroot :: node_root
  regs_at :: "ptr \<Rightarrow> mem_region"
  links :: sp_heap
  kmem :: memory

definition upd_mreg :: "region_state \<Rightarrow> ptr \<Rightarrow> (mem_region \<Rightarrow> mem_region) \<Rightarrow> region_state" where
  [field_defs]: "upd_mreg s p f = s\<lparr>regs_at := (regs_at s)(p := f (regs_at s p))\<rparr>"

definition zero_mregion :: mem_region where
  "zero_mregion = \<lparr>m_next = NULL, m_prev = NULL, m_end = 0, m_start = 0, m_pid = 0, m_refcount = 0, m_flags = 0\<rparr>"

definition blank_node :: sp_node where
  "blank_node = \<lparr>sp_left = NULL, sp_right = NULL, sp_paren = NULL, hint = 0\<rparr>"

definition node_part :: "region_state \<Rightarrow> node_state" where
  "node_part s = \<lparr>nphys = phys (kvm s), region_at = knodes s\<rparr>"

definition with_nodes :: "region_state \<Rightarrow> node_root \<Rightarrow> node_state \<Rightarrow> region_state" where
  "with_nodes s r n = s\<lparr>kvm := (kvm s)\<lparr>phys := nphys n\<rparr>, knodes := region_at n, kroot := r\<rparr>"

definition sizeof_mem_region :: u64 where "sizeof_mem_region = 88"

definition init_mem_nodes :: "region_state \<Rightarrow> region_state option" where
  "init_mem_nodes s = map_option (\<lambda>(r, n). with_nodes s r n) (init_nodes (node_part s) sizeof_mem_region)"

definition destroy_mem_nodes :: "region_state \<Rightarrow> region_state option" where
  "destroy_mem_nodes s = map_option (with_nodes s (kroot s)) (destroy_nodes (node_part s) (kroot s))"

definition get_mem_node :: "region_state \<Rightarrow> (ptr \<times> region_state) option" where
  "get_mem_node s =
     map_option (\<lambda>(m, r, n).
         let s = with_nodes s r n
         in if m = NULL then (NULL, s)
            else (m, s\<lparr>regs_at := (regs_at s)(m := zero_mregion), links := (links s)(m := blank_node)\<rparr>))
       (get_node (node_part s) (kroot s))"

definition free_mem_node :: "region_state \<Rightarrow> ptr \<Rightarrow> region_state option" where
  "free_mem_node s m = map_option (\<lambda>(r, n). with_nodes s r n) (free_node (node_part s) (kroot s) m)"

definition mark_region_used :: "u64 \<Rightarrow> u64" where "mark_region_used f = set_bits_mask f MR_USED"

definition mark_region_unused :: "u64 \<Rightarrow> u64" where "mark_region_unused f = clear_bits f MR_USED"

definition is_region_used :: "mem_region \<Rightarrow> bool" where "is_region_used t = is_set (m_flags t) MR_USED"

definition is_region_kept :: "mem_region \<Rightarrow> bool" where "is_region_kept t = is_set (m_flags t) MR_KEEP"

section \<open>The trees\<close>

text \<open>
  The loop that both insertions share: walk down from \<open>n\<close>, to the left of a node where \<open>lft\<close> holds,
  and keep the last node and direction.
\<close>

partial_function (option) sp_place :: "sp_heap \<Rightarrow> (ptr \<Rightarrow> bool) \<Rightarrow> ptr \<Rightarrow> ptr \<Rightarrow> sp_dir \<Rightarrow> (ptr \<times> sp_dir) option" where
  "sp_place h lft n p d =
     (if n = NULL then Some (p, d)
      else if lft n then sp_place h lft (sp_left (h n)) n SP_LEFT
      else sp_place h lft (sp_right (h n)) n SP_RIGHT)"

definition left_of_free :: "(ptr \<Rightarrow> mem_region) \<Rightarrow> u64 \<Rightarrow> u64 \<Rightarrow> ptr \<Rightarrow> bool" where
  "left_of_free g sz start n =
     (let t = g n;
          nsize = m_end t - m_start t
      in if sz < nsize then True
         else if sz > nsize then False
         else if start < m_start t then True
         else False)"

definition insert_free_region :: "region_state \<Rightarrow> mem_region_root \<Rightarrow> ptr \<Rightarrow> (mem_region_root \<times> region_state) option" where
  "insert_free_region s r m =
     (let n = free_regions r;
          start = m_start (regs_at s m);
          sz = m_end (regs_at s m) - m_start (regs_at s m);
          s = s\<lparr>links := (links s)(m := blank_node)\<rparr>
      in do {
           (p, d) \<leftarrow> sp_place (links s) (left_of_free (regs_at s) sz start) n NULL SP_LEFT;
           (h, root) \<leftarrow> sp_insert (links s) (free_regions r) p m d;
           Some (r\<lparr>free_regions := root\<rparr>, s\<lparr>links := h\<rparr>)
         })"

definition insert_used_region :: "region_state \<Rightarrow> mem_region_root \<Rightarrow> ptr \<Rightarrow> (mem_region_root \<times> region_state) option" where
  "insert_used_region s r m =
     (let n = used_regions r;
          start = m_start (regs_at s m);
          s = s\<lparr>links := (links s)(m := blank_node)\<rparr>
      in do {
           (p, d) \<leftarrow> sp_place (links s) (\<lambda>t. start < m_start (regs_at s t)) n NULL SP_LEFT;
           (h, root) \<leftarrow> sp_insert (links s) (used_regions r) p m d;
           Some (r\<lparr>used_regions := root\<rparr>, s\<lparr>links := h\<rparr>)
         })"

definition init_region :: "region_state \<Rightarrow> mem_region_root \<Rightarrow> u64 \<Rightarrow> u64 \<Rightarrow> u64 \<Rightarrow> (stat_t \<times> mem_region_root \<times> region_state) option" where
  "init_region s r start arena_size res =
     (let start = page_nr start;
          arena_size = page_nr arena_size
      in do {
           (m, s) \<leftarrow> get_mem_node s;
           if m = NULL then Some (ERR_OOMEM, r, s)
           else
             let s = upd_mreg s m (\<lambda>t. t\<lparr>m_start := start, m_end := start + arena_size, m_flags := 0\<rparr>);
                 r = r\<lparr>reserved := page_nr res, rr_start := m_start (regs_at s m), rr_end := m_end (regs_at s m)\<rparr>
             in map_option (\<lambda>(r, s). (OK, r, s)) (insert_free_region s r m)
         })"

partial_function (option) destroy_tree :: "region_state \<Rightarrow> ptr \<Rightarrow> region_state option" where
  "destroy_tree s n =
     (if n = NULL then Some s
      else do {
        s \<leftarrow> (if sp_left (links s n) \<noteq> NULL then destroy_tree s (sp_left (links s n)) else Some s);
        s \<leftarrow> (if sp_right (links s n) \<noteq> NULL then destroy_tree s (sp_right (links s n)) else Some s);
        free_mem_node s n
      })"

definition destroy_region :: "region_state \<Rightarrow> mem_region_root \<Rightarrow> (stat_t \<times> region_state) option" where
  "destroy_region s r =
     do {
       s \<leftarrow> destroy_tree s (free_regions r);
       s \<leftarrow> destroy_tree s (used_regions r);
       Some (OK, s)
     }"

section \<open>Finding regions\<close>

partial_function (option) find_used_from :: "sp_heap \<Rightarrow> (ptr \<Rightarrow> mem_region) \<Rightarrow> u64 \<Rightarrow> ptr \<Rightarrow> ptr option" where
  "find_used_from h g ref n =
     (if n = NULL then Some NULL
      else if ref = m_start (g n) then Some n
      else if ref < m_start (g n) then find_used_from h g ref (sp_left (h n))
      else find_used_from h g ref (sp_right (h n)))"

definition find_used_region :: "region_state \<Rightarrow> mem_region_root \<Rightarrow> u64 \<Rightarrow> ptr option" where
  "find_used_region s r start = find_used_from (links s) (regs_at s) (page_nr start) (used_regions r)"

partial_function (option) find_closest_from :: "sp_heap \<Rightarrow> (ptr \<Rightarrow> mem_region) \<Rightarrow> u64 \<Rightarrow> ptr \<Rightarrow> ptr \<Rightarrow> u64 \<Rightarrow> ptr option" where
  "find_closest_from h g ref n closest md =
     (if n = NULL then Some closest
      else
        let d = word_of_int (ABS_c (sint ref - sint (m_start (g n)))) :: u64
        in if d = 0 then Some n
           else
             let (closest, md) = (if d < md then (n, d) else (closest, md))
             in if ref < m_start (g n) then find_closest_from h g ref (sp_left (h n)) closest md
                else find_closest_from h g ref (sp_right (h n)) closest md)"

definition find_closest_used_region :: "region_state \<Rightarrow> mem_region_root \<Rightarrow> u64 \<Rightarrow> ptr option" where
  "find_closest_used_region s r start =
     (if used_regions r = NULL then Some (free_regions r)
      else find_closest_from (links s) (regs_at s) (page_nr start) (used_regions r) NULL (- 1))"

definition find_addr_region :: "region_state \<Rightarrow> mem_region_root \<Rightarrow> u64 \<Rightarrow> ptr option" where
  "find_addr_region s r addr =
     (let ref = page_nr addr
      in map_option (\<lambda>m.
             if m = NULL \<or> (ref < m_start (regs_at s m) \<or> ref > m_end (regs_at s m)) \<or> \<not> is_region_used (regs_at s m)
             then NULL else m)
           (find_closest_used_region s r addr))"

fun po_align_from :: "mem_state \<Rightarrow> u64 \<Rightarrow> nat \<Rightarrow> u64" where
  "po_align_from g sz 0 = 0"
| "po_align_from g sz (Suc ord) = (if sz \<ge> order_size g (Suc ord) then order_size g (Suc ord) else po_align_from g sz ord)"

definition po_align :: "mem_state \<Rightarrow> u64 \<Rightarrow> u64" where
  "po_align g sz = po_align_from g sz (max_order g)"

text \<open>The result of \<open>find_free_region\<close> is the region and the value left in \<^verbatim>\<open>*align\<close>.\<close>

partial_function (option) find_free_from :: "region_state \<Rightarrow> mem_region_root \<Rightarrow> u64 \<Rightarrow> u64 \<Rightarrow> ptr \<Rightarrow> ptr \<Rightarrow> (ptr \<times> u64) option" where
  "find_free_from s r sz off n quick_best =
     (if n = NULL then Some (quick_best, 0)
      else
        let t = regs_at s n;
            start = align_up (m_start t) off;
            qsize = m_end t - m_start t;
            bsize = (if m_end t \<ge> start then m_end t - start else 0)
        in if start < rr_start r + reserved r then
             (if sp_right (links s n) \<noteq> NULL then find_free_from s r sz off (sp_right (links s n)) quick_best
              else
                let offset = reserved r - m_start t
                in if sz < qsize - offset then Some (quick_best, 0)
                   else if sz \<le> bsize - offset then Some (n, start - m_start t)
                   else Some (n, m_end t - sz))
           else
             let quick_best = (if quick_best = NULL \<and> sz \<le> qsize then n else quick_best)
             in if sz \<le> bsize then Some (n, start - m_start t)
                else find_free_from s r sz off (sp_right (links s n)) quick_best)"

definition find_free_region :: "region_state \<Rightarrow> mem_region_root \<Rightarrow> u64 \<Rightarrow> (ptr \<times> u64) option" where
  "find_free_region s r sz =
     (let off = page_nr (po_align (vgeom (kvm s)) (page_addr sz))
      in find_free_from s r sz off (free_regions r) NULL)"

partial_function (option) first_in_list :: "(ptr \<Rightarrow> mem_region) \<Rightarrow> ptr \<Rightarrow> ptr option" where
  "first_in_list g m = (if m_prev (g m) \<noteq> NULL then first_in_list g (m_prev (g m)) else Some m)"

definition find_first_region :: "region_state \<Rightarrow> mem_region_root \<Rightarrow> ptr option" where
  "find_first_region s r =
     do {
       m \<leftarrow> find_closest_used_region s r 0;
       if m = NULL then Some NULL else first_in_list (regs_at s) m
     }"

section \<open>Allocating and freeing\<close>

definition create_mregion :: "region_state \<Rightarrow> u64 \<Rightarrow> u64 \<Rightarrow> ptr \<Rightarrow> ptr \<Rightarrow> (ptr \<times> region_state) option" where
  "create_mregion s start tp prev next =
     do {
       (m, s) \<leftarrow> get_mem_node s;
       if m = NULL then None
       else Some (m, upd_mreg s m (\<lambda>t. t\<lparr>m_start := start, m_end := tp, m_prev := prev, m_next := next\<rparr>))
     }"

definition partition_before :: "region_state \<Rightarrow> mem_region_root \<Rightarrow> ptr \<Rightarrow> u64 \<Rightarrow> u64 \<Rightarrow> (mem_region_root \<times> region_state) option" where
  "partition_before s r m pre_start pre_end =
     (if pre_start = pre_end then Some (r, s)
      else do {
        (n, s) \<leftarrow> create_mregion s pre_start pre_end (m_prev (regs_at s m)) m;
        let s = upd_mreg s m (\<lambda>t. t\<lparr>m_prev := n\<rparr>);
            s = (if m_prev (regs_at s n) \<noteq> NULL then upd_mreg s (m_prev (regs_at s n)) (\<lambda>t. t\<lparr>m_next := n\<rparr>) else s)
        in insert_free_region s r n
      })"

definition partition_after :: "region_state \<Rightarrow> mem_region_root \<Rightarrow> ptr \<Rightarrow> u64 \<Rightarrow> u64 \<Rightarrow> (mem_region_root \<times> region_state) option" where
  "partition_after s r m post_start post_end =
     (if post_start = post_end then Some (r, s)
      else do {
        (n, s) \<leftarrow> create_mregion s post_start post_end m (m_next (regs_at s m));
        let s = upd_mreg s m (\<lambda>t. t\<lparr>m_next := n\<rparr>);
            s = (if m_next (regs_at s n) \<noteq> NULL then upd_mreg s (m_next (regs_at s n)) (\<lambda>t. t\<lparr>m_prev := n\<rparr>) else s)
        in insert_free_region s r n
      })"

definition remove_free :: "region_state \<Rightarrow> mem_region_root \<Rightarrow> ptr \<Rightarrow> (mem_region_root \<times> region_state) option" where
  "remove_free s r m =
     map_option (\<lambda>(h, root). (r\<lparr>free_regions := root\<rparr>, s\<lparr>links := h\<rparr>)) (sp_remove (links s) (free_regions r) m)"

definition remove_used :: "region_state \<Rightarrow> mem_region_root \<Rightarrow> ptr \<Rightarrow> (mem_region_root \<times> region_state) option" where
  "remove_used s r m =
     map_option (\<lambda>(h, root). (r\<lparr>used_regions := root\<rparr>, s\<lparr>links := h\<rparr>)) (sp_remove (links s) (used_regions r) m)"

text \<open>The end of \<open>__partition_region\<close>, which makes the middle part a used region.\<close>

definition claim_region :: "region_state \<Rightarrow> mem_region_root \<Rightarrow> ptr \<Rightarrow> u64 \<Rightarrow> u64 \<Rightarrow> u64 \<Rightarrow> int \<Rightarrow> (mem_region_root \<times> region_state) option" where
  "claim_region s r m start tp flags pid =
     (let s = upd_mreg s m (\<lambda>t. t\<lparr>m_end := tp, m_start := start, m_flags := flags, m_pid := pid\<rparr>);
          s = (if m_pid (regs_at s m) = 0 then upd_mreg s m (\<lambda>t. t\<lparr>m_refcount := 1\<rparr>) else s);
          s = upd_mreg s m (\<lambda>t. t\<lparr>m_flags := mark_region_used (m_flags t)\<rparr>)
      in insert_used_region s r m)"

definition partition_region :: "region_state \<Rightarrow> mem_region_root \<Rightarrow> ptr \<Rightarrow> u64 \<Rightarrow> u64 \<Rightarrow> u64 \<Rightarrow> int \<Rightarrow> (u64 \<times> mem_region_root \<times> region_state) option" where
  "partition_region s r m pages al flags pid =
     do {
       (r, s) \<leftarrow> remove_free s r m;
       let pre_start = m_start (regs_at s m);
           pre_end = pre_start + al;
           start = pre_end;
           tp = start + pages;
           post_start = tp;
           post_end = m_end (regs_at s m)
       in do {
            (r, s) \<leftarrow> partition_before s r m pre_start pre_end;
            (r, s) \<leftarrow> partition_after s r m post_start post_end;
            (r, s) \<leftarrow> claim_region s r m start tp flags pid;
            Some (page_addr start, r, s)
          }
     }"

text \<open>The allocators return the address and the size in bytes that is written to \<^verbatim>\<open>*actual_size\<close>.\<close>

definition alloc_shared_region :: "region_state \<Rightarrow> mem_region_root \<Rightarrow> u64 \<Rightarrow> u64 \<Rightarrow> int \<Rightarrow> (u64 \<times> u64 \<times> mem_region_root \<times> region_state) option" where
  "alloc_shared_region s r sz flags pid =
     (let asize = align_up sz BASE_PAGE_SIZE;
          pages = page_nr asize
      in do {
           (m, al) \<leftarrow> find_free_region s r pages;
           if m = NULL then Some (0, asize, r, s)
           else map_option (\<lambda>(a, r, s). (a, asize, r, s)) (partition_region s r m pages al flags pid)
         })"

definition alloc_region :: "region_state \<Rightarrow> mem_region_root \<Rightarrow> u64 \<Rightarrow> u64 \<Rightarrow> (u64 \<times> u64 \<times> mem_region_root \<times> region_state) option" where
  "alloc_region s r sz flags = alloc_shared_region s r sz flags 0"

text \<open>The walk along the list to the region that contains a page.\<close>

partial_function (option) locate_region :: "(ptr \<Rightarrow> mem_region) \<Rightarrow> u64 \<Rightarrow> ptr \<Rightarrow> ptr option" where
  "locate_region g ref m =
     (if m_start (g m) \<le> ref \<and> ref < m_end (g m) then Some m
      else
        let m = (if ref > m_start (g m) then m_next (g m) else m_prev (g m))
        in if m = NULL then None else locate_region g ref m)"

definition alloc_shared_fixed_region :: "region_state \<Rightarrow> mem_region_root \<Rightarrow> u64 \<Rightarrow> u64 \<Rightarrow> u64 \<Rightarrow> int \<Rightarrow> (u64 \<times> u64 \<times> mem_region_root \<times> region_state) option" where
  "alloc_shared_fixed_region s r start sz flags pid =
     (let asize = align_up sz BASE_PAGE_SIZE;
          pages = page_nr asize;
          ref = page_nr start
      in do {
           m \<leftarrow> find_closest_used_region s r start;
           if m = NULL then Some (0, asize, r, s)
           else do {
             m \<leftarrow> locate_region (regs_at s) ref m;
             if is_region_used (regs_at s m) then Some (0, asize, r, s)
             else if ref + pages > m_end (regs_at s m) then Some (0, asize, r, s)
             else map_option (\<lambda>(a, r, s). (a, asize, r, s))
                    (partition_region s r m pages (ref - m_start (regs_at s m)) flags pid)
           }
         })"

definition alloc_fixed_region :: "region_state \<Rightarrow> mem_region_root \<Rightarrow> u64 \<Rightarrow> u64 \<Rightarrow> u64 \<Rightarrow> (u64 \<times> u64 \<times> mem_region_root \<times> region_state) option" where
  "alloc_fixed_region s r start sz flags = alloc_shared_fixed_region s r start sz flags 0"

partial_function (option) try_coalesce_prev :: "region_state \<Rightarrow> mem_region_root \<Rightarrow> ptr \<Rightarrow> (mem_region_root \<times> region_state) option" where
  "try_coalesce_prev s r m =
     (if m = NULL \<or> is_region_used (regs_at s m) then Some (r, s)
      else
        let p = m_prev (regs_at s m)
        in if p = NULL \<or> is_region_used (regs_at s p) then Some (r, s)
           else
             let s = upd_mreg s m (\<lambda>t. t\<lparr>m_start := m_start (regs_at s p), m_prev := m_prev (regs_at s p)\<rparr>);
                 s = (if m_prev (regs_at s m) \<noteq> NULL then upd_mreg s (m_prev (regs_at s m)) (\<lambda>t. t\<lparr>m_next := m\<rparr>) else s)
             in do {
                  (r, s) \<leftarrow> remove_free s r p;
                  s \<leftarrow> free_mem_node s p;
                  try_coalesce_prev s r (m_prev (regs_at s m))
                })"

partial_function (option) try_coalesce_next :: "region_state \<Rightarrow> mem_region_root \<Rightarrow> ptr \<Rightarrow> (mem_region_root \<times> region_state) option" where
  "try_coalesce_next s r m =
     (if m = NULL \<or> is_region_used (regs_at s m) then Some (r, s)
      else
        let n = m_next (regs_at s m)
        in if n = NULL \<or> is_region_used (regs_at s n) then Some (r, s)
           else
             let s = upd_mreg s m (\<lambda>t. t\<lparr>m_end := m_end (regs_at s n), m_next := m_next (regs_at s n)\<rparr>);
                 s = (if m_next (regs_at s m) \<noteq> NULL then upd_mreg s (m_next (regs_at s m)) (\<lambda>t. t\<lparr>m_prev := m\<rparr>) else s)
             in do {
                  (r, s) \<leftarrow> remove_free s r n;
                  s \<leftarrow> free_mem_node s n;
                  try_coalesce_next s r (m_next (regs_at s m))
                })"

definition try_coalesce_regions :: "region_state \<Rightarrow> mem_region_root \<Rightarrow> ptr \<Rightarrow> (mem_region_root \<times> region_state) option" where
  "try_coalesce_regions s r m =
     do {
       (r, s) \<leftarrow> try_coalesce_prev s r m;
       try_coalesce_next s r m
     }"

definition free_known_region :: "region_state \<Rightarrow> mem_region_root \<Rightarrow> ptr \<Rightarrow> (mem_region_root \<times> region_state) option" where
  "free_known_region s r m =
     do {
       (r, s) \<leftarrow> remove_used s r m;
       let s = upd_mreg s m (\<lambda>t. t\<lparr>m_flags := mark_region_unused (m_flags t)\<rparr>)
       in do {
            (r, s) \<leftarrow> try_coalesce_regions s r m;
            insert_free_region s r m
          }
     }"

definition free_region :: "region_state \<Rightarrow> mem_region_root \<Rightarrow> u64 \<Rightarrow> (stat_t \<times> mem_region_root \<times> region_state) option" where
  "free_region s r start =
     (if \<not> is_aligned start BASE_PAGE_SIZE then Some (ERR_ALIGN, r, s)
      else do {
        m \<leftarrow> find_used_region s r start;
        if m = NULL then Some (ERR_NF, r, s)
        else map_option (\<lambda>(r, s). (OK, r, s)) (free_known_region s r m)
      })"

section \<open>Mapping regions\<close>

definition align_region :: "mem_state \<Rightarrow> u64 \<Rightarrow> u64 \<Rightarrow> u64 \<times> u64" where
  "align_region g start bytes =
     (let shift = unat (order_shift g 0);
          tp = start + bytes;
          new_start = push_bit shift (drop_bit shift start);
          new_top = push_bit shift (drop_bit shift tp);
          new_top = (if new_top \<noteq> tp then new_top + BASE_PAGE_SIZE else new_top)
      in (new_start, new_top - new_start))"

partial_function (option) map_region_from :: "vm_state \<Rightarrow> ptr \<Rightarrow> u64 \<Rightarrow> u64 \<Rightarrow> nat \<Rightarrow> u64 \<Rightarrow> (stat_t \<times> vm_state) option" where
  "map_region_from v b start bytes order flags =
     (if bytes = 0 then Some (OK, v)
      else
        let sz = order_size (vgeom v) order
        in do {
             (mapped, v) \<leftarrow>
               (if sz > bytes then Some (False, v)
                else if \<not> is_aligned start sz then Some (False, v)
                else do {
                  (page, p) \<leftarrow> alloc_page (phys v) order;
                  let v = v\<lparr>phys := p\<rparr>
                  in if page = 0 then Some (False, v)
                     else do {
                       (res, v) \<leftarrow> map_vpage v b page start flags order;
                       Some (res = OK, v)
                     }
                });
             if mapped then map_region_from v b (start + sz) (bytes - sz) order flags
             else if order = 0 then Some (ERR_MISC, v)
             else map_region_from v b start bytes (order - 1) flags
           })"

definition map_region :: "vm_state \<Rightarrow> ptr \<Rightarrow> u64 \<Rightarrow> u64 \<Rightarrow> nat \<Rightarrow> u64 \<Rightarrow> (stat_t \<times> vm_state) option" where
  "map_region v b start bytes order flags =
     (let (start, bytes) = align_region (vgeom v) start bytes
      in map_region_from v b start bytes order flags)"

partial_function (option) map_fixed_from :: "vm_state \<Rightarrow> ptr \<Rightarrow> u64 \<Rightarrow> u64 \<Rightarrow> u64 \<Rightarrow> u64 \<Rightarrow> (stat_t \<times> vm_state) option" where
  "map_fixed_from v b vad start bytes flags =
     (if bytes = 0 then Some (OK, v)
      else do {
        (ret, v) \<leftarrow> map_vpage v b start vad flags 0;
        if ret \<noteq> OK then Some (ret, v)
        else map_fixed_from v b (vad + BASE_PAGE_SIZE) (start + BASE_PAGE_SIZE) (bytes - BASE_PAGE_SIZE) flags
      })"

definition map_fixed_region :: "vm_state \<Rightarrow> ptr \<Rightarrow> u64 \<Rightarrow> u64 \<Rightarrow> u64 \<Rightarrow> u64 \<Rightarrow> (stat_t \<times> vm_state) option" where
  "map_fixed_region v b vad start bytes flags =
     (let vad = align_down vad BASE_PAGE_SIZE;
          (start, bytes) = align_region (vgeom v) start bytes
      in map_fixed_from v b vad start bytes flags)"

partial_function (option) clone_region_from :: "vm_state \<Rightarrow> ptr \<Rightarrow> ptr \<Rightarrow> u64 \<Rightarrow> u64 \<Rightarrow> u64 \<Rightarrow> u64 \<Rightarrow> (stat_t \<times> vm_state) option" where
  "clone_region_from v b g src dst bytes flags =
     (if bytes = 0 then Some (OK, v)
      else case stat_vpage v g src of
             None \<Rightarrow> Some (ERR_NF, v)
           | Some (addr, order, _) \<Rightarrow>
               do {
                 (res, v) \<leftarrow> map_vpage v b addr dst flags order;
                 if res \<noteq> OK then Some (res, v)
                 else
                   let sz = order_size (vgeom v) order
                   in clone_region_from v b g (src + sz) (dst + sz) (bytes - sz) flags
               })"

definition clone_region :: "vm_state \<Rightarrow> ptr \<Rightarrow> ptr \<Rightarrow> u64 \<Rightarrow> u64 \<Rightarrow> u64 \<Rightarrow> u64 \<Rightarrow> (stat_t \<times> vm_state) option" where
  "clone_region v b g src dst bytes flags =
     (let (src, from_size) = align_region (vgeom v) src bytes;
          (dst, to_size) = align_region (vgeom v) dst bytes
      in if from_size \<noteq> to_size then None else clone_region_from v b g src dst from_size flags)"

partial_function (option) copy_region_from :: "region_state \<Rightarrow> ptr \<Rightarrow> ptr \<Rightarrow> u64 \<Rightarrow> u64 \<Rightarrow> u64 \<Rightarrow> (stat_t \<times> region_state) option" where
  "copy_region_from s b g src dst bytes =
     (if bytes = 0 then Some (OK, s)
      else case stat_vpage (kvm s) g src of
             None \<Rightarrow> Some (ERR_NF, s)
           | Some (addr, order, flags) \<Rightarrow>
               do {
                 (page, p) \<leftarrow> alloc_page (phys (kvm s)) order;
                 let s = s\<lparr>kvm := (kvm s)\<lparr>phys := p\<rparr>\<rparr>
                 in if page = 0 then Some (ERR_OOMEM, s)
                    else do {
                      (res, v) \<leftarrow> map_vpage (kvm s) b page dst flags order;
                      if res \<noteq> OK then do {
                        p \<leftarrow> free_page (phys v) order page;
                        Some (res, s\<lparr>kvm := v\<lparr>phys := p\<rparr>\<rparr>)
                      }
                      else
                        let sz = order_size (vgeom v) order;
                            s = s\<lparr>kvm := v, kmem := memcpy (kmem s) page addr sz\<rparr>
                        in copy_region_from s b g (src + sz) (dst + sz) (bytes - sz)
                    }
               })"

definition copy_region :: "region_state \<Rightarrow> ptr \<Rightarrow> ptr \<Rightarrow> u64 \<Rightarrow> u64 \<Rightarrow> u64 \<Rightarrow> (stat_t \<times> region_state) option" where
  "copy_region s b g src dst bytes =
     (let (src, from_size) = align_region (vgeom (kvm s)) src bytes;
          (dst, to_size) = align_region (vgeom (kvm s)) dst bytes
      in if from_size \<noteq> to_size then None else copy_region_from s b g src dst from_size)"

text \<open>\<open>unmap_region\<close> frees the pages that \<open>unmap_fixed_region\<close> leaves alone: the loop takes which.\<close>

partial_function (option) unmap_from :: "bool \<Rightarrow> vm_state \<Rightarrow> ptr \<Rightarrow> u64 \<Rightarrow> u64 \<Rightarrow> vm_state option" where
  "unmap_from freeing v b vad bytes =
     (if bytes = 0 then Some v
      else case stat_vpage v b vad of
             None \<Rightarrow> Some v
           | Some (addr, order, _) \<Rightarrow>
               let v = snd (unmap_vpage v b vad)
               in do {
                    v \<leftarrow> (if freeing then map_option (\<lambda>p. v\<lparr>phys := p\<rparr>) (free_page (phys v) order addr) else Some v);
                    let sz = order_size (vgeom v) order
                    in unmap_from freeing v b (vad + sz) (bytes - sz)
                  })"

definition unmap_region :: "vm_state \<Rightarrow> ptr \<Rightarrow> u64 \<Rightarrow> u64 \<Rightarrow> vm_state option" where
  "unmap_region v b vad bytes =
     (let vad = align_down vad BASE_PAGE_SIZE;
          bytes = align_up (vad + bytes) BASE_PAGE_SIZE - vad
      in unmap_from True v b vad bytes)"

definition unmap_fixed_region :: "vm_state \<Rightarrow> ptr \<Rightarrow> u64 \<Rightarrow> u64 \<Rightarrow> vm_state option" where
  "unmap_fixed_region v b vad bytes =
     (let vad = align_down vad BASE_PAGE_SIZE;
          bytes = align_up (vad + bytes) BASE_PAGE_SIZE - vad
      in unmap_from False v b vad bytes)"

section \<open>Searching the trees\<close>

lemma sorted_wrt_mid:
  "sorted_wrt R (xs @ [x] @ ys) \<Longrightarrow> sorted_wrt R xs \<and> sorted_wrt R ys \<and> (\<forall>y \<in> set ys. R x y) \<and> (\<forall>a \<in> set xs. R a x)"
  by (simp add: sorted_wrt_append)

lemma sp_place_in_order:
  assumes "tree_at h par n t" "t \<noteq> Leaf" "sorted_wrt (\<lambda>x y. lft x \<longrightarrow> lft y) (inorder t)"
  shows "\<exists>p' d' us vs. sp_place h lft n p d = Some (p', d') \<and> inorder t = us @ p' # vs \<and> sp_room h p' d' \<and>
    (lft p' \<longleftrightarrow> d' = SP_LEFT) \<and> (\<forall>x \<in> set us. \<not> lft x) \<and> (\<forall>y \<in> set vs. lft y)"
  using assms
proof (induction t arbitrary: par n p d)
  case (Node l x r)
  then have n: "n = x" "x \<noteq> NULL" "tree_at h x (sp_left (h x)) l" "tree_at h x (sp_right (h x)) r" by auto
  note srt = sorted_wrt_mid [OF Node.prems(3) [unfolded inorder.simps]]
  note sl = srt [THEN conjunct1] and sr = srt [THEN conjunct2, THEN conjunct1]
  show ?case
  proof (cases "lft x")
    case True
    have right: "\<forall>y \<in> set (inorder r). lft y" using srt True by blast
    have step: "sp_place h lft n p d = sp_place h lft (sp_left (h x)) x SP_LEFT"
      using True n by (simp add: sp_place.simps [of h lft x])
    show ?thesis
    proof (cases "l = Leaf")
      case True
      then have "sp_left (h x) = NULL" using n by simp
      then show ?thesis using step True \<open>lft x\<close> right
        by (intro exI [of _ x] exI [of _ SP_LEFT] exI [of _ "[]"] exI [of _ "inorder r"])
          (simp add: sp_room_def sp_place.simps [of h lft NULL])
    next
      case False
      from Node.IH(1) [OF n(3) False sl, of x SP_LEFT] obtain p' d' us vs where
        "sp_place h lft (sp_left (h x)) x SP_LEFT = Some (p', d')" "inorder l = us @ p' # vs" "sp_room h p' d'"
        "lft p' \<longleftrightarrow> d' = SP_LEFT" "\<forall>x \<in> set us. \<not> lft x" "\<forall>y \<in> set vs. lft y" by blast
      then show ?thesis using step True right
        by (intro exI [of _ p'] exI [of _ d'] exI [of _ us] exI [of _ "vs @ x # inorder r"]) auto
    qed
  next
    case False
    have left: "\<forall>y \<in> set (inorder l). \<not> lft y" using srt False by blast
    have step: "sp_place h lft n p d = sp_place h lft (sp_right (h x)) x SP_RIGHT"
      using False n by (simp add: sp_place.simps [of h lft x])
    show ?thesis
    proof (cases "r = Leaf")
      case True
      then have "sp_right (h x) = NULL" using n by simp
      then show ?thesis using step True \<open>\<not> lft x\<close> left
        by (intro exI [of _ x] exI [of _ SP_RIGHT] exI [of _ "inorder l"] exI [of _ "[]"])
          (simp add: sp_room_def sp_place.simps [of h lft NULL])
    next
      case nonempty: False
      from Node.IH(2) [OF n(4) nonempty sr, of x SP_RIGHT] obtain p' d' us vs where
        "sp_place h lft (sp_right (h x)) x SP_RIGHT = Some (p', d')" "inorder r = us @ p' # vs" "sp_room h p' d'"
        "lft p' \<longleftrightarrow> d' = SP_LEFT" "\<forall>x \<in> set us. \<not> lft x" "\<forall>y \<in> set vs. lft y" by blast
      then show ?thesis using step False left
        by (intro exI [of _ p'] exI [of _ d'] exI [of _ "inorder l @ x # us"] exI [of _ vs]) auto
    qed
  qed
qed simp

lemma sp_seq_frame: "sp_seq h root xs \<Longrightarrow> (\<And>x. x \<in> set xs \<Longrightarrow> h' x = h x) \<Longrightarrow> sp_seq h' root xs"
  unfolding sp_seq_def by (metis set_inorder tree_at_cong)

lemma sp_seq_NULL: "sp_seq h root xs \<Longrightarrow> NULL \<notin> set xs"
  unfolding sp_seq_def by (metis set_inorder tree_at_NULL_notin)

lemma sp_seq_root: "sp_seq h root xs \<Longrightarrow> root = NULL \<longleftrightarrow> xs = []"
proof -
  assume "sp_seq h root xs"
  then obtain t where t: "tree_at h NULL root t" "inorder t = xs" by (auto simp: sp_seq_def)
  then show ?thesis using tree_at_Null [OF t(1)] by (cases t) auto
qed

text \<open>Descending by a key and inserting there keeps the keys along the tree sorted.\<close>

lemma place_insert_sorted:
  fixes key :: "ptr \<Rightarrow> 'k::linorder"
  assumes seq: "sp_seq h root xs" and srt: "sorted (map key xs)" and m: "m \<notin> set xs" "sp_blank h m"
  shows "\<exists>p d h' root' zs. sp_place h (\<lambda>n. key m < key n) root NULL SP_LEFT = Some (p, d) \<and>
    sp_insert h root p m d = Some (h', root') \<and> sp_seq h' root' zs \<and> set zs = insert m (set xs) \<and>
    sorted (map key zs) \<and> (\<forall>x. x \<noteq> m \<and> x \<notin> set xs \<longrightarrow> h' x = h x)"
proof (cases "xs = []")
  case True
  then have "root = NULL" using seq sp_seq_root by blast
  then have "sp_insert h root NULL m SP_LEFT = Some (h, m)" by (simp add: sp_insert_def)
  moreover have "sp_seq h m [m]"
    using m(2) by (auto simp: sp_seq_def sp_blank_def intro!: exI [of _ "Node Leaf m Leaf"])
  ultimately show ?thesis using True \<open>root = NULL\<close>
    by (intro exI [of _ NULL] exI [of _ SP_LEFT] exI [of _ h] exI [of _ m] exI [of _ "[m]"])
      (simp add: sp_place.simps [of h _ NULL])
next
  case False
  obtain t where t: "tree_at h NULL root t" "inorder t = xs" using seq by (auto simp: sp_seq_def)
  have "sorted_wrt (\<lambda>x y. key m < key x \<longrightarrow> key m < key y) xs"
    using srt unfolding sorted_map by (rule sorted_wrt_mono_rel [rotated]) auto
  then obtain p d us vs where p: "sp_place h (\<lambda>n. key m < key n) root NULL SP_LEFT = Some (p, d)" "xs = us @ p # vs"
    "sp_room h p d" "key m < key p \<longleftrightarrow> d = SP_LEFT" "\<forall>x \<in> set us. key x \<le> key m" "\<forall>y \<in> set vs. key m < key y"
    using sp_place_in_order [OF t(1), of "\<lambda>n. key m < key n" NULL SP_LEFT] t(2) False
    by (auto simp: not_less)
  let ?zs = "case d of SP_LEFT \<Rightarrow> us @ m # p # vs | SP_RIGHT \<Rightarrow> us @ p # m # vs"
  obtain h' root' where ins: "sp_insert h root p m d = Some (h', root')" "sp_seq h' root' ?zs"
    "\<forall>x. x \<notin> set (m # us @ p # vs) \<longrightarrow> h' x = h x"
    using sp_insert_seq [of h root us p vs m d] seq m p(2,3) by blast
  moreover have "sorted (map key ?zs)" "set ?zs = insert m (set xs)"
    using srt p(2,4-6) by (cases d; auto simp: sorted_append not_less intro: less_imp_le)+
  ultimately show ?thesis using p(1,2)
    by (intro exI [of _ p] exI [of _ d] exI [of _ h'] exI [of _ root'] exI [of _ ?zs]) auto
qed

lemma find_used_from_spec:
  assumes "tree_at h par n t" "sorted (map (\<lambda>x. m_start (g x)) (inorder t))"
  shows "\<exists>x. find_used_from h g ref n = Some x \<and>
    (x \<in> set_tree t \<and> m_start (g x) = ref \<or> x = NULL \<and> (\<forall>y \<in> set_tree t. m_start (g y) \<noteq> ref))"
  using assms
proof (induction t arbitrary: par n)
  case (Node l y r)
  then have n: "n = y" "y \<noteq> NULL" "tree_at h y (sp_left (h y)) l" "tree_at h y (sp_right (h y)) r" by auto
  have sl: "sorted (map (\<lambda>x. m_start (g x)) (inorder l))" and sr: "sorted (map (\<lambda>x. m_start (g x)) (inorder r))"
    and left: "\<forall>x \<in> set_tree l. m_start (g x) \<le> m_start (g y)" and right: "\<forall>x \<in> set_tree r. m_start (g y) \<le> m_start (g x)"
    using Node.prems(2) by (auto simp: sorted_append)
  consider "ref = m_start (g y)" | "ref < m_start (g y)" | "ref > m_start (g y)" by (rule linorder_cases)
  then show ?case
  proof cases
    case 1
    then show ?thesis using n by (subst find_used_from.simps) auto
  next
    case 2
    then have "find_used_from h g ref n = find_used_from h g ref (sp_left (h y))"
      using n by (subst find_used_from.simps) auto
    moreover have "\<forall>x \<in> set_tree r. m_start (g x) \<noteq> ref" "m_start (g y) \<noteq> ref" using right 2 by auto
    ultimately show ?thesis using Node.IH(1) [OF n(3) sl] by auto
  next
    case 3
    then have "find_used_from h g ref n = find_used_from h g ref (sp_right (h y))"
      using n by (subst find_used_from.simps) auto
    moreover have "\<forall>x \<in> set_tree l. m_start (g x) \<noteq> ref" "m_start (g y) \<noteq> ref" using left 3 by auto
    ultimately show ?thesis using Node.IH(2) [OF n(4) sr] by auto
  qed
qed (simp add: find_used_from.simps [of h g ref NULL])

end
