(* ===== verification/Tcb.thy ===== *)
theory Tcb
  imports Regions Queue
begin

text \<open>
  Threads: the control block of \<^verbatim>\<open>include/kmi/tcb.h\<close>, the table of threads of \<^verbatim>\<open>src/tcb.c\<close>, the registers a thread
  left behind (\<^verbatim>\<open>arch/riscv64/kernel/proc.c\<close>, \<^verbatim>\<open>cpu.c\<close>) and its RPC stack (the second half of
  \<^verbatim>\<open>arch/riscv64/kernel/vmem.c\<close>).

  A control block is a record at an address. The saved contexts and register frames on RPC stacks are typed cells at
  the address of the physical memory that holds them, in the direct map; the kernel reaches them either by that
  address or through the virtual address, which is translated by the tables that \<^verbatim>\<open>satp\<close> points to.
  Identifiers of threads are C \<^verbatim>\<open>int\<close>s. A failed assertion, an access outside of an array or through \<^verbatim>\<open>NULL\<close>, an
  overflow of a signed integer and a loop that does not end are \<open>None\<close>.
\<close>

section \<open>State\<close>

type_synonym id_t = int

definition INT_MAX :: int where "INT_MAX = 0x7fffffff"

text \<open>The conversions of a register value to a C \<^verbatim>\<open>int\<close>, which \<^verbatim>\<open>id_t\<close> and \<^verbatim>\<open>stat_t\<close> are, and back.\<close>

definition id_of :: "u64 \<Rightarrow> id_t" where "id_of v = sint (ucast v :: 32 word)"

definition arg_of :: "int \<Rightarrow> u64" where "arg_of i = word_of_int i"

record call_ctx =
  c_exec :: u64
  c_rpc_stack :: u64
  c_eid :: id_t
  c_pid :: id_t
  c_notify :: bool

definition sizeof_call_ctx :: u64 where "sizeof_call_ctx = 32"

text \<open>The registers the kernel reads and writes by name; the others are kept as one list.\<close>

record riscv_regs =
  r_sp :: u64
  r_a0 :: u64
  r_a1 :: u64
  r_a2 :: u64
  r_a3 :: u64
  r_a4 :: u64
  r_a5 :: u64
  r_others :: "u64 list"

record arch_tcbd =
  scratch :: u64
  rpc_leaf :: ptr
  rpc_page :: ptr
  rpc_idx :: int

record uvmem =
  uv_owner :: id_t
  uv_vmem :: ptr
  uv_region :: mem_region_root

definition TCB_ZOMBIE :: u32 where "TCB_ZOMBIE = 1"
definition TCB_ORPHAN :: u32 where "TCB_ORPHAN = 2"

record tcb =
  t_exec :: u64
  t_regs :: u64
  t_arch :: arch_tcbd
  t_uvmem :: uvmem
  t_callback :: u64
  t_thread_stack :: u64
  t_thread_stack_size :: u64
  t_rpc_stack :: u64
  t_refcount :: int
  t_proc :: ptr
  t_rpc :: ptr
  t_eid :: id_t
  t_pid :: id_t
  t_rid :: id_t
  t_tid :: id_t
  t_cpu_id :: id_t
  t_notify_id :: id_t
  t_notify_flags :: u32
  t_caps :: u32
  t_state :: u32

definition sizeof_tcb :: u64 where "sizeof_tcb = 216"

text \<open>Calls of the firmware are recorded in the order they are made.\<close>

datatype sbi_call =
    Set_Timer u64
  | Send_Ipi u64 u64
  | System_Reset u64 u64
  | Hart_Stop

record kernel_state =
  kmi :: region_state
  tcb_at :: "ptr \<Rightarrow> tcb"
  tcbs :: ptr
  tcb_slot :: "nat \<Rightarrow> ptr"
  num_tcbs :: id_t
  start_tid :: id_t
  cpu_slot :: "nat \<Rightarrow> ptr"
  tp_reg :: ptr
  ctx_at :: "ptr \<Rightarrow> call_ctx"
  frame_at :: "ptr \<Rightarrow> riscv_regs"
  canary_at :: "ptr \<Rightarrow> u32"
  ipi_links :: list_heap
  irqs_on :: bool
  bkl :: bool
  sbi_log :: "sbi_call list"
  time_csr :: u64
  thread_size :: u64
  rpc_size :: u64

abbreviation vm :: "kernel_state \<Rightarrow> vm_state" where "vm k \<equiv> kvm (kmi k)"
abbreviation kgeom :: "kernel_state \<Rightarrow> mem_state" where "kgeom k \<equiv> vgeom (vm k)"

definition with_vm :: "kernel_state \<Rightarrow> vm_state \<Rightarrow> kernel_state" where
  [field_defs]: "with_vm k v = k\<lparr>kmi := (kmi k)\<lparr>kvm := v\<rparr>\<rparr>"

definition upd_tcb :: "kernel_state \<Rightarrow> ptr \<Rightarrow> (tcb \<Rightarrow> tcb) \<Rightarrow> kernel_state" where
  [field_defs]: "upd_tcb k t f = k\<lparr>tcb_at := (tcb_at k)(t := f (tcb_at k t))\<rparr>"

definition upd_arch :: "kernel_state \<Rightarrow> ptr \<Rightarrow> (arch_tcbd \<Rightarrow> arch_tcbd) \<Rightarrow> kernel_state" where
  [field_defs]: "upd_arch k t f = upd_tcb k t (\<lambda>x. x\<lparr>t_arch := f (t_arch x)\<rparr>)"

definition upd_region_root :: "kernel_state \<Rightarrow> ptr \<Rightarrow> mem_region_root \<Rightarrow> kernel_state" where
  [field_defs]: "upd_region_root k t r = upd_tcb k t (\<lambda>x. x\<lparr>t_uvmem := (t_uvmem x)\<lparr>uv_region := r\<rparr>\<rparr>)"

definition zero_tcb :: tcb where
  "zero_tcb = \<lparr>t_exec = 0, t_regs = 0, t_arch = \<lparr>scratch = 0, rpc_leaf = NULL, rpc_page = NULL, rpc_idx = 0\<rparr>,
     t_uvmem = \<lparr>uv_owner = 0, uv_vmem = NULL,
       uv_region = \<lparr>reserved = 0, rr_start = 0, rr_end = 0, free_regions = NULL, used_regions = NULL\<rparr>\<rparr>,
     t_callback = 0, t_thread_stack = 0, t_thread_stack_size = 0, t_rpc_stack = 0, t_refcount = 0, t_proc = NULL, t_rpc = NULL, t_eid = 0, t_pid = 0, t_rid = 0,
     t_tid = 0, t_cpu_id = 0, t_notify_id = 0, t_notify_flags = 0, t_caps = 0, t_state = 0\<rparr>"

section \<open>RPC stacks\<close>

definition max_rpc_size :: u64 where "max_rpc_size = 0x80000"

text \<open>\<^verbatim>\<open>memcpy\<close> of a whole RPC stack, also for the typed cells in it.\<close>

definition copy_cells :: "(ptr \<Rightarrow> 'a) \<Rightarrow> ptr \<Rightarrow> ptr \<Rightarrow> u64 \<Rightarrow> ptr \<Rightarrow> 'a" where
  "copy_cells c dst src sz a = (if dst \<le> a \<and> a < dst + sz then c (a - dst + src) else c a)"

definition copy_rpc_stack :: "kernel_state \<Rightarrow> ptr \<Rightarrow> ptr \<Rightarrow> kernel_state" where
  "copy_rpc_stack k t c =
     (let page1 = pte_addr (kgeom k) (tables (vm k) (rpc_leaf (t_arch (tcb_at k t))) 0);
          page2 = pte_addr (kgeom k) (tables (vm k) (rpc_leaf (t_arch (tcb_at k c))) 0);
          sz = order_size (kgeom k) 1
      in k\<lparr>kmi := (kmi k)\<lparr>kmem := memcpy (kmem (kmi k)) page2 page1 sz\<rparr>,
           ctx_at := copy_cells (ctx_at k) page2 page1 sz, frame_at := copy_cells (frame_at k) page2 page1 sz\<rparr>)"

fun fill_rpc_leaf :: "mem_state \<Rightarrow> (nat \<Rightarrow> u64) \<Rightarrow> ptr \<Rightarrow> u64 \<Rightarrow> nat \<Rightarrow> nat \<Rightarrow> u64" where
  "fill_rpc_leaf g l page flags 0 = l"
| "fill_rpc_leaf g l page flags (Suc i) =
     (fill_rpc_leaf g l page flags i)(i := to_pte g (pa (page + of_nat i * BASE_PAGE_SIZE)) (vp_flags flags))"

text \<open>The pointer \<open>__find_vmem\<close> returns to the entry is used as the table, which it is for the first entry.\<close>

definition setup_rpc_stack :: "kernel_state \<Rightarrow> ptr \<Rightarrow> (stat_t \<times> kernel_state) option" where
  "setup_rpc_stack k t =
     (let flags = VM_V OR VM_R OR VM_W;
          flags = flags OR (VM_A OR VM_D)
      in do {
           (page, p) \<leftarrow> alloc_page (phys (vm k)) 1;
           let k = with_vm k ((vm k)\<lparr>phys := p\<rparr>)
           in if page = 0 then Some (ERR_OOMEM, k)
              else
                let k = upd_arch k t (\<lambda>a. a\<lparr>rpc_page := page\<rparr>)
                in do {
                     (st, v) \<leftarrow> map_vpage (vm k) (t_rpc (tcb_at k t)) page RPC_STACK_BASE flags 0;
                     if st \<noteq> OK then do {
                       p \<leftarrow> free_page (phys v) 1 page;
                       Some (ERR_OOMEM, with_vm k (v\<lparr>phys := p\<rparr>))
                     }
                     else do {
                       ((b, i), _) \<leftarrow> find_vmem v (t_rpc (tcb_at k t)) RPC_STACK_BASE;
                       let leaf = b + 8 * of_nat i;
                           k = upd_arch (with_vm k v) t (\<lambda>a. a\<lparr>rpc_leaf := leaf\<rparr>);
                           v = vm k;
                           v = v\<lparr>tables := (tables v)(leaf := fill_rpc_leaf (vgeom v) (tables v leaf) page flags (unat (rpc_pages v)))\<rparr>;
                           k = upd_tcb (with_vm k v) t (\<lambda>x. x\<lparr>t_rpc_stack := RPC_STACK_BASE + order_size (vgeom v) 1\<rparr>);
                           k = upd_arch k t (\<lambda>a. a\<lparr>rpc_idx := uint (rpc_pages v) - 1\<rparr>);
                           k = upd_tcb k t (\<lambda>x. x\<lparr>t_regs := t_rpc_stack x - sizeof_call_ctx\<rparr>)
                       in Some (OK, k)
                     }
                   }
         })"

definition destroy_rpc_stack :: "kernel_state \<Rightarrow> ptr \<Rightarrow> kernel_state option" where
  "destroy_rpc_stack k t =
     map_option (\<lambda>p. with_vm k ((vm k)\<lparr>phys := p\<rparr>)) (free_page (phys (vm k)) 1 (rpc_page (t_arch (tcb_at k t))))"

definition reset_rpc_stack :: "kernel_state \<Rightarrow> ptr \<Rightarrow> kernel_state" where
  "reset_rpc_stack k t =
     (let k = upd_tcb k t (\<lambda>x. x\<lparr>t_rpc_stack := RPC_STACK_BASE + (BASE_PAGE_SIZE * order_size (kgeom k) 1)\<rparr>)
      in upd_arch k t (\<lambda>a. a\<lparr>rpc_idx := uint (rpc_pages (vm k)) - 1\<rparr>))"

definition rpc_stack_empty :: "kernel_state \<Rightarrow> u64 \<Rightarrow> bool" where
  "rpc_stack_empty k addr \<longleftrightarrow> addr = RPC_STACK_BASE + order_size (kgeom k) 1"

definition rpc_position :: "kernel_state \<Rightarrow> ptr \<Rightarrow> u64" where
  "rpc_position k t = RPC_STACK_BASE + (BASE_PAGE_SIZE * word_of_int (rpc_idx (t_arch (tcb_at k t))))"

definition in_rpc_stack :: "kernel_state \<Rightarrow> ptr \<Rightarrow> u64 \<Rightarrow> bool" where
  "in_rpc_stack k t addr \<longleftrightarrow>
     addr \<ge> RPC_STACK_BASE \<and> addr < RPC_STACK_BASE + BASE_PAGE_SIZE * word_of_int (rpc_idx (t_arch (tcb_at k t)))"

text \<open>
  The loops over the entries of the leaf table. \<open>revoke_down\<close> and \<open>revoke_up\<close> take user access away until an
  entry without it or the end, \<open>grant\<close> gives it to the entries from \<open>i\<close> below \<open>n\<close>. An index outside of the table is \<open>None\<close>.
\<close>

function revoke_down :: "(nat \<Rightarrow> u64) \<Rightarrow> int \<Rightarrow> int \<Rightarrow> ((nat \<Rightarrow> u64) \<times> int) option" where
  "revoke_down l i m =
     (if i < m then
        (if i < 0 \<or> i \<ge> int RISCV_NUM_LEAVES then None
         else if pte_flags (l (nat i)) AND VM_U = 0 then Some (l, i)
         else revoke_down (l(nat i := clear_bits (l (nat i)) (vp_flags VM_U))) (i - 1) m)
      else Some (l, i))"
  by pat_completeness auto
termination by (relation "measure (\<lambda>(l, i, m). nat (i + 1))") auto

function revoke_up :: "(nat \<Rightarrow> u64) \<Rightarrow> int \<Rightarrow> int \<Rightarrow> ((nat \<Rightarrow> u64) \<times> int) option" where
  "revoke_up l i m =
     (if i < m then
        (if i < 0 \<or> i \<ge> int RISCV_NUM_LEAVES then None
         else if pte_flags (l (nat i)) AND VM_U = 0 then Some (l, i)
         else revoke_up (l(nat i := clear_bits (l (nat i)) (vp_flags VM_U))) (i + 1) m)
      else Some (l, i))"
  by pat_completeness auto
termination by (relation "measure (\<lambda>(l, i, m). nat (m - i))") auto

function grant :: "(nat \<Rightarrow> u64) \<Rightarrow> int \<Rightarrow> int \<Rightarrow> (nat \<Rightarrow> u64) option" where
  "grant l i n =
     (if i < n then
        (if i < 0 \<or> i \<ge> int RISCV_NUM_LEAVES then None
         else grant (l(nat i := set_bits_mask (l (nat i)) (vp_flags VM_U))) (i + 1) n)
      else Some l)"
  by pat_completeness auto
termination by (relation "measure (\<lambda>(l, i, n). nat (n - i))") auto

declare revoke_down.simps [simp del] revoke_up.simps [simp del] grant.simps [simp del]

definition rpc_table :: "kernel_state \<Rightarrow> ptr \<Rightarrow> nat \<Rightarrow> u64" where
  [field_defs]: "rpc_table k t = tables (vm k) (rpc_leaf (t_arch (tcb_at k t)))"

definition set_rpc_table :: "kernel_state \<Rightarrow> ptr \<Rightarrow> (nat \<Rightarrow> u64) \<Rightarrow> int \<Rightarrow> kernel_state" where
  [field_defs]: "set_rpc_table k t l idx =
     upd_arch (with_vm k ((vm k)\<lparr>tables := (tables (vm k))(rpc_leaf (t_arch (tcb_at k t)) := l)\<rparr>)) t (\<lambda>a. a\<lparr>rpc_idx := idx\<rparr>)"

definition reuse_rpc :: "kernel_state \<Rightarrow> ptr \<Rightarrow> kernel_state option" where
  "reuse_rpc k t =
     do {
       (l, top_idx) \<leftarrow> revoke_down (rpc_table k t) (rpc_idx (t_arch (tcb_at k t))) (uint (rpc_pages (vm k)) - 1);
       l \<leftarrow> grant l (top_idx + 1) (top_idx + 2);
       Some (set_rpc_table k t l (top_idx + 1))
     }"

definition new_rpc :: "kernel_state \<Rightarrow> ptr \<Rightarrow> kernel_state option" where
  "new_rpc k t =
     do {
       (l, _) \<leftarrow> revoke_down (rpc_table k t) (rpc_idx (t_arch (tcb_at k t))) (uint (rpc_pages (vm k)) - 1);
       let idx = rpc_idx (t_arch (tcb_at k t)) - 1 - 1
       in do {
            l \<leftarrow> grant l idx (idx + 1);
            Some (set_rpc_table k t l idx)
          }
     }"

definition destroy_rpc :: "kernel_state \<Rightarrow> ptr \<Rightarrow> kernel_state option" where
  "destroy_rpc k t =
     do {
       (l, top_idx) \<leftarrow> revoke_up (rpc_table k t) (rpc_idx (t_arch (tcb_at k t))) (uint (rpc_pages (vm k)) - 1);
       let top_idx = top_idx + 1;
           ctx = id_of ((t_rpc_stack (tcb_at k t) - RPC_STACK_BASE) div BASE_PAGE_SIZE)
       in do {
            l \<leftarrow> grant l top_idx (ctx - 1);
            Some (set_rpc_table k t l (ctx - 2))
          }
     }"

definition grow_rpc :: "kernel_state \<Rightarrow> ptr \<Rightarrow> u64 \<Rightarrow> kernel_state option" where
  "grow_rpc k t tp =
     (if \<not> is_aligned tp BASE_PAGE_SIZE then None
      else
        let top_idx = rpc_idx (t_arch (tcb_at k t));
            bottom_idx = id_of ((tp - RPC_STACK_BASE) div BASE_PAGE_SIZE)
        in if \<not> top_idx \<ge> bottom_idx then None
           else do {
             l \<leftarrow> grant (rpc_table k t) bottom_idx top_idx;
             Some (set_rpc_table k t l bottom_idx)
           })"


section \<open>Saved registers\<close>

text \<open>Address translation of the processor, with the walk that \<open>__find_vmem\<close> does in software.\<close>

definition satp_root :: "vm_state \<Rightarrow> ptr" where
  "satp_root v = va (push_bit (unat (page_shift (vgeom v))) (satp v AND 0xfffffffffff))"

definition mmu :: "vm_state \<Rightarrow> u64 \<Rightarrow> ptr option" where
  "mmu v a =
     (case find_vmem v (satp_root v) a of
        None \<Rightarrow> None
      | Some (p, order) \<Rightarrow> Some (pte_addr (vgeom v) (get_pte v p) + a mod order_size (vgeom v) order))"

record sys_ret =
  s_s :: u64
  s_id :: u64
  s_a0 :: u64
  s_a1 :: u64
  s_a2 :: u64
  s_a3 :: u64

abbreviation SYS_RET6 :: "u64 \<Rightarrow> u64 \<Rightarrow> u64 \<Rightarrow> u64 \<Rightarrow> u64 \<Rightarrow> u64 \<Rightarrow> sys_ret" where
  "SYS_RET6 a b c d e f \<equiv> \<lparr>s_s = a, s_id = b, s_a0 = c, s_a1 = d, s_a2 = e, s_a3 = f\<rparr>"

definition sizeof_riscv_regs :: u64 where "sizeof_riscv_regs = 248"

definition physical_regs :: "kernel_state \<Rightarrow> ptr \<Rightarrow> ptr" where
  "physical_regs k t =
     (let offset = t_regs (tcb_at k t) - RPC_STACK_BASE
      in rpc_page (t_arch (tcb_at k t)) + offset)"

text \<open>The register frame of a thread by its physical and by its virtual address.\<close>

definition phys_frame :: "kernel_state \<Rightarrow> ptr \<Rightarrow> ptr" where
  "phys_frame k t = physical_regs k t - sizeof_riscv_regs"

definition upd_frame :: "kernel_state \<Rightarrow> ptr \<Rightarrow> (riscv_regs \<Rightarrow> riscv_regs) \<Rightarrow> kernel_state" where
  [field_defs]: "upd_frame k p f = k\<lparr>frame_at := (frame_at k)(p := f (frame_at k p))\<rparr>"

definition set_ret_fast :: "kernel_state \<Rightarrow> ptr \<Rightarrow> sys_ret \<Rightarrow> kernel_state option" where
  "set_ret_fast k t a =
     map_option (\<lambda>p. upd_frame k p (\<lambda>r. r\<lparr>r_a0 := s_s a, r_a1 := s_id a, r_a2 := s_a0 a, r_a3 := s_a1 a, r_a4 := s_a2 a, r_a5 := s_a3 a\<rparr>))
       (mmu (vm k) (t_regs (tcb_at k t) - sizeof_riscv_regs))"

definition set_ret :: "kernel_state \<Rightarrow> ptr \<Rightarrow> nat \<Rightarrow> sys_ret \<Rightarrow> kernel_state" where
  "set_ret k t n a =
     upd_frame k (phys_frame k t) (\<lambda>r.
       let r = (if n \<ge> 1 then r\<lparr>r_a0 := s_s a\<rparr> else r);
           r = (if n \<ge> 2 then r\<lparr>r_a1 := s_id a\<rparr> else r);
           r = (if n \<ge> 3 then r\<lparr>r_a2 := s_a0 a\<rparr> else r);
           r = (if n \<ge> 4 then r\<lparr>r_a3 := s_a1 a\<rparr> else r);
           r = (if n \<ge> 5 then r\<lparr>r_a4 := s_a2 a\<rparr> else r)
       in if n \<ge> 6 then r\<lparr>r_a5 := s_a3 a\<rparr> else r)"

definition get_ret :: "kernel_state \<Rightarrow> ptr \<Rightarrow> sys_ret" where
  "get_ret k t = (let r = frame_at k (phys_frame k t) in SYS_RET6 (r_a0 r) (r_a1 r) (r_a2 r) (r_a3 r) (r_a4 r) (r_a5 r))"

definition set_thread :: "kernel_state \<Rightarrow> ptr \<Rightarrow> kernel_state" where
  "set_thread k t = upd_frame k (phys_frame k t) (\<lambda>r. r\<lparr>r_sp := t_rpc_stack (tcb_at k t) - BASE_PAGE_SIZE\<rparr>)"

definition set_stack :: "kernel_state \<Rightarrow> ptr \<Rightarrow> u64 \<Rightarrow> kernel_state" where
  "set_stack k t s = upd_frame k (phys_frame k t) (\<lambda>r. r\<lparr>r_sp := s\<rparr>)"

definition set_stack_fast :: "kernel_state \<Rightarrow> ptr \<Rightarrow> u64 \<Rightarrow> kernel_state option" where
  "set_stack_fast k t s =
     map_option (\<lambda>p. upd_frame k p (\<lambda>r. r\<lparr>r_sp := s\<rparr>)) (mmu (vm k) (t_regs (tcb_at k t) - sizeof_riscv_regs))"

definition get_stack :: "kernel_state \<Rightarrow> ptr \<Rightarrow> u64" where
  "get_stack k t = r_sp (frame_at k (phys_frame k t))"

definition copy_regs :: "kernel_state \<Rightarrow> ptr \<Rightarrow> ptr \<Rightarrow> kernel_state" where
  "copy_regs k d s = upd_frame k (phys_frame k d) (\<lambda>_. frame_at k (phys_frame k s))"

definition adjust_ipi :: "kernel_state \<Rightarrow> ptr \<Rightarrow> kernel_state" where "adjust_ipi k t = k"

definition adjust_syscall :: "kernel_state \<Rightarrow> ptr \<Rightarrow> kernel_state" where
  "adjust_syscall k t = upd_tcb k t (\<lambda>x. x\<lparr>t_exec := t_exec x + 4\<rparr>)"

definition set_args1 :: "kernel_state \<Rightarrow> ptr \<Rightarrow> u64 \<Rightarrow> kernel_state" where
  "set_args1 k t s = set_ret k t 2 (SYS_RET6 s 0 0 0 0 0)"

definition set_args2 :: "kernel_state \<Rightarrow> ptr \<Rightarrow> u64 \<Rightarrow> u64 \<Rightarrow> kernel_state" where
  "set_args2 k t s a = set_ret k t 3 (SYS_RET6 s 0 a 0 0 0)"

definition set_args4 :: "kernel_state \<Rightarrow> ptr \<Rightarrow> u64 \<Rightarrow> u64 \<Rightarrow> u64 \<Rightarrow> u64 \<Rightarrow> kernel_state" where
  "set_args4 k t s a b c = set_ret k t 5 (SYS_RET6 s 0 a b c 0)"

section \<open>Processors\<close>

definition cur_tcb :: "kernel_state \<Rightarrow> ptr" where "cur_tcb k = tp_reg k"

definition tcb_assign :: "kernel_state \<Rightarrow> ptr \<Rightarrow> kernel_state" where "tcb_assign k t = k\<lparr>tp_reg := t\<rparr>"

definition cpu_assign :: "kernel_state \<Rightarrow> ptr \<Rightarrow> kernel_state" where
  "cpu_assign k t =
     (let c = cur_tcb k;
          k = upd_tcb k t (\<lambda>x. x\<lparr>t_cpu_id := t_cpu_id (tcb_at k c)\<rparr>)
      in k\<lparr>tp_reg := t\<rparr>)"

definition cpu_id :: "kernel_state \<Rightarrow> id_t" where "cpu_id k = t_cpu_id (tcb_at k (cur_tcb k))"

definition cpu_tcb :: "kernel_state \<Rightarrow> id_t \<Rightarrow> ptr" where "cpu_tcb k c = cpu_slot k (nat c)"

definition use_tcb :: "kernel_state \<Rightarrow> ptr \<Rightarrow> kernel_state" where
  "use_tcb k t =
     (let k = cpu_assign k t;
          k = k\<lparr>cpu_slot := (cpu_slot k)(nat (t_cpu_id (tcb_at k t)) := t)\<rparr>
      in with_vm k (use_vmem (vm k) (t_rpc (tcb_at k t))))"

section \<open>The table of threads\<close>

definition max_tcbs :: "kernel_state \<Rightarrow> u64" where "max_tcbs k = word_of_int (num_tcbs k)"

definition init_tcbs :: "kernel_state \<Rightarrow> kernel_state option" where
  "init_tcbs k =
     do {
       (a, p) \<leftarrow> alloc_page (phys (vm k)) 1;
       let k = (with_vm k ((vm k)\<lparr>phys := p\<rparr>))\<lparr>tcbs := a, num_tcbs := id_of (order_size (geom p) 1 div 8)\<rparr>
       in if a = NULL \<or> \<not> is_powerof2 (word_of_int (num_tcbs k) :: u32) then None
          else Some (k\<lparr>tcb_slot := (\<lambda>_. NULL)\<rparr>)
     }"

definition destroy_tcbs :: "kernel_state \<Rightarrow> kernel_state option" where
  "destroy_tcbs k = map_option (\<lambda>p. with_vm k ((vm k)\<lparr>phys := p\<rparr>)) (free_page (phys (vm k)) 1 (tcbs k))"

definition tid_index :: "kernel_state \<Rightarrow> id_t \<Rightarrow> nat" where
  "tid_index k i = nat (i AND (num_tcbs k - 1))"

partial_function (option) alloc_tid_from :: "kernel_state \<Rightarrow> ptr \<Rightarrow> id_t \<Rightarrow> id_t \<Rightarrow> (id_t \<times> kernel_state) option" where
  "alloc_tid_from k t stop_tid i =
     (let i = (if i \<le> 0 then 1 else i)
      in if i = stop_tid then Some (ERR_NF, k)
         else if i = INT_MAX then None
         else if tcb_slot k (tid_index k i) \<noteq> NULL \<or> i = 0 then alloc_tid_from k t stop_tid (i + 1)
         else Some (i, k\<lparr>tcb_slot := (tcb_slot k)(tid_index k i := t), start_tid := i + 1\<rparr>))"

definition alloc_tid :: "kernel_state \<Rightarrow> ptr \<Rightarrow> (id_t \<times> kernel_state) option" where
  "alloc_tid k t = alloc_tid_from k t (start_tid k - 1) (start_tid k)"

text \<open>The stores to \<^verbatim>\<open>tcbs[tid]\<close>, without the mask that lookups use.\<close>

definition store_tcb :: "kernel_state \<Rightarrow> id_t \<Rightarrow> ptr \<Rightarrow> kernel_state option" where
  "store_tcb k tid t = (if 0 \<le> tid \<and> tid < num_tcbs k then Some (k\<lparr>tcb_slot := (tcb_slot k)(nat tid := t)\<rparr>) else None)"

text \<open>The assertion in \<open>get_tcb\<close> that the table exists holds once \<open>init_tcbs\<close> has run.\<close>

definition get_tcb :: "kernel_state \<Rightarrow> id_t \<Rightarrow> ptr" where
  "get_tcb k tid =
     (if tid \<le> 0 then NULL
      else
        let t = tcb_slot k (tid_index k tid)
        in if t = NULL then NULL
           else if t_tid (tcb_at k t) \<noteq> tid then NULL
           else t)"

abbreviation get_eproc :: "kernel_state \<Rightarrow> ptr \<Rightarrow> ptr" where "get_eproc k t \<equiv> get_tcb k (t_eid (tcb_at k t))"
abbreviation get_cproc :: "kernel_state \<Rightarrow> ptr \<Rightarrow> ptr" where "get_cproc k t \<equiv> get_tcb k (t_pid (tcb_at k t))"
abbreviation get_rproc :: "kernel_state \<Rightarrow> ptr \<Rightarrow> ptr" where "get_rproc k t \<equiv> get_tcb k (t_rid (tcb_at k t))"

definition cur_proc :: "kernel_state \<Rightarrow> ptr" where "cur_proc k = get_tcb k (t_pid (tcb_at k (cur_tcb k)))"

definition eff_proc :: "kernel_state \<Rightarrow> ptr" where "eff_proc k = get_tcb k (t_eid (tcb_at k (cur_tcb k)))"

definition orphan :: "kernel_state \<Rightarrow> ptr \<Rightarrow> bool" where
  "orphan k t \<longleftrightarrow> is_set (t_state (tcb_at k t)) TCB_ORPHAN"

definition orphanize :: "kernel_state \<Rightarrow> ptr \<Rightarrow> kernel_state" where
  "orphanize k t = upd_tcb k t (\<lambda>x. x\<lparr>t_state := set_bits_mask (t_state x) TCB_ORPHAN\<rparr>)"

definition is_proc :: "kernel_state \<Rightarrow> ptr \<Rightarrow> bool" where
  "is_proc k t \<longleftrightarrow> t_rid (tcb_at k t) = t_tid (tcb_at k t) \<and> \<not> orphan k t"

definition is_rpc :: "kernel_state \<Rightarrow> ptr \<Rightarrow> bool" where
  "is_rpc k t \<longleftrightarrow> \<not> rpc_stack_empty k (t_rpc_stack (tcb_at k t))"

definition set_return :: "kernel_state \<Rightarrow> ptr \<Rightarrow> u64 \<Rightarrow> kernel_state" where
  "set_return k t v = upd_tcb k t (\<lambda>x. x\<lparr>t_exec := v\<rparr>)"

definition running :: "kernel_state \<Rightarrow> ptr \<Rightarrow> bool" where
  "running k t \<longleftrightarrow> cpu_tcb k (t_cpu_id (tcb_at k t)) = t"

definition zombie :: "kernel_state \<Rightarrow> ptr \<Rightarrow> bool" where
  "zombie k t \<longleftrightarrow> t = NULL \<or> t_rid (tcb_at k t) = 0"

definition reference_thread :: "kernel_state \<Rightarrow> ptr \<Rightarrow> kernel_state" where
  "reference_thread k t = (if t = NULL then k else upd_tcb k t (\<lambda>x. x\<lparr>t_refcount := t_refcount x + 1\<rparr>))"

section \<open>Stack canaries\<close>

definition canary :: u32 where "canary = 0xb00b1e5"

definition get_canary :: "kernel_state \<Rightarrow> ptr \<Rightarrow> ptr" where
  "get_canary k t = (let s = order_size (kgeom k) 0 in align_down t s)"

definition set_canary :: "kernel_state \<Rightarrow> ptr \<Rightarrow> kernel_state" where
  "set_canary k t = k\<lparr>canary_at := (canary_at k)(get_canary k t := canary)\<rparr>"

definition check_canary :: "kernel_state \<Rightarrow> ptr \<Rightarrow> bool" where
  "check_canary k t \<longleftrightarrow> canary_at k (get_canary k t) \<noteq> canary"

section \<open>Inter-processor interrupts\<close>

text \<open>The links of a thread in the queue are named by the address of its control block. The queue itself has a
  fixed address below all of them.\<close>

definition ipi_fifo :: ptr where "ipi_fifo = 8"

definition sbi :: "kernel_state \<Rightarrow> sbi_call \<Rightarrow> kernel_state" where
  [field_defs]: "sbi k c = k\<lparr>sbi_log := sbi_log k @ [c]\<rparr>"

definition cpu_send_ipi :: "kernel_state \<Rightarrow> id_t \<Rightarrow> kernel_state" where
  "cpu_send_ipi k c = sbi k (Send_Ipi 1 (word_of_int c))"

definition send_ipi :: "kernel_state \<Rightarrow> ptr \<Rightarrow> kernel_state option" where
  "send_ipi k t =
     map_option (\<lambda>h. cpu_send_ipi (k\<lparr>ipi_links := h\<rparr>) (t_cpu_id (tcb_at k t))) (queue_push (ipi_links k) ipi_fifo t)"

definition unqueue_ipi :: "kernel_state \<Rightarrow> ptr \<Rightarrow> kernel_state option" where
  "unqueue_ipi k t = map_option (\<lambda>h. k\<lparr>ipi_links := h\<rparr>) (queue_del (ipi_links k) t)"

section \<open>The big kernel lock and interrupts\<close>

text \<open>\<open>Lock\<close> has the spin lock itself. Here one processor takes and releases it, and taking it twice never ends.\<close>

definition bkl_init :: "kernel_state \<Rightarrow> kernel_state" where "bkl_init k = k\<lparr>bkl := False\<rparr>"

definition bkl_lock :: "kernel_state \<Rightarrow> kernel_state option" where
  "bkl_lock k = (if bkl k then None else Some (k\<lparr>bkl := True\<rparr>))"

definition bkl_unlock :: "kernel_state \<Rightarrow> kernel_state" where "bkl_unlock k = k\<lparr>bkl := False\<rparr>"

definition enable_irqs :: "kernel_state \<Rightarrow> kernel_state" where "enable_irqs k = k\<lparr>irqs_on := True\<rparr>"

definition disable_irqs :: "kernel_state \<Rightarrow> kernel_state" where "disable_irqs k = k\<lparr>irqs_on := False\<rparr>"

section \<open>Power\<close>

definition SYS_SHUTDOWN :: u64 where "SYS_SHUTDOWN = 0"
definition SYS_COLD_REBOOT :: u64 where "SYS_COLD_REBOOT = 1"
definition SYS_WARM_REBOOT :: u64 where "SYS_WARM_REBOOT = 2"

definition poweroff :: "kernel_state \<Rightarrow> u64 \<Rightarrow> stat_t \<times> kernel_state" where
  "poweroff k type =
     (if type = SYS_SHUTDOWN then (ERR_MISC, sbi k (System_Reset 0 0))
      else if type = SYS_COLD_REBOOT then (ERR_MISC, sbi k (System_Reset 1 0))
      else if type = SYS_WARM_REBOOT then (ERR_MISC, sbi k (System_Reset 2 0))
      else (ERR_INVAL, k))"

definition sleep :: "kernel_state \<Rightarrow> stat_t \<times> kernel_state" where
  "sleep k = (ERR_MISC, sbi k Hart_Stop)"

end
