(* ===== verification/Uvmem.thy ===== *)
theory Uvmem
  imports Tcb
begin

text \<open>
  User memory (\<^verbatim>\<open>src/vmem.c\<close>) and the life of threads and processes (the rest of \<^verbatim>\<open>src/tcb.c\<close>). Freeing a region that
  another process owns drops a reference to that process, which may destroy it, which frees its regions: the five
  functions that do this call each other. Their bodies are definitions over the recursive calls, and \<open>teardown\<close> ties the knot.
\<close>

section \<open>Tearing down\<close>

datatype teardown_call =
    Unref_Thread ptr
  | Unref_Mem ptr u64
  | Free_Mapping ptr ptr
  | Purge_From ptr ptr

type_synonym teardown_fun = "teardown_call \<Rightarrow> kernel_state \<Rightarrow> kernel_state option"

definition find_in :: "kernel_state \<Rightarrow> ptr \<Rightarrow> u64 \<Rightarrow> ptr option" where
  "find_in k t v = find_used_region (kmi k) (uv_region (t_uvmem (tcb_at k t))) v"

definition free_known_in :: "kernel_state \<Rightarrow> ptr \<Rightarrow> ptr \<Rightarrow> kernel_state option" where
  "free_known_in k t m =
     map_option (\<lambda>(r, s). upd_region_root (k\<lparr>kmi := s\<rparr>) t r)
       (free_known_region (kmi k) (uv_region (t_uvmem (tcb_at k t))) m)"

definition upd_mem_region :: "kernel_state \<Rightarrow> ptr \<Rightarrow> (mem_region \<Rightarrow> mem_region) \<Rightarrow> kernel_state" where
  [field_defs]: "upd_mem_region k m f = k\<lparr>kmi := upd_mreg (kmi k) m f\<rparr>"

definition unreference_mem_body :: "teardown_fun \<Rightarrow> kernel_state \<Rightarrow> ptr \<Rightarrow> u64 \<Rightarrow> kernel_state option" where
  "unreference_mem_body self k s addr =
     do {
       src \<leftarrow> find_in k s addr;
       if src = NULL then None
       else if \<not> m_refcount (regs_at (kmi k) src) \<ge> 1 then None
       else
         let k = upd_mem_region k src (\<lambda>m. m\<lparr>m_refcount := m_refcount m - 1\<rparr>)
         in do {
              k \<leftarrow> (if m_refcount (regs_at (kmi k) src) = 0 then do {
                     k \<leftarrow> self (Free_Mapping s src) k;
                     free_known_in k s src
                   } else Some k);
              self (Unref_Thread s) k
            }
     }"

definition free_mapping_body :: "teardown_fun \<Rightarrow> kernel_state \<Rightarrow> ptr \<Rightarrow> ptr \<Rightarrow> kernel_state option" where
  "free_mapping_body self k t m =
     (let owner = get_tcb k (m_pid (regs_at (kmi k) m))
      in do {
           k \<leftarrow> (if owner \<noteq> NULL then self (Unref_Mem owner (m_refcount (regs_at (kmi k) m))) k else Some k);
           let x = regs_at (kmi k) m
           in if is_set (m_flags x) MR_NONBACKED then Some k
              else
                let start = page_addr (m_start x);
                    tp = page_addr (m_end x);
                    sz = tp - start;
                    b = uv_vmem (t_uvmem (tcb_at k t))
                in map_option (with_vm k)
                     (if m_pid x \<noteq> 0 then unmap_fixed_region (vm k) b start sz else unmap_region (vm k) b start sz)
         })"

definition purge_body :: "teardown_fun \<Rightarrow> kernel_state \<Rightarrow> ptr \<Rightarrow> ptr \<Rightarrow> kernel_state option" where
  "purge_body self k t m =
     (if m = NULL then Some k
      else do {
        k \<leftarrow> (if is_set (m_flags (regs_at (kmi k) m)) MR_USED then self (Free_Mapping t m) k else Some k);
        self (Purge_From t (m_next (regs_at (kmi k) m))) k
      })"

definition purge_uvmem_body :: "teardown_fun \<Rightarrow> kernel_state \<Rightarrow> ptr \<Rightarrow> kernel_state option" where
  "purge_uvmem_body self k t =
     (if uv_owner (t_uvmem (tcb_at k t)) \<noteq> t_tid (tcb_at k t) then Some k
      else do {
        m \<leftarrow> find_first_region (kmi k) (uv_region (t_uvmem (tcb_at k t)));
        k \<leftarrow> self (Purge_From t m) k;
        (_, s) \<leftarrow> destroy_region (kmi k) (uv_region (t_uvmem (tcb_at k t)));
        Some (k\<lparr>kmi := s\<rparr>)
      })"

definition destroy_uvmem_body :: "teardown_fun \<Rightarrow> kernel_state \<Rightarrow> ptr \<Rightarrow> kernel_state option" where
  "destroy_uvmem_body self k t =
     (if uv_owner (t_uvmem (tcb_at k t)) \<noteq> t_tid (tcb_at k t) then Some k
      else do {
        k \<leftarrow> purge_uvmem_body self k t;
        map_option (with_vm k) (destroy_vmem (vm k) (uv_vmem (t_uvmem (tcb_at k t))))
      })"

definition destroy_thread_data_body :: "teardown_fun \<Rightarrow> kernel_state \<Rightarrow> ptr \<Rightarrow> kernel_state option" where
  "destroy_thread_data_body self k t =
     (if t_refcount (tcb_at k t) \<noteq> 0 \<or> \<not> zombie k t then None
      else do {
        k \<leftarrow> store_tcb k (t_tid (tcb_at k t)) NULL;
        k \<leftarrow> destroy_uvmem_body self k t;
        let bottom = align_down t (order_size (kgeom k) 0)
        in map_option (\<lambda>p. with_vm k ((vm k)\<lparr>phys := p\<rparr>)) (free_page (phys (vm k)) 0 bottom)
      })"

definition unreference_thread_body :: "teardown_fun \<Rightarrow> kernel_state \<Rightarrow> ptr \<Rightarrow> kernel_state option" where
  "unreference_thread_body self k t =
     (if t = NULL then Some k
      else
        let k = upd_tcb k t (\<lambda>x. x\<lparr>t_refcount := t_refcount x - 1\<rparr>)
        in do {
             k \<leftarrow> (if t_refcount (tcb_at k t) = 0 then destroy_thread_data_body self k t else Some k);
             if t_refcount (tcb_at k t) \<ge> 0 then Some k else None
           })"

lemmas teardown_bodies = unreference_mem_body_def free_mapping_body_def purge_body_def purge_uvmem_body_def
  destroy_uvmem_body_def destroy_thread_data_body_def unreference_thread_body_def

lemma mono_unreference_thread [partial_function_mono]:
  assumes "\<And>c k. mono_option (\<lambda>f. g f c k)"
  shows "mono_option (\<lambda>f. unreference_thread_body (g f) k t)"
  unfolding teardown_bodies Let_def by (intro partial_function_mono assms)

lemma mono_unreference_mem [partial_function_mono]:
  assumes "\<And>c k. mono_option (\<lambda>f. g f c k)"
  shows "mono_option (\<lambda>f. unreference_mem_body (g f) k s a)"
  unfolding teardown_bodies Let_def by (intro partial_function_mono assms)

lemma mono_free_mapping [partial_function_mono]:
  assumes "\<And>c k. mono_option (\<lambda>f. g f c k)"
  shows "mono_option (\<lambda>f. free_mapping_body (g f) k t m)"
  unfolding teardown_bodies Let_def by (intro partial_function_mono assms)

lemma mono_purge [partial_function_mono]:
  assumes "\<And>c k. mono_option (\<lambda>f. g f c k)"
  shows "mono_option (\<lambda>f. purge_body (g f) k t m)"
  unfolding teardown_bodies Let_def by (intro partial_function_mono assms)

partial_function (option) teardown :: "teardown_call \<Rightarrow> kernel_state \<Rightarrow> kernel_state option" where
  "teardown c k =
     (case c of
        Unref_Thread t \<Rightarrow> unreference_thread_body (\<lambda>c k. teardown c k) k t
      | Unref_Mem s addr \<Rightarrow> unreference_mem_body (\<lambda>c k. teardown c k) k s addr
      | Free_Mapping t m \<Rightarrow> free_mapping_body (\<lambda>c k. teardown c k) k t m
      | Purge_From t m \<Rightarrow> purge_body (\<lambda>c k. teardown c k) k t m)"

definition unreference_thread :: "kernel_state \<Rightarrow> ptr \<Rightarrow> kernel_state option" where
  "unreference_thread k t = teardown (Unref_Thread t) k"

definition unreference_mem :: "kernel_state \<Rightarrow> ptr \<Rightarrow> u64 \<Rightarrow> kernel_state option" where
  "unreference_mem k s addr = teardown (Unref_Mem s addr) k"

definition free_mapping :: "kernel_state \<Rightarrow> ptr \<Rightarrow> ptr \<Rightarrow> kernel_state option" where
  "free_mapping k t m = teardown (Free_Mapping t m) k"

definition purge_uvmem :: "kernel_state \<Rightarrow> ptr \<Rightarrow> kernel_state option" where
  "purge_uvmem k t = purge_uvmem_body teardown k t"

definition destroy_uvmem :: "kernel_state \<Rightarrow> ptr \<Rightarrow> kernel_state option" where
  "destroy_uvmem k t = destroy_uvmem_body teardown k t"

section \<open>User memory\<close>

definition UVMEM_START :: u64 where "UVMEM_START = 0"

definition init_uvmem :: "kernel_state \<Rightarrow> ptr \<Rightarrow> (stat_t \<times> kernel_state) option" where
  "init_uvmem k t =
     (let k = upd_tcb k t (\<lambda>x. x\<lparr>t_uvmem := (t_uvmem x)\<lparr>uv_owner := t_tid x, uv_vmem := t_proc x\<rparr>\<rparr>)
      in map_option (\<lambda>(st, r, s). (st, upd_region_root (k\<lparr>kmi := s\<rparr>) t r))
           (init_region (kmi k) (uv_region (t_uvmem (tcb_at k t))) UVMEM_START (UVMEM_END - UVMEM_START) 0x10000))"

text \<open>The allocators and \<^verbatim>\<open>free_region\<close> on the regions of a thread.\<close>

definition alloc_in :: "kernel_state \<Rightarrow> ptr \<Rightarrow> (u64 \<times> u64 \<times> mem_region_root \<times> region_state) option \<Rightarrow> (u64 \<times> u64 \<times> kernel_state) option" where
  "alloc_in k t a = map_option (\<lambda>(v, sz, r, s). (v, sz, upd_region_root (k\<lparr>kmi := s\<rparr>) t r)) a"

definition free_in :: "kernel_state \<Rightarrow> ptr \<Rightarrow> u64 \<Rightarrow> kernel_state option" where
  "free_in k t v =
     map_option (\<lambda>(_, r, s). upd_region_root (k\<lparr>kmi := s\<rparr>) t r)
       (free_region (kmi k) (uv_region (t_uvmem (tcb_at k t))) v)"

abbreviation region_of :: "kernel_state \<Rightarrow> ptr \<Rightarrow> mem_region_root" where
  "region_of k t \<equiv> uv_region (t_uvmem (tcb_at k t))"

definition copy_mapped_region :: "kernel_state \<Rightarrow> ptr \<Rightarrow> ptr \<Rightarrow> ptr \<Rightarrow> (stat_t \<times> kernel_state) option" where
  "copy_mapped_region k d s m =
     (let x = regs_at (kmi k) m;
          start = m_start x * BASE_PAGE_SIZE;
          tp = m_end x * BASE_PAGE_SIZE
      in do {
           (v, sz, k) \<leftarrow> alloc_in k d (alloc_fixed_region (kmi k) (region_of k d) start (tp - start) (m_flags x));
           if ERR_CODE v then Some (id_of v, k)
           else if v \<noteq> start then None
           else if is_set (m_flags (regs_at (kmi k) m)) MR_NONBACKED then Some (id_of v, k)
           else do {
             (res, r) \<leftarrow> copy_region (kmi k) (uv_vmem (t_uvmem (tcb_at k d))) (uv_vmem (t_uvmem (tcb_at k s))) v v sz;
             let k = k\<lparr>kmi := r\<rparr>
             in if res = OK then Some (OK, k)
                else do {
                  k \<leftarrow> free_in k d v;
                  w \<leftarrow> unmap_region (vm k) (uv_vmem (t_uvmem (tcb_at k d))) v sz;
                  Some (res, with_vm k w)
                }
           }
         })"

definition reference_mem :: "kernel_state \<Rightarrow> ptr \<Rightarrow> ptr \<Rightarrow> u64 \<Rightarrow> u64 \<Rightarrow> kernel_state option" where
  "reference_mem k d s ref orig =
     do {
       src \<leftarrow> find_in k s orig;
       dst \<leftarrow> find_in k d ref;
       if src = NULL \<or> dst = NULL then None
       else if m_pid (regs_at (kmi k) dst) \<noteq> t_rid (tcb_at k s) then None
       else
         let k = upd_mem_region k dst (\<lambda>m. m\<lparr>m_refcount := orig\<rparr>);
             k = upd_mem_region k src (\<lambda>m. m\<lparr>m_refcount := m_refcount m + 1\<rparr>)
         in Some (reference_thread k s)
     }"

definition copy_shared_region :: "kernel_state \<Rightarrow> ptr \<Rightarrow> ptr \<Rightarrow> (stat_t \<times> kernel_state) option" where
  "copy_shared_region k d m =
     (let x = regs_at (kmi k) m;
          s = get_tcb k (m_pid x)
      in if s = NULL then Some (ERR_NF, k)
         else
           let start = m_start x * BASE_PAGE_SIZE;
               tp = m_end x * BASE_PAGE_SIZE
           in do {
                (v, sz, k) \<leftarrow> alloc_in k d
                  (alloc_shared_fixed_region (kmi k) (region_of k d) start (tp - start) (m_flags x) (m_pid x));
                if ERR_CODE v then Some (id_of v, k)
                else if v \<noteq> start then None
                else do {
                  (res, w) \<leftarrow> clone_region (vm k) (uv_vmem (t_uvmem (tcb_at k d))) (uv_vmem (t_uvmem (tcb_at k s))) start v sz
                    (m_flags (regs_at (kmi k) m));
                  let k = with_vm k w
                  in if res = OK then do {
                       k \<leftarrow> reference_mem k d s v v;
                       Some (OK, k)
                     }
                     else do {
                       k \<leftarrow> free_in k d v;
                       w \<leftarrow> unmap_fixed_region (vm k) (uv_vmem (t_uvmem (tcb_at k d))) v sz;
                       Some (res, with_vm k w)
                     }
                }
              })"

definition clone_shared_region :: "kernel_state \<Rightarrow> ptr \<Rightarrow> ptr \<Rightarrow> ptr \<Rightarrow> u64 \<Rightarrow> (u64 \<times> kernel_state) option" where
  "clone_shared_region k d s m flags =
     (let x = regs_at (kmi k) m;
          start = m_start x * BASE_PAGE_SIZE;
          tp = m_end x * BASE_PAGE_SIZE
      in do {
           (v, sz, k) \<leftarrow> alloc_in k d
             (alloc_shared_region (kmi k) (region_of k d) (tp - start) (MR_NONBACKED OR m_flags x) (t_rid (tcb_at k s)));
           if v = 0 then Some (0, k)
           else do {
             (res, w) \<leftarrow> clone_region (vm k) (uv_vmem (t_uvmem (tcb_at k d))) (uv_vmem (t_uvmem (tcb_at k s))) start v sz flags;
             let k = with_vm k w
             in if res = OK then do {
                  k \<leftarrow> reference_mem k d s v start;
                  Some (v, k)
                }
                else do {
                  k \<leftarrow> free_in k d v;
                  w \<leftarrow> unmap_fixed_region (vm k) (uv_vmem (t_uvmem (tcb_at k d))) v sz;
                  Some (arg_of res, with_vm k w)
                }
           }
         })"

text \<open>The loop of \<open>clear_uvmem\<close> reads the successor from a region that it may just have freed.\<close>

partial_function (option) clear_from :: "kernel_state \<Rightarrow> ptr \<Rightarrow> ptr \<Rightarrow> kernel_state option" where
  "clear_from k t m =
     (if m = NULL then Some k
      else
        let x = regs_at (kmi k) m
        in do {
             k \<leftarrow> (if is_region_kept x then Some k
                  else if \<not> is_set (m_flags x) MR_USED then Some k
                  else if m_pid x = 0 \<and> m_refcount x > 1 then
                    Some (upd_mem_region k m (\<lambda>m. m\<lparr>m_refcount := m_refcount m - 1\<rparr>))
                  else do {
                    k \<leftarrow> free_mapping k t m;
                    free_known_in k t m
                  });
             clear_from k t (m_next (regs_at (kmi k) m))
           })"

definition clear_uvmem :: "kernel_state \<Rightarrow> ptr \<Rightarrow> kernel_state option" where
  "clear_uvmem k t =
     (if uv_owner (t_uvmem (tcb_at k t)) \<noteq> t_tid (tcb_at k t) then Some k
      else do {
        m \<leftarrow> find_first_region (kmi k) (region_of k t);
        clear_from k t m
      })"

partial_function (option) copy_from :: "kernel_state \<Rightarrow> ptr \<Rightarrow> ptr \<Rightarrow> ptr \<Rightarrow> stat_t \<Rightarrow> (stat_t \<times> kernel_state) option" where
  "copy_from k d s m ret =
     (if m = NULL then Some (ret, k)
      else if \<not> is_region_used (regs_at (kmi k) m) then copy_from k d s (m_next (regs_at (kmi k) m)) ret
      else do {
        (ret, k) \<leftarrow> (if m_pid (regs_at (kmi k) m) = 0 then copy_mapped_region k d s m else copy_shared_region k d m);
        if ret \<noteq> OK then Some (ret, k)
        else copy_from k d s (m_next (regs_at (kmi k) m)) ret
      })"

definition copy_uvmem :: "kernel_state \<Rightarrow> ptr \<Rightarrow> ptr \<Rightarrow> (stat_t \<times> kernel_state) option" where
  "copy_uvmem k d s =
     do {
       m \<leftarrow> find_first_region (kmi k) (region_of k s);
       copy_from k d s m OK
     }"

text \<open>The end of the allocating functions: map, and undo the allocation when that fails.\<close>

definition map_or_undo :: "kernel_state \<Rightarrow> ptr \<Rightarrow> u64 \<Rightarrow> u64 \<Rightarrow> (stat_t \<times> vm_state) option \<Rightarrow> (u64 \<times> kernel_state) option" where
  "map_or_undo k t v sz mapped =
     do {
       (ret, w) \<leftarrow> mapped;
       let k = with_vm k w
       in if ret \<noteq> OK then do {
            w \<leftarrow> unmap_region (vm k) (t_proc (tcb_at k t)) v sz;
            k \<leftarrow> free_in (with_vm k w) t v;
            Some (arg_of ret, k)
          }
          else Some (v, k)
     }"

definition alloc_uvmem :: "kernel_state \<Rightarrow> ptr \<Rightarrow> u64 \<Rightarrow> u64 \<Rightarrow> (u64 \<times> kernel_state) option" where
  "alloc_uvmem k t sz flags =
     (if t = NULL \<or> \<not> is_proc k t then None
      else do {
        (v, sz, k) \<leftarrow> alloc_in k t (alloc_region (kmi k) (region_of k t) sz flags);
        if ERR_CODE v then Some (v, k)
        else map_or_undo k t v sz (map_region (vm k) (t_proc (tcb_at k t)) v sz (max_order (kgeom k)) flags)
      })"

definition alloc_fixed_uvmem :: "kernel_state \<Rightarrow> ptr \<Rightarrow> u64 \<Rightarrow> u64 \<Rightarrow> u64 \<Rightarrow> (u64 \<times> kernel_state) option" where
  "alloc_fixed_uvmem k t start sz flags =
     (if t = NULL \<or> \<not> is_proc k t then None
      else do {
        (v, sz, k) \<leftarrow> alloc_in k t (alloc_fixed_region (kmi k) (region_of k t) start sz flags);
        if ERR_CODE v then Some (v, k)
        else map_or_undo k t v sz (map_region (vm k) (t_proc (tcb_at k t)) v sz (max_order (kgeom k)) flags)
      })"

definition map_shared_fixed_uvmem :: "kernel_state \<Rightarrow> ptr \<Rightarrow> u64 \<Rightarrow> u64 \<Rightarrow> u64 \<Rightarrow> (u64 \<times> kernel_state) option" where
  "map_shared_fixed_uvmem k t start sz flags =
     (if \<not> is_aligned start BASE_PAGE_SIZE then None
      else do {
        (v, sz, k) \<leftarrow> alloc_in k t (alloc_shared_region (kmi k) (region_of k t) sz flags 0);
        if v = 0 then Some (0, k)
        else map_or_undo k t v sz (map_fixed_region (vm k) (t_proc (tcb_at k t)) v start sz flags)
      })"

text \<open>The result is the address, and what is written to \<^verbatim>\<open>*startp\<close> and \<^verbatim>\<open>*sizep\<close> when anything is.\<close>

definition alloc_uvpage :: "kernel_state \<Rightarrow> ptr \<Rightarrow> u64 \<Rightarrow> u64 \<Rightarrow> (u64 \<times> (u64 \<times> u64) option \<times> kernel_state) option" where
  "alloc_uvpage k t sz flags =
     do {
       order \<leftarrow> nearest_order (kgeom k) sz;
       let sz = order_size (kgeom k) order
       in do {
            (v, sz, k) \<leftarrow> alloc_in k t (alloc_region (kmi k) (region_of k t) sz flags);
            if ERR_CODE v then Some (v, None, k)
            else do {
              (start, p) \<leftarrow> alloc_page (phys (vm k)) order;
              let k = with_vm k ((vm k)\<lparr>phys := p\<rparr>)
              in if start = 0 then do {
                   k \<leftarrow> free_in k t sz;
                   Some (arg_of ERR_OOMEM, None, k)
                 }
                 else do {
                   (ret, w) \<leftarrow> map_fixed_region (vm k) (t_proc (tcb_at k t)) v start sz flags;
                   let k = with_vm k w
                   in if ret \<noteq> OK then do {
                        w \<leftarrow> unmap_region (vm k) (t_proc (tcb_at k t)) v sz;
                        k \<leftarrow> free_in (with_vm k w) t v;
                        Some (arg_of ret, None, k)
                      }
                      else Some (v, Some (pa start, sz), k)
                 }
            }
          }
     }"

definition alloc_shared_uvmem :: "kernel_state \<Rightarrow> ptr \<Rightarrow> u64 \<Rightarrow> u64 \<Rightarrow> (u64 \<times> kernel_state) option" where
  "alloc_shared_uvmem k s sz flags =
     (if s = NULL \<or> \<not> is_proc k s then None
      else do {
        (v, sz, k) \<leftarrow> alloc_in k s (alloc_region (kmi k) (region_of k s) sz (MR_SHARED OR flags));
        if ERR_CODE v then Some (v, k)
        else map_or_undo k s v sz (map_region (vm k) (t_proc (tcb_at k s)) v sz 0 flags)
      })"

definition ref_shared_uvmem :: "kernel_state \<Rightarrow> ptr \<Rightarrow> ptr \<Rightarrow> u64 \<Rightarrow> u64 \<Rightarrow> (u64 \<times> kernel_state) option" where
  "ref_shared_uvmem k d s v flags =
     do {
       m \<leftarrow> find_in k s v;
       if m = NULL then Some (arg_of ERR_NF, k)
       else if \<not> is_set (m_flags (regs_at (kmi k) m)) MR_SHARED then Some (arg_of ERR_INVAL, k)
       else clone_shared_region k d s m flags
     }"

definition free_uvmem :: "kernel_state \<Rightarrow> ptr \<Rightarrow> u64 \<Rightarrow> (stat_t \<times> kernel_state) option" where
  "free_uvmem k r a =
     do {
       m \<leftarrow> find_in k r a;
       if m = NULL then Some (ERR_NF, k)
       else if m_pid (regs_at (kmi k) m) = 0 \<and> m_refcount (regs_at (kmi k) m) > 1 then Some (ERR_INVAL, k)
       else do {
         k \<leftarrow> free_mapping k r m;
         k \<leftarrow> free_known_in k r m;
         Some (OK, k)
       }
     }"

definition sanitize_uvflags :: "u64 \<Rightarrow> u64" where
  "sanitize_uvflags flags = (flags AND (VM_R OR VM_W OR VM_X)) OR VM_V OR VM_U"

text \<open>\<open>handle_pagefault\<close>; a fault that is no fault of the tables is a kernel panic, \<open>None\<close>.\<close>

definition handle_pagefault :: "kernel_state \<Rightarrow> u64 \<Rightarrow> kernel_state option" where
  "handle_pagefault k addr =
     (let t = cur_tcb k
      in if in_rpc_stack k t addr then grow_rpc k t (align_down addr BASE_PAGE_SIZE)
         else
           let p = get_cproc k t
           in if p = NULL then None else do {
                m \<leftarrow> find_addr_region (kmi k) (region_of k p) addr;
                if m = NULL then None
                else Some (with_vm k (clone_uvmem (vm k) (t_proc (tcb_at k p)) (t_rpc (tcb_at k t))))
              })"

section \<open>Threads and processes\<close>

definition init_free_thread :: "kernel_state \<Rightarrow> ptr \<Rightarrow> (stat_t \<times> kernel_state) option" where
  "init_free_thread k t =
     do {
       (b, v) \<leftarrow> create_vmem (vm k);
       let k = upd_tcb (with_vm k v) t (\<lambda>x. x\<lparr>t_proc := b\<rparr>)
       in if b = NULL then Some (ERR_OOMEM, k)
          else do {
            (st, k) \<leftarrow> init_uvmem k t;
            if st \<noteq> OK then do {
              v \<leftarrow> destroy_vmem (vm k) (t_proc (tcb_at k t));
              Some (ERR_OOMEM, with_vm k v)
            }
            else do {
              (b, v) \<leftarrow> create_vmem (vm k);
              let k = upd_tcb (with_vm k v) t (\<lambda>x. x\<lparr>t_rpc := b\<rparr>)
              in if b = NULL then do {
                   v \<leftarrow> destroy_vmem (vm k) (t_proc (tcb_at k t));
                   Some (ERR_OOMEM, with_vm k v)
                 }
                 else do {
                   (st, k) \<leftarrow> setup_rpc_stack k t;
                   if st \<noteq> OK then do {
                     v \<leftarrow> destroy_rpcmem (vm k) (t_rpc (tcb_at k t));
                     v \<leftarrow> destroy_vmem v (t_proc (tcb_at k t));
                     Some (ERR_OOMEM, with_vm k v)
                   }
                   else Some (OK, upd_tcb k t (\<lambda>x. x\<lparr>t_pid := t_tid x, t_eid := t_tid x, t_rid := t_tid x\<rparr>))
                 }
            }
          }
     }"

text \<open>\<open>__init_owned_thread\<close> returns \<^verbatim>\<open>NULL\<close>, which is \<^verbatim>\<open>OK\<close>, when it gets no address space.\<close>

definition init_owned_thread :: "kernel_state \<Rightarrow> ptr \<Rightarrow> ptr \<Rightarrow> (stat_t \<times> kernel_state) option" where
  "init_owned_thread k p t =
     (let rid = t_rid (tcb_at k p);
          k = upd_tcb k t (\<lambda>x. x\<lparr>t_eid := rid, t_pid := rid, t_rid := rid, t_proc := NULL, t_callback := t_callback (tcb_at k p)\<rparr>)
      in do {
           (b, v) \<leftarrow> create_vmem (vm k);
           let k = upd_tcb (with_vm k v) t (\<lambda>x. x\<lparr>t_rpc := b\<rparr>)
           in if b = NULL then Some (0, k)
              else do {
                (st, k) \<leftarrow> setup_rpc_stack k t;
                if st \<noteq> OK then do {
                  v \<leftarrow> destroy_rpcmem (vm k) (t_rpc (tcb_at k t));
                  Some (ERR_OOMEM, with_vm k v)
                }
                else
                  let k = upd_tcb k t (\<lambda>x. x\<lparr>t_regs := t_rpc_stack x - sizeof_call_ctx\<rparr>)
                  in Some (OK, reference_thread k p)
              }
         })"

definition create_thread :: "kernel_state \<Rightarrow> ptr \<Rightarrow> (ptr \<times> kernel_state) option" where
  "create_thread k p =
     (if tcbs k = NULL then None
      else do {
        (bottom, q) \<leftarrow> alloc_page (phys (vm k)) 0;
        let k = with_vm k ((vm k)\<lparr>phys := q\<rparr>)
        in if bottom = 0 then Some (NULL, k)
           else
             let t = align_down (bottom + order_size (kgeom k) 0 - sizeof_tcb) 8;
                 k = upd_tcb k t (\<lambda>_. zero_tcb);
                 k = k\<lparr>ipi_links := (ipi_links k)(t := \<lparr>nxt = NULL, prv = NULL\<rparr>)\<rparr>
             in do {
                  (tid, k) \<leftarrow> alloc_tid k t;
                  k \<leftarrow> store_tcb k tid t;
                  let k = upd_tcb k t (\<lambda>x. x\<lparr>t_tid := tid, t_state := 0\<rparr>)
                  in do {
                       (r, k) \<leftarrow> (if p \<noteq> NULL then init_owned_thread k p t else init_free_thread k t);
                       if r \<noteq> OK then do {
                         q \<leftarrow> free_page (phys (vm k)) 0 bottom;
                         Some (NULL, with_vm k ((vm k)\<lparr>phys := q\<rparr>))
                       }
                       else
                         let parent = get_rproc k t
                         in if parent = NULL \<or> t_proc (tcb_at k parent) = NULL \<or> t_rpc (tcb_at k t) = NULL then None
                            else
                              let k = with_vm k (clone_uvmem (vm k) (t_proc (tcb_at k parent)) (t_rpc (tcb_at k t)));
                                  k = reference_thread k t
                              in Some (t, set_canary k t)
                     }
                }
      })"

definition copy_caps :: "kernel_state \<Rightarrow> ptr \<Rightarrow> ptr \<Rightarrow> kernel_state" where
  "copy_caps k n p = upd_tcb k n (\<lambda>x. x\<lparr>t_caps := t_caps (tcb_at k p)\<rparr>)"

definition copy_proc :: "kernel_state \<Rightarrow> ptr \<Rightarrow> ptr \<Rightarrow> (stat_t \<times> kernel_state) option" where
  "copy_proc k p n =
     (let k = upd_tcb k n (\<lambda>x. x\<lparr>t_exec := t_exec (tcb_at k p)\<rparr>);
          k = upd_tcb k n (\<lambda>x. x\<lparr>t_callback := t_callback (tcb_at k p)\<rparr>);
          k = copy_regs k n p;
          k = copy_caps k n p;
          k = copy_rpc_stack k p n
      in copy_uvmem k n p)"

definition create_proc :: "kernel_state \<Rightarrow> ptr \<Rightarrow> (ptr \<times> kernel_state) option" where
  "create_proc k p =
     (if tcbs k = NULL then None
      else do {
        (n, k) \<leftarrow> create_thread k NULL;
        if n = NULL then Some (NULL, k)
        else if p \<noteq> NULL then map_option (\<lambda>(_, k). (n, k)) (copy_proc k p n)
        else Some (n, k)
      })"

definition destroy_thread :: "kernel_state \<Rightarrow> ptr \<Rightarrow> (stat_t \<times> kernel_state) option" where
  "destroy_thread k t =
     (if tcbs k = NULL \<or> t_tid (tcb_at k t) = 1 then None
      else
        let r = get_rproc k t
        in do {
             k \<leftarrow> (if r \<noteq> t then unreference_thread k r else Some k);
             k \<leftarrow> destroy_rpc_stack k t;
             v \<leftarrow> destroy_rpcmem (vm k) (t_rpc (tcb_at k t));
             k \<leftarrow> unqueue_ipi (with_vm k v) t;
             let k = upd_tcb k t (\<lambda>x. x\<lparr>t_state := set_bits_mask (t_state x) TCB_ZOMBIE, t_rid := 0\<rparr>)
             in map_option (\<lambda>k. (OK, k)) (unreference_thread k t)
           })"

definition destroy_proc :: "kernel_state \<Rightarrow> ptr \<Rightarrow> (stat_t \<times> kernel_state) option" where
  "destroy_proc k p =
     (if tcbs k = NULL \<or> \<not> is_proc k p then None
      else map_option (\<lambda>k. (OK, k)) (clear_uvmem k p))"

section \<open>Device memory\<close>

text \<open>The two arenas of \<^verbatim>\<open>src/dmem.c\<close>, before and behind RAM, are passed along with the state.\<close>

record devmem =
  pre_ram :: mem_region_root
  post_ram :: mem_region_root

definition init_devmem :: "kernel_state \<Rightarrow> devmem \<Rightarrow> u64 \<Rightarrow> u64 \<Rightarrow> (stat_t \<times> devmem \<times> kernel_state) option" where
  "init_devmem k dm rbase rtop =
     (let pre_pages = pages_of rbase;
          ram_pages = pages_of (rtop - rbase);
          post_pages = pages_of (- 1) - ram_pages - pre_pages
      in do {
           (_, pre, s) \<leftarrow> init_region (kmi k) (pre_ram dm) 0 pre_pages 0;
           (_, post, s) \<leftarrow> init_region s (post_ram dm) rtop post_pages 0;
           Some (OK, dm\<lparr>pre_ram := pre, post_ram := post\<rparr>, k\<lparr>kmi := s\<rparr>)
         })"

datatype dev_side = Pre_Ram | Post_Ram

definition select_region :: "kernel_state \<Rightarrow> u64 \<Rightarrow> dev_side option" where
  "select_region k addr =
     (if addr < ram_base (kgeom k) then Some Pre_Ram
      else if addr > ram_base (kgeom k) + ram_size (kgeom k) then Some Post_Ram
      else None)"

definition dev_region :: "devmem \<Rightarrow> dev_side \<Rightarrow> mem_region_root" where
  "dev_region dm d = (case d of Pre_Ram \<Rightarrow> pre_ram dm | Post_Ram \<Rightarrow> post_ram dm)"

definition set_dev_region :: "devmem \<Rightarrow> dev_side \<Rightarrow> mem_region_root \<Rightarrow> devmem" where
  "set_dev_region dm d r = (case d of Pre_Ram \<Rightarrow> dm\<lparr>pre_ram := r\<rparr> | Post_Ram \<Rightarrow> dm\<lparr>post_ram := r\<rparr>)"

definition alloc_devmem :: "kernel_state \<Rightarrow> devmem \<Rightarrow> ptr \<Rightarrow> u64 \<Rightarrow> u64 \<Rightarrow> u64 \<Rightarrow> (u64 \<times> devmem \<times> kernel_state) option" where
  "alloc_devmem k dm t start bytes flags =
     (if t = NULL \<or> \<not> is_proc k t then None
      else case select_region k start of
        None \<Rightarrow> Some (NULL, dm, k)
      | Some d \<Rightarrow> do {
          (v, bytes, r, s) \<leftarrow> alloc_region (kmi k) (dev_region dm d) bytes flags;
          let k = k\<lparr>kmi := s\<rparr>;
              dm = set_dev_region dm d r
          in if v = 0 then Some (NULL, dm, k)
             else do {
               (ret, w) \<leftarrow> map_fixed_region (vm k) (t_proc (tcb_at k t)) v start bytes flags;
               if ret \<noteq> OK then do {
                 w \<leftarrow> unmap_region w (t_proc (tcb_at k t)) v bytes;
                 (_, r, s) \<leftarrow> free_region (kmi (with_vm k w)) (dev_region dm d) v;
                 Some (NULL, set_dev_region dm d r, k\<lparr>kmi := s\<rparr>)
               }
               else Some (v, dm, with_vm k w)
             }
        })"

definition free_devmem :: "kernel_state \<Rightarrow> devmem \<Rightarrow> ptr \<Rightarrow> u64 \<Rightarrow> (stat_t \<times> devmem \<times> kernel_state) option" where
  "free_devmem k dm t start =
     (if t = NULL \<or> \<not> is_proc k t then None
      else
        let addr = (case stat_vpage (vm k) (t_proc (tcb_at k t)) start of Some (a, _, _) \<Rightarrow> a | None \<Rightarrow> 0)
        in case select_region k (pa addr) of
             None \<Rightarrow> Some (ERR_INVAL, dm, k)
           | Some d \<Rightarrow> do {
               m \<leftarrow> find_used_region (kmi k) (dev_region dm d) start;
               if m = NULL then Some (ERR_NF, dm, k)
               else
                 let base = page_addr (m_start (regs_at (kmi k) m));
                     tp = page_addr (m_end (regs_at (kmi k) m));
                     sz = tp - base
                 in do {
                      w \<leftarrow> unmap_fixed_region (vm k) (t_proc (tcb_at k t)) base sz;
                      (_, r, s) \<leftarrow> free_region (kmi (with_vm k w)) (dev_region dm d) base;
                      Some (OK, set_dev_region dm d r, k\<lparr>kmi := s\<rparr>)
                    }
             })"

end
