(* ===== verification/Ipc.thy ===== *)
theory Ipc
  imports Uvmem
begin

text \<open>
  Calls between processes (\<^verbatim>\<open>src/uapi/ipc.c\<close>), orphaned threads (\<^verbatim>\<open>src/orphanage.c\<close>) and the interrupt handlers that lead to
  notifications (\<^verbatim>\<open>src/ipi.c\<close>, \<^verbatim>\<open>src/irq.c\<close>). A thread that calls another process migrates there: what it needs to come back
  is saved as a context on its RPC stack, and its program counter, stack and address space become those of the callee.

  Functions of the kernel may go to user space and not return. \<open>flow\<close> says how a function ends: \<open>Back\<close> to its
  caller, or to user space by \<^verbatim>\<open>ret_userspace_fast\<close> or \<^verbatim>\<open>ret_userspace_partial\<close>.
\<close>

datatype flow = Back | To_User | To_User_Partial

section \<open>Entering\<close>

definition IPC_TAIL :: u32 where "IPC_TAIL = 1"
definition IPC_FORWARD :: u32 where "IPC_FORWARD = 2"
definition IPC_NOTIFY :: u32 where "IPC_NOTIFY = 4"

definition NOTIFY_SIGNAL :: u32 where "NOTIFY_SIGNAL = 1"
definition NOTIFY_TIMER :: u32 where "NOTIFY_TIMER = 2"
definition NOTIFY_IRQ :: u32 where "NOTIFY_IRQ = 4"
definition NOTIFY_ORPHANED :: u32 where "NOTIFY_ORPHANED = 8"

definition SYS_USER_NOTIFY :: u64 where "SYS_USER_NOTIFY = 0"
definition SYS_USER_ORPHANED :: u64 where "SYS_USER_ORPHANED = 1"
definition SYS_USER_SPAWNED :: u64 where "SYS_USER_SPAWNED = 2"

text \<open>The context below an address of the RPC stack, as the processor reaches it.\<close>

definition ctx_of :: "kernel_state \<Rightarrow> u64 \<Rightarrow> ptr option" where
  "ctx_of k rpc_stack = mmu (vm k) (rpc_stack - sizeof_call_ctx)"

definition enter_rpc :: "kernel_state \<Rightarrow> ptr \<Rightarrow> ptr \<Rightarrow> sys_ret \<Rightarrow> u32 \<Rightarrow> kernel_state option" where
  "enter_rpc k t r a flags =
     (let rpc_stack = (if is_set flags IPC_TAIL \<and> is_rpc k t then t_rpc_stack (tcb_at k t) else rpc_position k t);
          k = upd_tcb k t (\<lambda>x. x\<lparr>t_regs := rpc_stack - sizeof_call_ctx\<rparr>)
      in do {
           k \<leftarrow> set_ret_fast k t a;
           k \<leftarrow> (if \<not> is_set flags IPC_TAIL then do {
                  ctx \<leftarrow> ctx_of k rpc_stack;
                  let x = tcb_at k t;
                      k = k\<lparr>ctx_at := (ctx_at k)(ctx := \<lparr>c_exec = t_exec x, c_rpc_stack = t_rpc_stack x, c_eid = t_eid x,
                            c_pid = t_pid x, c_notify = (flags AND IPC_NOTIFY \<noteq> 0)\<rparr>)\<rparr>;
                      k = upd_tcb k t (\<lambda>x. x\<lparr>t_rpc_stack := rpc_stack\<rparr>)
                  in new_rpc k t
                }
                else reuse_rpc k t);
           k \<leftarrow> set_stack_fast k t (rpc_stack - BASE_PAGE_SIZE);
           let k = with_vm k (clone_uvmem (vm k) (t_proc (tcb_at k r)) (t_rpc (tcb_at k t)));
               k = (if \<not> is_set flags IPC_FORWARD then upd_tcb k t (\<lambda>x. x\<lparr>t_eid := t_pid x\<rparr>) else k);
               k = set_return k t (t_callback (tcb_at k r));
               k = reference_thread k r
           in Some (upd_tcb k t (\<lambda>x. x\<lparr>t_pid := t_rid (tcb_at k r)\<rparr>))
         })"

definition enough_rpc_stack :: "kernel_state \<Rightarrow> ptr \<Rightarrow> bool" where
  "enough_rpc_stack k t \<longleftrightarrow> (let tp = rpc_position k t in tp - BASE_PAGE_SIZE - rpc_size k \<ge> RPC_STACK_BASE)"

section \<open>Notifications\<close>

definition run_notify :: "kernel_state \<Rightarrow> ptr \<Rightarrow> ptr \<Rightarrow> (flow \<times> kernel_state) option" where
  "run_notify k t r =
     (let k = use_tcb k r;
          flags = 0;
          nf = t_notify_flags (tcb_at k t);
          flags = (if \<not> is_rpc k t then set_bits_mask flags (nf AND (NOTIFY_SIGNAL OR NOTIFY_ORPHANED)) else flags);
          (flags, k) = (if is_set nf (NOTIFY_IRQ OR NOTIFY_TIMER)
                        then (set_bits_mask flags (nf AND (NOTIFY_IRQ OR NOTIFY_TIMER)), disable_irqs k) else (flags, k))
      in do {
           k \<leftarrow> enter_rpc k t r (SYS_RET6 0 (arg_of (t_tid (tcb_at k t))) SYS_USER_NOTIFY (ucast flags) (arg_of (t_eid (tcb_at k t))) 0) IPC_NOTIFY;
           let k = upd_tcb k t (\<lambda>x. x\<lparr>t_notify_flags := clear_bits (t_notify_flags x) flags\<rparr>)
           in Some (To_User, bkl_unlock (enable_irqs k))
         })"

definition notify :: "kernel_state \<Rightarrow> ptr \<Rightarrow> u32 \<Rightarrow> (flow \<times> kernel_state) option" where
  "notify k t flags =
     (let k = upd_tcb k t (\<lambda>x. x\<lparr>t_notify_flags := set_bits_mask (t_notify_flags x) flags\<rparr>)
      in if t_notify_flags (tcb_at k t) = 0 then Some (Back, k)
         else
           let r = get_tcb k (t_notify_id (tcb_at k t))
           in if r = NULL \<or> t_state (tcb_at k r) \<noteq> 0 \<or> t_callback (tcb_at k r) = 0 then
                Some (Back, upd_tcb k t (\<lambda>x. x\<lparr>t_notify_flags := 0\<rparr>))
              else if \<not> is_set (t_notify_flags (tcb_at k t)) (NOTIFY_IRQ OR NOTIFY_TIMER) \<and> is_rpc k t then Some (Back, k)
              else if \<not> enough_rpc_stack k r then Some (Back, k)
              else if running k r \<and> r \<noteq> cur_tcb k then map_option (\<lambda>k. (Back, k)) (send_ipi k r)
              else run_notify k t r)"

section \<open>Orphans\<close>

definition unorphanize :: "kernel_state \<Rightarrow> ptr \<Rightarrow> (flow \<times> kernel_state) option" where
  "unorphanize k t =
     (if is_rpc k t then None
      else
        let init = get_tcb k 1;
            k = reference_thread k init;
            k = reset_rpc_stack k t;
            old_rid = t_rid (tcb_at k t);
            k = upd_tcb k t (\<lambda>x. x\<lparr>t_rid := 1, t_pid := 1, t_eid := 1\<rparr>)
        in if init = NULL then None
           else
             let k = with_vm k (clone_uvmem (vm k) (t_proc (tcb_at k init)) (t_rpc (tcb_at k t)));
                 k = with_vm k (use_vmem (vm k) (t_rpc (tcb_at k t)))
             in if t_callback (tcb_at k init) = 0 then None
                else
                  let k = set_ret k t 4 (SYS_RET6 0 (arg_of (t_tid (tcb_at k t))) SYS_USER_ORPHANED (arg_of old_rid) 0 0);
                      k = set_return k t (t_callback (tcb_at k init));
                      k = upd_tcb k t (\<lambda>x. x\<lparr>t_callback := t_callback (tcb_at k init)\<rparr>)
                  in Some (To_User, bkl_unlock k))"

section \<open>Leaving\<close>

text \<open>The search for a live process to return to: the context it ends at, and whether the thread became an orphan.\<close>

partial_function (option) unwind :: "kernel_state \<Rightarrow> ptr \<Rightarrow> ptr \<Rightarrow> (ptr \<times> kernel_state) option" where
  "unwind k t ctx =
     (let r = get_tcb k (c_pid (ctx_at k ctx))
      in if r = NULL \<or> \<not> is_proc k r \<or> zombie k r then
           (if rpc_stack_empty k (c_rpc_stack (ctx_at k ctx)) then Some (ctx, orphanize k t)
            else do {
              ctx \<leftarrow> ctx_of k (c_rpc_stack (ctx_at k ctx));
              let k = upd_tcb k t (\<lambda>x. x\<lparr>t_regs := c_rpc_stack (ctx_at k ctx) - sizeof_call_ctx\<rparr>);
                  k = (if \<not> c_notify (ctx_at k ctx) then set_args1 k t (arg_of ERR_NF) else k)
              in unwind k t ctx
            })
         else Some (ctx, k))"

definition leave_rpc :: "kernel_state \<Rightarrow> ptr \<Rightarrow> sys_ret \<Rightarrow> (flow \<times> kernel_state) option" where
  "leave_rpc k t a =
     do {
       ctx \<leftarrow> ctx_of k (t_rpc_stack (tcb_at k t));
       let k = upd_tcb k t (\<lambda>x. x\<lparr>t_regs := c_rpc_stack (ctx_at k ctx) - sizeof_call_ctx\<rparr>)
       in do {
            k \<leftarrow> (if \<not> c_notify (ctx_at k ctx) then set_ret_fast k t a else Some k);
            (ctx, k) \<leftarrow> unwind k t ctx;
            (fl, k) \<leftarrow> (if orphan k t \<and> \<not> is_rpc k t then unorphanize k t else Some (Back, k));
            if fl \<noteq> Back then Some (fl, k)
            else
              let k = set_return k t (c_exec (ctx_at k ctx));
                  k = upd_tcb k t (\<lambda>x. x\<lparr>t_rpc_stack := c_rpc_stack (ctx_at k ctx)\<rparr>)
              in do {
                   k \<leftarrow> destroy_rpc k t;
                   let k = upd_tcb k t (\<lambda>x. x\<lparr>t_pid := c_pid (ctx_at k ctx), t_eid := c_eid (ctx_at k ctx)\<rparr>)
                   in do {
                        (fl, k) \<leftarrow> (if t_notify_flags (tcb_at k t) \<noteq> 0 then notify k t 0 else Some (Back, k));
                        if fl \<noteq> Back then Some (fl, k)
                        else if \<not> c_notify (ctx_at k ctx) then Some (To_User_Partial, bkl_unlock k)
                        else Some (Back, k)
                      }
                 }
          }
     }"

section \<open>The system calls\<close>

definition do_ipc :: "kernel_state \<Rightarrow> ptr \<Rightarrow> u64 \<Rightarrow> u64 \<Rightarrow> u64 \<Rightarrow> u64 \<Rightarrow> u64 \<Rightarrow> u32 \<Rightarrow> (flow \<times> kernel_state) option" where
  "do_ipc k t pid d0 d1 d2 d3 flags =
     (if \<not> is_set flags IPC_TAIL \<and> \<not> enough_rpc_stack k t then Some (Back, set_args1 k t (arg_of ERR_OOMEM))
      else
        let r = get_tcb k (id_of pid)
        in if r = NULL \<or> \<not> is_proc k r \<or> zombie k r then Some (Back, set_args1 k t (arg_of ERR_INVAL))
           else
             let ident = (if is_set flags IPC_FORWARD then t_eid (tcb_at k t) else t_pid (tcb_at k t))
             in map_option (\<lambda>k. (To_User, bkl_unlock (enable_irqs k)))
                  (enter_rpc k t r (SYS_RET6 (arg_of ident) (arg_of (t_tid (tcb_at k t))) d0 d1 d2 d3) flags))"

definition sys_ipc_req :: "kernel_state \<Rightarrow> ptr \<Rightarrow> u64 \<Rightarrow> u64 \<Rightarrow> u64 \<Rightarrow> u64 \<Rightarrow> u64 \<Rightarrow> (flow \<times> kernel_state) option" where
  "sys_ipc_req k t pid d0 d1 d2 d3 = do_ipc k t pid d0 d1 d2 d3 0"

definition sys_ipc_fwd :: "kernel_state \<Rightarrow> ptr \<Rightarrow> u64 \<Rightarrow> u64 \<Rightarrow> u64 \<Rightarrow> u64 \<Rightarrow> u64 \<Rightarrow> (flow \<times> kernel_state) option" where
  "sys_ipc_fwd k t pid d0 d1 d2 d3 = do_ipc k t pid d0 d1 d2 d3 (if is_rpc k t then IPC_FORWARD else 0)"

definition sys_ipc_tail :: "kernel_state \<Rightarrow> ptr \<Rightarrow> u64 \<Rightarrow> u64 \<Rightarrow> u64 \<Rightarrow> u64 \<Rightarrow> u64 \<Rightarrow> (flow \<times> kernel_state) option" where
  "sys_ipc_tail k t pid d0 d1 d2 d3 = do_ipc k t pid d0 d1 d2 d3 (if is_rpc k t then IPC_TAIL else 0)"

definition sys_ipc_kick :: "kernel_state \<Rightarrow> ptr \<Rightarrow> u64 \<Rightarrow> u64 \<Rightarrow> u64 \<Rightarrow> u64 \<Rightarrow> u64 \<Rightarrow> (flow \<times> kernel_state) option" where
  "sys_ipc_kick k t pid d0 d1 d2 d3 = do_ipc k t pid d0 d1 d2 d3 (if is_rpc k t then IPC_FORWARD OR IPC_TAIL else 0)"

definition sys_ipc_resp :: "kernel_state \<Rightarrow> ptr \<Rightarrow> u64 \<Rightarrow> u64 \<Rightarrow> u64 \<Rightarrow> u64 \<Rightarrow> (flow \<times> kernel_state) option" where
  "sys_ipc_resp k t d0 d1 d2 d3 =
     (if \<not> is_rpc k t then Some (Back, set_args1 k t (arg_of ERR_MISC))
      else
        let k = enable_irqs k
        in do {
             k \<leftarrow> unreference_thread k (get_cproc k t);
             leave_rpc k t (SYS_RET6 (arg_of OK) (arg_of (t_pid (tcb_at k t))) d0 d1 d2 d3)
           })"

definition CAP_CAPS :: u32 where "CAP_CAPS = 1"
definition CAP_PROC :: u32 where "CAP_PROC = 2"
definition CAP_NOTIFY :: u32 where "CAP_NOTIFY = 4"
definition CAP_POWER :: u32 where "CAP_POWER = 8"
definition CAP_CONF :: u32 where "CAP_CONF = 16"
definition CAP_IRQ :: u32 where "CAP_IRQ = 32"
definition CAP_SIGNAL :: u32 where "CAP_SIGNAL = 64"
definition CAP_SHARED :: u32 where "CAP_SHARED = 128"

definition has_cap :: "kernel_state \<Rightarrow> ptr \<Rightarrow> u32 \<Rightarrow> bool" where
  "has_cap k t c \<longleftrightarrow> is_set (t_caps (tcb_at k t)) c"

definition sys_ipc_notify :: "kernel_state \<Rightarrow> ptr \<Rightarrow> u64 \<Rightarrow> (flow \<times> kernel_state) option" where
  "sys_ipc_notify k t tid =
     (if arg_of (t_tid (tcb_at k t)) \<noteq> tid \<and> \<not> has_cap k t CAP_NOTIFY then Some (Back, set_args1 k t (arg_of ERR_PERM))
      else
        let r = get_tcb k (id_of tid)
        in if r = NULL then Some (Back, set_args1 k t (arg_of ERR_INVAL))
           else notify (set_args1 k t (arg_of OK)) r NOTIFY_SIGNAL)"

end
