(* ===== verification/Region_Inv.thy ===== *)
theory Region_Inv
  imports Regions
begin

text \<open>
  The invariant of a region arena: the list of regions tiles the arena without gaps, the links
  of the list are consistent, the tree of used regions holds exactly the used ones ordered by address and the
  tree of free regions the others ordered by size and address. Allocation and release keep it.
\<close>

section \<open>Lists of regions\<close>

text \<open>The regions \<open>xs\<close> cover the pages from \<open>a\<close> up to \<open>b\<close> in order and without gaps.\<close>

fun tiles :: "(ptr \<Rightarrow> mem_region) \<Rightarrow> u64 \<Rightarrow> ptr list \<Rightarrow> u64 \<Rightarrow> bool" where
  "tiles g a [] b \<longleftrightarrow> a = b"
| "tiles g a (x # xs) b \<longleftrightarrow> m_start (g x) = a \<and> m_start (g x) < m_end (g x) \<and> tiles g (m_end (g x)) xs b"

text \<open>The links along \<open>xs\<close>, between the neighbours \<open>prev\<close> and \<open>next\<close>.\<close>

fun rseg :: "(ptr \<Rightarrow> mem_region) \<Rightarrow> ptr \<Rightarrow> ptr list \<Rightarrow> ptr \<Rightarrow> bool" where
  "rseg g prev [] next \<longleftrightarrow> True"
| "rseg g prev (x # xs) next \<longleftrightarrow>
     m_prev (g x) = prev \<and> m_next (g x) = hd (xs @ [next]) \<and> rseg g x xs next"

lemma tiles_append: "tiles g a (xs @ ys) b \<longleftrightarrow> (\<exists>c. tiles g a xs c \<and> tiles g c ys b)"
  by (induction xs arbitrary: a) auto

lemma tiles_cong:
  "(\<And>x. x \<in> set xs \<Longrightarrow> m_start (g' x) = m_start (g x) \<and> m_end (g' x) = m_end (g x)) \<Longrightarrow>
     tiles g' a xs b \<longleftrightarrow> tiles g a xs b"
  by (induction xs arbitrary: a) auto

lemma rseg_append:
  "rseg g prev (xs @ ys) next \<longleftrightarrow> rseg g prev xs (hd (ys @ [next])) \<and> rseg g (last (prev # xs)) ys next"
proof (induction xs arbitrary: prev)
  case (Cons x xs)
  have "hd (xs @ ys @ [next]) = hd (xs @ [hd (ys @ [next])])" by (cases xs) auto
  then show ?case using Cons by simp
qed simp

lemma rseg_cong:
  "(\<And>x. x \<in> set xs \<Longrightarrow> m_prev (g' x) = m_prev (g x) \<and> m_next (g' x) = m_next (g x)) \<Longrightarrow>
     rseg g' prev xs next \<longleftrightarrow> rseg g prev xs next"
  by (induction xs arbitrary: prev) auto

lemma last_notin_butlast: "distinct xs \<Longrightarrow> x \<in> set (butlast xs) \<Longrightarrow> x \<noteq> last xs"
  by (cases xs rule: rev_cases) auto

lemma rseg_new_prev:
  assumes "rseg g prev xs next" "distinct xs"
    and "\<And>x. x \<in> set xs \<Longrightarrow> m_next (g' x) = m_next (g x)"
    and "\<And>x. x \<in> set (tl xs) \<Longrightarrow> m_prev (g' x) = m_prev (g x)"
    and "xs \<noteq> [] \<Longrightarrow> m_prev (g' (hd xs)) = prev'"
  shows "rseg g' prev' xs next"
proof (cases xs)
  case (Cons x ys)
  then have "rseg g' x ys next \<longleftrightarrow> rseg g x ys next" using assms by (intro rseg_cong) auto
  then show ?thesis using assms Cons by auto
qed simp

lemma rseg_new_next:
  assumes "rseg g prev xs next" "distinct xs"
    and "\<And>x. x \<in> set xs \<Longrightarrow> m_prev (g' x) = m_prev (g x)"
    and "\<And>x. x \<in> set (butlast xs) \<Longrightarrow> m_next (g' x) = m_next (g x)"
    and "xs \<noteq> [] \<Longrightarrow> m_next (g' (last xs)) = next'"
  shows "rseg g' prev xs next'"
proof (cases xs rule: rev_cases)
  case (snoc ys y)
  then have "rseg g' prev ys y \<longleftrightarrow> rseg g prev ys y" using assms by (intro rseg_cong) auto
  then show ?thesis using assms snoc by (auto simp: rseg_append)
qed simp

section \<open>The trees\<close>

definition region_key :: "(ptr \<Rightarrow> mem_region) \<Rightarrow> ptr \<Rightarrow> u64 \<times> u64" where
  "region_key g x = (m_end (g x) - m_start (g x), m_start (g x))"

definition trees_ok :: "region_state \<Rightarrow> mem_region_root \<Rightarrow> ptr set \<Rightarrow> ptr set \<Rightarrow> bool" where
  "trees_ok s r F U \<longleftrightarrow> F \<inter> U = {} \<and>
     (\<exists>fs. sp_seq (links s) (free_regions r) fs \<and> sorted (map (region_key (regs_at s)) fs) \<and> set fs = F) \<and>
     (\<exists>us. sp_seq (links s) (used_regions r) us \<and> sorted (map (\<lambda>x. m_start (regs_at s x)) us) \<and> set us = U)"

lemma left_of_free_key: "left_of_free g (m_end t - m_start t) (m_start t) n \<longleftrightarrow> (m_end t - m_start t, m_start t) < region_key g n"
  by (auto simp: left_of_free_def region_key_def less_prod_def Let_def)

lemma trees_ok_NULL: "trees_ok s r F U \<Longrightarrow> NULL \<notin> F \<union> U"
  unfolding trees_ok_def using sp_seq_NULL by blast

lemma trees_ok_cong:
  assumes "trees_ok s r F U" "free_regions r' = free_regions r" "used_regions r' = used_regions r"
    and "\<And>x. x \<in> F \<union> U \<Longrightarrow> links s' x = links s x \<and> m_start (regs_at s' x) = m_start (regs_at s x) \<and>
      m_end (regs_at s' x) = m_end (regs_at s x)"
  shows "trees_ok s' r' F U"
proof -
  obtain fs us where fs: "sp_seq (links s) (free_regions r) fs" "sorted (map (region_key (regs_at s)) fs)" "set fs = F"
    and us: "sp_seq (links s) (used_regions r) us" "sorted (map (\<lambda>x. m_start (regs_at s x)) us)" "set us = U"
    and d: "F \<inter> U = {}"
    using assms(1) unfolding trees_ok_def by blast
  have "sp_seq (links s') (free_regions r') fs" "sp_seq (links s') (used_regions r') us"
    using fs(1,3) us(1,3) assms(2-4) by (auto intro: sp_seq_frame)
  moreover have "map (region_key (regs_at s')) fs = map (region_key (regs_at s)) fs"
    "map (\<lambda>x. m_start (regs_at s' x)) us = map (\<lambda>x. m_start (regs_at s x)) us"
    using fs(3) us(3) assms(4) by (auto simp: region_key_def)
  ultimately show ?thesis using fs us d unfolding trees_ok_def by metis
qed

lemma remove_free_ok:
  assumes "trees_ok s r F U" "m \<in> F"
  shows "\<exists>h root. remove_free s r m = Some (r\<lparr>free_regions := root\<rparr>, s\<lparr>links := h\<rparr>) \<and>
    trees_ok (s\<lparr>links := h\<rparr>) (r\<lparr>free_regions := root\<rparr>) (F - {m}) U"
proof -
  obtain fs us where fs: "sp_seq (links s) (free_regions r) fs" "sorted (map (region_key (regs_at s)) fs)" "set fs = F"
    and us: "sp_seq (links s) (used_regions r) us" "sorted (map (\<lambda>x. m_start (regs_at s x)) us)" "set us = U"
    and d: "F \<inter> U = {}"
    using assms(1) unfolding trees_ok_def by blast
  obtain h root where h: "sp_remove (links s) (free_regions r) m = Some (h, root)" "sp_seq h root (remove1 m fs)"
    "\<forall>x. x \<notin> set fs \<longrightarrow> h x = links s x"
    using sp_remove_seq [OF fs(1)] assms(2) fs(3) by blast
  have "sp_seq h (used_regions r) us" using us(1) by (rule sp_seq_frame) (use h(3) fs(3) us(3) d in auto)
  moreover have "set (remove1 m fs) = F - {m}" using fs(1,3) by (simp add: sp_seq_def)
  moreover have "sorted (map (region_key (regs_at s)) (remove1 m fs))" using fs(2) by (rule sorted_map_remove1)
  ultimately have "trees_ok (s\<lparr>links := h\<rparr>) (r\<lparr>free_regions := root\<rparr>) (F - {m}) U"
    unfolding trees_ok_def using h(2) us d by auto
  then show ?thesis using h(1) by (auto simp: remove_free_def)
qed

lemma remove_used_ok:
  assumes "trees_ok s r F U" "m \<in> U"
  shows "\<exists>h root. remove_used s r m = Some (r\<lparr>used_regions := root\<rparr>, s\<lparr>links := h\<rparr>) \<and>
    trees_ok (s\<lparr>links := h\<rparr>) (r\<lparr>used_regions := root\<rparr>) F (U - {m})"
proof -
  obtain fs us where fs: "sp_seq (links s) (free_regions r) fs" "sorted (map (region_key (regs_at s)) fs)" "set fs = F"
    and us: "sp_seq (links s) (used_regions r) us" "sorted (map (\<lambda>x. m_start (regs_at s x)) us)" "set us = U"
    and d: "F \<inter> U = {}"
    using assms(1) unfolding trees_ok_def by blast
  obtain h root where h: "sp_remove (links s) (used_regions r) m = Some (h, root)" "sp_seq h root (remove1 m us)"
    "\<forall>x. x \<notin> set us \<longrightarrow> h x = links s x"
    using sp_remove_seq [OF us(1)] assms(2) us(3) by blast
  have "sp_seq h (free_regions r) fs" using fs(1) by (rule sp_seq_frame) (use h(3) fs(3) us(3) d in auto)
  moreover have "set (remove1 m us) = U - {m}" using us(1,3) by (simp add: sp_seq_def)
  moreover have "sorted (map (\<lambda>x. m_start (regs_at s x)) (remove1 m us))" using us(2) by (rule sorted_map_remove1)
  ultimately have "trees_ok (s\<lparr>links := h\<rparr>) (r\<lparr>used_regions := root\<rparr>) F (U - {m})"
    unfolding trees_ok_def using h(2) fs d by auto
  then show ?thesis using h(1) by (auto simp: remove_used_def)
qed

lemma insert_free_ok:
  assumes "trees_ok s r F U" "m \<notin> F \<union> U" "m \<noteq> NULL"
  shows "\<exists>h root. insert_free_region s r m = Some (r\<lparr>free_regions := root\<rparr>, s\<lparr>links := h\<rparr>) \<and>
    trees_ok (s\<lparr>links := h\<rparr>) (r\<lparr>free_regions := root\<rparr>) (insert m F) U"
proof -
  obtain fs us where fs: "sp_seq (links s) (free_regions r) fs" "sorted (map (region_key (regs_at s)) fs)" "set fs = F"
    and us: "sp_seq (links s) (used_regions r) us" "sorted (map (\<lambda>x. m_start (regs_at s x)) us)" "set us = U"
    and d: "F \<inter> U = {}"
    using assms(1) unfolding trees_ok_def by blast
  let ?h = "(links s)(m := blank_node)"
  have "sp_seq ?h (free_regions r) fs" using fs(1) by (rule sp_seq_frame) (use assms(2) fs(3) in auto)
  moreover have "m \<notin> set fs" "sp_blank ?h m" using assms(2,3) fs(3) by (auto simp: sp_blank_def blank_node_def)
  ultimately obtain p dir h root zs where ins:
    "sp_place ?h (\<lambda>n. region_key (regs_at s) m < region_key (regs_at s) n) (free_regions r) NULL SP_LEFT = Some (p, dir)"
    "sp_insert ?h (free_regions r) p m dir = Some (h, root)" "sp_seq h root zs" "set zs = insert m (set fs)"
    "sorted (map (region_key (regs_at s)) zs)" "\<forall>x. x \<noteq> m \<and> x \<notin> set fs \<longrightarrow> h x = ?h x"
    using place_insert_sorted [of ?h "free_regions r" fs "region_key (regs_at s)" m] fs(2) by blast
  have key: "left_of_free (regs_at s) (m_end (regs_at s m) - m_start (regs_at s m)) (m_start (regs_at s m)) =
      (\<lambda>n. region_key (regs_at s) m < region_key (regs_at s) n)"
    by (rule ext) (simp add: left_of_free_key region_key_def [of _ m])
  have "sp_seq h (used_regions r) us" using us(1) by (rule sp_seq_frame) (use ins(6) assms(2) fs(3) us(3) d in auto)
  then have "trees_ok (s\<lparr>links := h\<rparr>) (r\<lparr>free_regions := root\<rparr>) (insert m F) U"
    unfolding trees_ok_def using ins(3-5) us fs(3) d assms(2) by auto
  then show ?thesis using ins(1,2) by (simp add: insert_free_region_def Let_def key) blast
qed

lemma insert_used_ok:
  assumes "trees_ok s r F U" "m \<notin> F \<union> U" "m \<noteq> NULL"
  shows "\<exists>h root. insert_used_region s r m = Some (r\<lparr>used_regions := root\<rparr>, s\<lparr>links := h\<rparr>) \<and>
    trees_ok (s\<lparr>links := h\<rparr>) (r\<lparr>used_regions := root\<rparr>) F (insert m U)"
proof -
  obtain fs us where fs: "sp_seq (links s) (free_regions r) fs" "sorted (map (region_key (regs_at s)) fs)" "set fs = F"
    and us: "sp_seq (links s) (used_regions r) us" "sorted (map (\<lambda>x. m_start (regs_at s x)) us)" "set us = U"
    and d: "F \<inter> U = {}"
    using assms(1) unfolding trees_ok_def by blast
  let ?h = "(links s)(m := blank_node)" and ?key = "\<lambda>x. m_start (regs_at s x)"
  have "sp_seq ?h (used_regions r) us" using us(1) by (rule sp_seq_frame) (use assms(2) us(3) in auto)
  moreover have "m \<notin> set us" "sp_blank ?h m" using assms(2,3) us(3) by (auto simp: sp_blank_def blank_node_def)
  ultimately obtain p dir h root zs where ins:
    "sp_place ?h (\<lambda>n. ?key m < ?key n) (used_regions r) NULL SP_LEFT = Some (p, dir)"
    "sp_insert ?h (used_regions r) p m dir = Some (h, root)" "sp_seq h root zs" "set zs = insert m (set us)"
    "sorted (map ?key zs)" "\<forall>x. x \<noteq> m \<and> x \<notin> set us \<longrightarrow> h x = ?h x"
    using place_insert_sorted [of ?h "used_regions r" us ?key m] us(2) by blast
  have "sp_seq h (free_regions r) fs" using fs(1) by (rule sp_seq_frame) (use ins(6) assms(2) fs(3) us(3) d in auto)
  then have "trees_ok (s\<lparr>links := h\<rparr>) (r\<lparr>used_regions := root\<rparr>) F (insert m U)"
    unfolding trees_ok_def using ins(3-5) fs us(3) d assms(2) by auto
  then show ?thesis using ins(1,2) by (simp add: insert_used_region_def Let_def) blast
qed

section \<open>Splitting a region\<close>

text \<open>What a step of an allocation leaves of a region that is not the new one.\<close>

definition same_span :: "mem_region \<Rightarrow> mem_region \<Rightarrow> bool" where
  "same_span t t' \<longleftrightarrow> m_start t' = m_start t \<and> m_end t' = m_end t \<and> m_flags t' = m_flags t \<and>
     m_pid t' = m_pid t \<and> m_refcount t' = m_refcount t"

lemma same_span_refl [simp]: "same_span t t" by (simp add: same_span_def)

lemma same_span_trans: "same_span t t' \<Longrightarrow> same_span t' t'' \<Longrightarrow> same_span t t''"
  by (simp add: same_span_def)

lemma same_span_used: "same_span t t' \<Longrightarrow> is_region_used t' = is_region_used t"
  by (simp add: same_span_def is_region_used_def)

lemma create_mregion_ok:
  assumes "get_node (node_part s) (kroot s) = Some (n, rt, ns)" "n \<noteq> NULL"
  shows "\<exists>s'. create_mregion s a b prev next = Some (n, s') \<and>
    regs_at s' = (regs_at s)(n := zero_mregion\<lparr>m_start := a, m_end := b, m_prev := prev, m_next := next\<rparr>) \<and>
    links s' = (links s)(n := blank_node) \<and> node_part s' = ns \<and> kroot s' = rt"
  using assms by (simp add: create_mregion_def get_mem_node_def with_nodes_def node_part_def field_defs Let_def)

lemma partition_before_ok:
  assumes trees: "trees_ok s r F U" and n: "n \<notin> set (A @ m # B) \<union> F \<union> U" "n \<noteq> NULL"
    and rseg: "rseg (regs_at s) NULL (A @ m # B) NULL" and L: "distinct (A @ m # B)" "NULL \<notin> set (A @ m # B)"
    and node: "get_node (node_part s) (kroot s) = Some (n, rt, ns)" and ne: "ps \<noteq> pe"
  shows "\<exists>root s'. partition_before s r m ps pe = Some (r\<lparr>free_regions := root\<rparr>, s') \<and>
    trees_ok s' (r\<lparr>free_regions := root\<rparr>) (insert n F) U \<and> rseg (regs_at s') NULL (A @ n # m # B) NULL \<and>
    node_part s' = ns \<and> kroot s' = rt \<and> m_start (regs_at s' n) = ps \<and> m_end (regs_at s' n) = pe \<and>
    \<not> is_region_used (regs_at s' n) \<and> (\<forall>x. x \<noteq> n \<longrightarrow> same_span (regs_at s x) (regs_at s' x))"
proof -
  let ?g = "regs_at s"
  define q where "q = last (NULL # A)"
  have p: "m_prev (?g m) = q" and segs: "rseg ?g NULL A m" "rseg ?g q (m # B) NULL"
    using rseg by (simp_all add: rseg_append q_def)
  have qA: "A \<noteq> [] \<Longrightarrow> q \<in> set A" "A = [] \<Longrightarrow> q = NULL" "A \<noteq> [] \<Longrightarrow> last A = q" by (simp_all add: q_def)
  then have q0: "q = NULL \<longleftrightarrow> A = []" using L(2) by auto
  have inner: "x \<in> set A \<and> x \<noteq> q" if "x \<in> set (butlast A)" for x
    using that L(1) qA(3) last_notin_butlast [of A x] in_set_butlastD [OF that] by fastforce
  have qm: "q \<noteq> m" using qA(1,2) L by auto
  obtain s1 where s1: "create_mregion s ps pe q m = Some (n, s1)"
    "regs_at s1 = ?g(n := zero_mregion\<lparr>m_start := ps, m_end := pe, m_prev := q, m_next := m\<rparr>)"
    "links s1 = (links s)(n := blank_node)" "node_part s1 = ns" "kroot s1 = rt"
    using create_mregion_ok [OF node n(2), of ps pe q m] by blast
  define s2 where "s2 = upd_mreg s1 m (\<lambda>t. t\<lparr>m_prev := n\<rparr>)"
  define s3 where "s3 = (if m_prev (regs_at s2 n) \<noteq> NULL then upd_mreg s2 (m_prev (regs_at s2 n)) (\<lambda>t. t\<lparr>m_next := n\<rparr>) else s2)"
  have mn: "m \<noteq> n" "q \<noteq> n" using n qA(1,2) by auto
  have g3: "regs_at s3 n = zero_mregion\<lparr>m_start := ps, m_end := pe, m_prev := q, m_next := m\<rparr>"
    "regs_at s3 m = (?g m)\<lparr>m_prev := n\<rparr>" "q \<noteq> NULL \<Longrightarrow> regs_at s3 q = (?g q)\<lparr>m_next := n\<rparr>"
    "x \<noteq> n \<Longrightarrow> x \<noteq> m \<Longrightarrow> x \<noteq> q \<or> q = NULL \<Longrightarrow> regs_at s3 x = ?g x" for x
    using mn qm by (auto simp: s3_def s2_def s1(2) field_defs)
  have links3: "m_prev (regs_at s3 x) = (if x = m then n else m_prev (?g x))"
    "m_next (regs_at s3 x) = (if x = q \<and> q \<noteq> NULL then n else m_next (?g x))" if "x \<in> set A \<or> x = m \<or> x \<in> set B" for x
  proof -
    have "x \<noteq> n" using that n by auto
    then show "m_prev (regs_at s3 x) = (if x = m then n else m_prev (?g x))" "m_next (regs_at s3 x) = (if x = q \<and> q \<noteq> NULL then n else m_next (?g x))"
      using qm g3(2,3) g3(4) [of x] by (cases "x = m"; cases "x = q"; cases "q = NULL"; simp)+
  qed
  have rest: "links s3 = (links s)(n := blank_node)" "node_part s3 = ns" "kroot s3 = rt"
    using s1 by (auto simp: s3_def s2_def field_defs node_part_def)
  have span: "same_span (?g x) (regs_at s3 x)" if "x \<noteq> n" for x
    using that g3(2,3) g3(4) [of x] by (cases "x = m"; cases "x = q"; cases "q = NULL") (auto simp: same_span_def)
  have "trees_ok s3 r F U"
    using trees by (rule trees_ok_cong) (use n span rest in \<open>auto simp: same_span_def\<close>)
  from insert_free_ok [OF this _ n(2)] n(1) obtain h root where ins:
    "insert_free_region s3 r n = Some (r\<lparr>free_regions := root\<rparr>, s3\<lparr>links := h\<rparr>)"
    "trees_ok (s3\<lparr>links := h\<rparr>) (r\<lparr>free_regions := root\<rparr>) (insert n F) U" by auto
  have "partition_before s r m ps pe = Some (r\<lparr>free_regions := root\<rparr>, s3\<lparr>links := h\<rparr>)"
    using ne s1(1) ins(1) unfolding s3_def
    by (auto simp: partition_before_def p s2_def [symmetric] Let_def split: if_splits)
  moreover have "rseg (regs_at s3) NULL A n"
    using segs(1) by (rule rseg_new_next) (use n L qm q0 qA in \<open>auto simp: links3 dest: inner\<close>)
  moreover have "rseg (regs_at s3) n (m # B) NULL"
    using segs(2) by (rule rseg_new_prev) (use n L qm q0 qA in \<open>auto simp: links3\<close>)
  ultimately show ?thesis
    using ins(2) rest span mn g3(1)
    by (intro exI [of _ root] exI [of _ "s3\<lparr>links := h\<rparr>"])
      (auto simp: rseg_append q_def node_part_def is_region_used_def is_set_def zero_mregion_def)
qed

lemma partition_after_ok:
  assumes trees: "trees_ok s r F U" and n: "n \<notin> set (A @ m # B) \<union> F \<union> U" "n \<noteq> NULL"
    and rseg: "rseg (regs_at s) NULL (A @ m # B) NULL" and L: "distinct (A @ m # B)" "NULL \<notin> set (A @ m # B)"
    and node: "get_node (node_part s) (kroot s) = Some (n, rt, ns)" and ne: "ps \<noteq> pe"
  shows "\<exists>root s'. partition_after s r m ps pe = Some (r\<lparr>free_regions := root\<rparr>, s') \<and>
    trees_ok s' (r\<lparr>free_regions := root\<rparr>) (insert n F) U \<and> rseg (regs_at s') NULL (A @ m # n # B) NULL \<and>
    node_part s' = ns \<and> kroot s' = rt \<and> m_start (regs_at s' n) = ps \<and> m_end (regs_at s' n) = pe \<and>
    \<not> is_region_used (regs_at s' n) \<and> (\<forall>x. x \<noteq> n \<longrightarrow> same_span (regs_at s x) (regs_at s' x))"
proof -
  let ?g = "regs_at s"
  define q where "q = hd (B @ [NULL])"
  have p: "m_next (?g m) = q" and segs: "rseg ?g NULL (A @ [m]) q" "rseg ?g m B NULL"
    using rseg by (simp_all add: rseg_append q_def)
  have qA: "B \<noteq> [] \<Longrightarrow> q \<in> set B" "B = [] \<Longrightarrow> q = NULL" "B \<noteq> [] \<Longrightarrow> hd B = q" by (simp_all add: q_def)
  then have q0: "q = NULL \<longleftrightarrow> B = []" using L(2) by auto
  have inner: "x \<in> set B \<and> x \<noteq> q" if "x \<in> set (tl B)" for x
    using that L(1) qA(3) by (cases B) auto
  have qm: "q \<noteq> m" using qA(1,2) L by auto
  obtain s1 where s1: "create_mregion s ps pe m q = Some (n, s1)"
    "regs_at s1 = ?g(n := zero_mregion\<lparr>m_start := ps, m_end := pe, m_prev := m, m_next := q\<rparr>)"
    "links s1 = (links s)(n := blank_node)" "node_part s1 = ns" "kroot s1 = rt"
    using create_mregion_ok [OF node n(2), of ps pe m q] by blast
  define s2 where "s2 = upd_mreg s1 m (\<lambda>t. t\<lparr>m_next := n\<rparr>)"
  define s3 where "s3 = (if m_next (regs_at s2 n) \<noteq> NULL then upd_mreg s2 (m_next (regs_at s2 n)) (\<lambda>t. t\<lparr>m_prev := n\<rparr>) else s2)"
  have mn: "m \<noteq> n" "q \<noteq> n" using n qA(1,2) by auto
  have g3: "regs_at s3 n = zero_mregion\<lparr>m_start := ps, m_end := pe, m_prev := m, m_next := q\<rparr>"
    "regs_at s3 m = (?g m)\<lparr>m_next := n\<rparr>" "q \<noteq> NULL \<Longrightarrow> regs_at s3 q = (?g q)\<lparr>m_prev := n\<rparr>"
    "x \<noteq> n \<Longrightarrow> x \<noteq> m \<Longrightarrow> x \<noteq> q \<or> q = NULL \<Longrightarrow> regs_at s3 x = ?g x" for x
    using mn qm by (auto simp: s3_def s2_def s1(2) field_defs)
  have links3: "m_next (regs_at s3 x) = (if x = m then n else m_next (?g x))"
    "m_prev (regs_at s3 x) = (if x = q \<and> q \<noteq> NULL then n else m_prev (?g x))" if "x \<in> set A \<or> x = m \<or> x \<in> set B" for x
  proof -
    have "x \<noteq> n" using that n by auto
    then show "m_next (regs_at s3 x) = (if x = m then n else m_next (?g x))" "m_prev (regs_at s3 x) = (if x = q \<and> q \<noteq> NULL then n else m_prev (?g x))"
      using qm g3(2,3) g3(4) [of x] by (cases "x = m"; cases "x = q"; cases "q = NULL"; simp)+
  qed
  have rest: "links s3 = (links s)(n := blank_node)" "node_part s3 = ns" "kroot s3 = rt"
    using s1 by (auto simp: s3_def s2_def field_defs node_part_def)
  have span: "same_span (?g x) (regs_at s3 x)" if "x \<noteq> n" for x
    using that g3(2,3) g3(4) [of x] by (cases "x = m"; cases "x = q"; cases "q = NULL") (auto simp: same_span_def)
  have "trees_ok s3 r F U"
    using trees by (rule trees_ok_cong) (use n span rest in \<open>auto simp: same_span_def\<close>)
  from insert_free_ok [OF this _ n(2)] n(1) obtain h root where ins:
    "insert_free_region s3 r n = Some (r\<lparr>free_regions := root\<rparr>, s3\<lparr>links := h\<rparr>)"
    "trees_ok (s3\<lparr>links := h\<rparr>) (r\<lparr>free_regions := root\<rparr>) (insert n F) U" by auto
  have "partition_after s r m ps pe = Some (r\<lparr>free_regions := root\<rparr>, s3\<lparr>links := h\<rparr>)"
    using ne s1(1) ins(1) unfolding s3_def
    by (auto simp: partition_after_def p s2_def [symmetric] Let_def split: if_splits)
  moreover have "rseg (regs_at s3) NULL (A @ [m]) n"
    using segs(1) by (rule rseg_new_next) (use n L qm q0 qA in \<open>auto simp: links3 dest: inner\<close>)
  moreover have "rseg (regs_at s3) n B NULL"
    using segs(2) by (rule rseg_new_prev) (use n L qm q0 qA in \<open>auto simp: links3 dest: inner\<close>)
  ultimately show ?thesis
    using ins(2) rest span mn g3(1)
    by (intro exI [of _ root] exI [of _ "s3\<lparr>links := h\<rparr>"])
      (auto simp: rseg_append q_def node_part_def is_region_used_def is_set_def zero_mregion_def)
qed

section \<open>The invariant\<close>

definition regions_inv :: "region_state \<Rightarrow> mem_region_root \<Rightarrow> u64 \<Rightarrow> u64 \<Rightarrow> ptr list \<Rightarrow> bool" where
  "regions_inv s r a b L \<longleftrightarrow> distinct L \<and> rseg (regs_at s) NULL L NULL \<and> tiles (regs_at s) a L b \<and>
     trees_ok s r {x \<in> set L. \<not> is_region_used (regs_at s x)} {x \<in> set L. is_region_used (regs_at s x)}"

text \<open>The node allocator has two nodes outside of the list to give.\<close>

definition node_supply :: "region_state \<Rightarrow> ptr list \<Rightarrow> bool" where
  "node_supply s L \<longleftrightarrow> (\<exists>n1 r1 ns1 n2 r2 ns2. get_node (node_part s) (kroot s) = Some (n1, r1, ns1) \<and>
     get_node ns1 r1 = Some (n2, r2, ns2) \<and> n1 \<noteq> NULL \<and> n2 \<noteq> NULL \<and> n1 \<noteq> n2 \<and> n1 \<notin> set L \<and> n2 \<notin> set L)"

lemma regions_inv_NULL: "regions_inv s r a b L \<Longrightarrow> NULL \<notin> set L"
  using trees_ok_NULL unfolding regions_inv_def by blast

lemma split_arith:
  fixes st en al pages :: u64
  assumes "st < en" "unat al + unat pages \<le> unat (en - st)" "0 < pages"
  shows "al \<noteq> 0 \<Longrightarrow> st < st + al" "st + al < st + al + pages"
    "st + al + pages \<noteq> en \<Longrightarrow> st + al + pages < en" "st + al = st \<longleftrightarrow> al = 0"
proof -
  have d: "unat (en - st) = unat en - unat st" using assms(1) by (intro unat_sub) simp
  have le: "unat st + unat al + unat pages \<le> unat en" using assms(1,2) d by (simp add: word_less_nat_alt)
  have a: "unat (st + al) = unat st + unat al" using le unat_u64_less [of en] by (intro unat_add_lem [THEN iffD1]) simp
  have p: "unat (st + al + pages) = unat st + unat al + unat pages"
    using le a unat_u64_less [of en] by (simp add: unat_word_ariths)
  have pos: "0 < unat pages" using assms(3) by (simp add: word_less_nat_alt)
  show "al \<noteq> 0 \<Longrightarrow> st < st + al" using a by (simp add: word_less_nat_alt unat_gt_0)
  show "st + al < st + al + pages" unfolding word_less_nat_alt using a p pos by linarith
  show "st + al + pages < en" if "st + al + pages \<noteq> en"
    using that le p unfolding word_less_nat_alt word_unat_eq_iff by linarith
  show "st + al = st \<longleftrightarrow> al = 0" by simp
qed

text \<open>The two halves of the split, whether they make a region or not.\<close>

lemma before_step:
  assumes "trees_ok s r F U" "n \<notin> set (A @ m # B) \<union> F \<union> U" "n \<noteq> NULL"
    and "rseg (regs_at s) NULL (A @ m # B) NULL" "distinct (A @ m # B)" "NULL \<notin> set (A @ m # B)"
    and "get_node (node_part s) (kroot s) = Some (n, rt, ns)" "ps \<noteq> pe \<Longrightarrow> ps < pe"
  shows "\<exists>root s' P. partition_before s r m ps pe = Some (r\<lparr>free_regions := root\<rparr>, s') \<and>
    trees_ok s' (r\<lparr>free_regions := root\<rparr>) (F \<union> set P) U \<and> rseg (regs_at s') NULL (A @ P @ m # B) NULL \<and>
    tiles (regs_at s') ps P pe \<and> (\<forall>x \<in> set P. \<not> is_region_used (regs_at s' x)) \<and>
    (\<forall>x. x \<notin> set P \<longrightarrow> same_span (regs_at s x) (regs_at s' x)) \<and>
    (P = [] \<and> node_part s' = node_part s \<and> kroot s' = kroot s \<or> P = [n] \<and> node_part s' = ns \<and> kroot s' = rt)"
proof (cases "ps = pe")
  case True
  then show ?thesis using assms(1,4)
    by (intro exI [of _ "free_regions r"] exI [of _ s] exI [of _ "[]"]) (simp add: partition_before_def)
next
  case False
  from partition_before_ok [OF assms(1-7) False] obtain root s' where
    "partition_before s r m ps pe = Some (r\<lparr>free_regions := root\<rparr>, s')"
    "trees_ok s' (r\<lparr>free_regions := root\<rparr>) (insert n F) U" "rseg (regs_at s') NULL (A @ n # m # B) NULL"
    "node_part s' = ns" "kroot s' = rt" "m_start (regs_at s' n) = ps" "m_end (regs_at s' n) = pe"
    "\<not> is_region_used (regs_at s' n)" "\<forall>x. x \<noteq> n \<longrightarrow> same_span (regs_at s x) (regs_at s' x)" by blast
  then show ?thesis using assms(8) False
    by (intro exI [of _ root] exI [of _ s'] exI [of _ "[n]"]) simp
qed

lemma after_step:
  assumes "trees_ok s r F U" "n \<notin> set (A @ m # B) \<union> F \<union> U" "n \<noteq> NULL"
    and "rseg (regs_at s) NULL (A @ m # B) NULL" "distinct (A @ m # B)" "NULL \<notin> set (A @ m # B)"
    and "get_node (node_part s) (kroot s) = Some (n, rt, ns)" "ps \<noteq> pe \<Longrightarrow> ps < pe"
  shows "\<exists>root s' Q. partition_after s r m ps pe = Some (r\<lparr>free_regions := root\<rparr>, s') \<and>
    trees_ok s' (r\<lparr>free_regions := root\<rparr>) (F \<union> set Q) U \<and> rseg (regs_at s') NULL (A @ m # Q @ B) NULL \<and>
    tiles (regs_at s') ps Q pe \<and> (\<forall>x \<in> set Q. \<not> is_region_used (regs_at s' x)) \<and>
    (\<forall>x. x \<notin> set Q \<longrightarrow> same_span (regs_at s x) (regs_at s' x)) \<and> (Q = [] \<or> Q = [n])"
proof (cases "ps = pe")
  case True
  then show ?thesis using assms(1,4)
    by (intro exI [of _ "free_regions r"] exI [of _ s] exI [of _ "[]"]) (simp add: partition_after_def)
next
  case False
  from partition_after_ok [OF assms(1-7) False] obtain root s' where
    "partition_after s r m ps pe = Some (r\<lparr>free_regions := root\<rparr>, s')"
    "trees_ok s' (r\<lparr>free_regions := root\<rparr>) (insert n F) U" "rseg (regs_at s') NULL (A @ m # n # B) NULL"
    "m_start (regs_at s' n) = ps" "m_end (regs_at s' n) = pe"
    "\<not> is_region_used (regs_at s' n)" "\<forall>x. x \<noteq> n \<longrightarrow> same_span (regs_at s x) (regs_at s' x)" by blast
  then show ?thesis using assms(8) False
    by (intro exI [of _ root] exI [of _ s'] exI [of _ "[n]"]) simp
qed

text \<open>The last step: the region gets its new span and flags and goes into the tree of used regions.\<close>

lemma claim_step:
  assumes trees: "trees_ok s r F U" and m: "m \<notin> F \<union> U" "m \<noteq> NULL" and rseg: "rseg (regs_at s) NULL L NULL"
  shows "\<exists>root s'. claim_region s r m start tp flags pid = Some (r\<lparr>used_regions := root\<rparr>, s') \<and>
    trees_ok s' (r\<lparr>used_regions := root\<rparr>) F (insert m U) \<and> rseg (regs_at s') NULL L NULL \<and>
    m_start (regs_at s' m) = start \<and> m_end (regs_at s' m) = tp \<and> m_flags (regs_at s' m) = mark_region_used flags \<and>
    m_pid (regs_at s' m) = pid \<and> is_region_used (regs_at s' m) \<and> (\<forall>x. x \<noteq> m \<longrightarrow> regs_at s' x = regs_at s x)"
proof -
  define s1 where "s1 = upd_mreg s m (\<lambda>t. t\<lparr>m_end := tp, m_start := start, m_flags := flags, m_pid := pid\<rparr>)"
  define s2 where "s2 = (if m_pid (regs_at s1 m) = 0 then upd_mreg s1 m (\<lambda>t. t\<lparr>m_refcount := 1\<rparr>) else s1)"
  define s3 where "s3 = upd_mreg s2 m (\<lambda>t. t\<lparr>m_flags := mark_region_used (m_flags t)\<rparr>)"
  have claim: "claim_region s r m start tp flags pid = insert_used_region s3 r m"
    by (simp only: claim_region_def Let_def s1_def s2_def s3_def)
  have g: "x \<noteq> m \<Longrightarrow> regs_at s3 x = regs_at s x" "m_prev (regs_at s3 x) = m_prev (regs_at s x)"
    "m_next (regs_at s3 x) = m_next (regs_at s x)" "links s3 = links s" for x
    by (simp_all add: s3_def s2_def s1_def field_defs)
  have gm: "m_start (regs_at s3 m) = start" "m_end (regs_at s3 m) = tp" "m_flags (regs_at s3 m) = mark_region_used flags"
    "m_pid (regs_at s3 m) = pid"
    by (simp_all add: s3_def s2_def s1_def field_defs)
  have used: "is_region_used (regs_at s3 m)"
    by (simp add: is_region_used_def gm mark_region_used_def is_set_def set_bits_mask_def MR_USED_def bit.conj_disj_distrib2)
  have off: "x \<in> F \<union> U \<Longrightarrow> regs_at s3 x = regs_at s x" for x using m(1) by (intro g(1)) blast
  have "trees_ok s3 r F U" using trees by (rule trees_ok_cong) (simp_all add: off g(4))
  from insert_used_ok [OF this m] obtain h root where
    "insert_used_region s3 r m = Some (r\<lparr>used_regions := root\<rparr>, s3\<lparr>links := h\<rparr>)"
    "trees_ok (s3\<lparr>links := h\<rparr>) (r\<lparr>used_regions := root\<rparr>) F (insert m U)" by blast
  moreover have "rseg (regs_at s3) NULL L NULL" using rseg rseg_cong [of L "regs_at s3" "regs_at s"] g by simp
  ultimately show ?thesis using g(1) gm used claim by (intro exI [of _ root] exI [of _ "s3\<lparr>links := h\<rparr>"]) simp
qed

text \<open>A free region \<open>m\<close> is replaced by a used one between the free pieces \<open>P\<close> and \<open>Q\<close>.\<close>

lemma split_keeps_inv:
  assumes inv: "regions_inv s r a b (A @ m # B)" and free: "\<not> is_region_used (regs_at s m)"
    and FU: "F = {x \<in> set (A @ m # B). \<not> is_region_used (regs_at s x)}" "U = {x \<in> set (A @ m # B). is_region_used (regs_at s x)}"
    and old: "\<And>x. x \<in> set (A @ B) \<Longrightarrow> same_span (regs_at s x) (regs_at s' x)"
    and list: "rseg (regs_at s') NULL (A @ P @ m # Q @ B) NULL" "distinct (A @ P @ m # Q @ B)"
    and mid: "tiles (regs_at s') (m_start (regs_at s m)) (P @ m # Q) (m_end (regs_at s m))"
    and flags: "is_region_used (regs_at s' m)" "\<And>x. x \<in> set (P @ Q) \<Longrightarrow> \<not> is_region_used (regs_at s' x)"
    and trees: "trees_ok s' r' (F - {m} \<union> set P \<union> set Q) (insert m U)"
  shows "regions_inv s' r' a b (A @ P @ m # Q @ B)"
proof -
  let ?L' = "A @ P @ m # Q @ B"
  have used': "is_region_used (regs_at s' x) = is_region_used (regs_at s x)" if "x \<in> set (A @ B)" for x
    using same_span_used [OF old [OF that]] .
  have "tiles (regs_at s) a A (m_start (regs_at s m))" "tiles (regs_at s) (m_end (regs_at s m)) B b"
    using inv by (auto simp: regions_inv_def tiles_append)
  then have "tiles (regs_at s') a A (m_start (regs_at s m))" "tiles (regs_at s') (m_end (regs_at s m)) B b"
    using old tiles_cong [of A "regs_at s'" "regs_at s"] tiles_cong [of B "regs_at s'" "regs_at s"]
    by (simp_all add: same_span_def)
  then have til: "tiles (regs_at s') a (A @ (P @ m # Q) @ B) b" using mid tiles_append by metis
  have "{x \<in> set ?L'. \<not> is_region_used (regs_at s' x)} = F - {m} \<union> set P \<union> set Q"
    using list(2) flags used' by (auto simp: FU)
  moreover have "{x \<in> set ?L'. is_region_used (regs_at s' x)} = insert m U"
    using list(2) flags used' free by (auto simp: FU)
  ultimately show ?thesis unfolding regions_inv_def using list trees til by simp
qed

text \<open>Splitting a free region: the part at offset \<open>al\<close> becomes used, the rest stays free.\<close>

lemma region_split:
  assumes inv: "regions_inv s r a b (A @ m # B)" and free: "\<not> is_region_used (regs_at s m)"
    and fits: "unat al + unat pages \<le> unat (m_end (regs_at s m) - m_start (regs_at s m))" "0 < pages"
    and nodes: "node_supply s (A @ m # B)"
  shows "\<exists>r' s' P Q. partition_region s r m pages al flags pid = Some (page_addr (m_start (regs_at s m) + al), r', s') \<and>
    regions_inv s' r' a b (A @ P @ m # Q @ B) \<and>
    m_start (regs_at s' m) = m_start (regs_at s m) + al \<and> m_end (regs_at s' m) = m_start (regs_at s m) + al + pages \<and>
    is_region_used (regs_at s' m) \<and> m_flags (regs_at s' m) = mark_region_used flags \<and> m_pid (regs_at s' m) = pid \<and>
    (\<forall>x \<in> set (P @ Q). \<not> is_region_used (regs_at s' x)) \<and> length P \<le> 1 \<and> length Q \<le> 1 \<and>
    tiles (regs_at s') (m_start (regs_at s m)) (P @ m # Q) (m_end (regs_at s m)) \<and>
    (\<forall>x \<in> set (A @ B). same_span (regs_at s x) (regs_at s' x))"
proof -
  let ?L = "A @ m # B"
  define F U where FU: "F = {x \<in> set ?L. \<not> is_region_used (regs_at s x)}" "U = {x \<in> set ?L. is_region_used (regs_at s x)}"
  define st en where span: "st = m_start (regs_at s m)" "en = m_end (regs_at s m)"
  have L: "distinct ?L" "rseg (regs_at s) NULL ?L NULL" "trees_ok s r F U" and til: "tiles (regs_at s) a ?L b"
    using inv by (simp_all add: regions_inv_def FU)
  have nn: "NULL \<notin> set ?L" using inv by (rule regions_inv_NULL)
  have mF: "m \<in> F" "m \<notin> U" using free by (simp_all add: FU)
  obtain n1 r1 ns1 n2 r2 ns2 where sup: "get_node (node_part s) (kroot s) = Some (n1, r1, ns1)"
     "get_node ns1 r1 = Some (n2, r2, ns2)" "n1 \<noteq> NULL" "n2 \<noteq> NULL" "n1 \<noteq> n2" "n1 \<notin> set ?L" "n2 \<notin> set ?L"
    using nodes unfolding node_supply_def by blast
  have lt: "st < en" "tiles (regs_at s) a A st" "tiles (regs_at s) en B b"
    using til by (auto simp: tiles_append span)
  note arith = split_arith [OF lt(1), of al pages] fits
  obtain h0 root0 where s0: "remove_free s r m = Some (r\<lparr>free_regions := root0\<rparr>, s\<lparr>links := h0\<rparr>)"
    "trees_ok (s\<lparr>links := h0\<rparr>) (r\<lparr>free_regions := root0\<rparr>) (F - {m}) U"
    using remove_free_ok [OF L(3) mF(1)] by blast
  define r0 s0' where rs0: "r0 = r\<lparr>free_regions := root0\<rparr>" "s0' = s\<lparr>links := h0\<rparr>"
  have n1F: "n1 \<notin> set ?L \<union> (F - {m}) \<union> U" using sup(6) by (auto simp: FU)
  have "get_node (node_part s0') (kroot s0') = Some (n1, r1, ns1)" using sup(1) by (simp add: rs0 node_part_def)
  from before_step [OF s0(2) [folded rs0] n1F sup(3) _ L(1) nn this, of st "st + al"]
  obtain root1 s1 P where s1: "partition_before s0' r0 m st (st + al) = Some (r0\<lparr>free_regions := root1\<rparr>, s1)"
    "trees_ok s1 (r0\<lparr>free_regions := root1\<rparr>) (F - {m} \<union> set P) U" "rseg (regs_at s1) NULL (A @ P @ m # B) NULL"
    "tiles (regs_at s1) st P (st + al)" "\<forall>x \<in> set P. \<not> is_region_used (regs_at s1 x)"
    "\<forall>x. x \<notin> set P \<longrightarrow> same_span (regs_at s x) (regs_at s1 x)"
    "P = [] \<and> node_part s1 = node_part s0' \<and> kroot s1 = kroot s0' \<or> P = [n1] \<and> node_part s1 = ns1 \<and> kroot s1 = r1"
    using L(2) arith(1,4) fits by (auto simp: rs0 span)
  obtain n rt ns where n: "get_node (node_part s1) (kroot s1) = Some (n, rt, ns)" "n \<noteq> NULL" "n \<notin> set ?L \<union> set P"
    using s1(7) sup by (auto simp: rs0 node_part_def)
  define r1' where r1': "r1' = r0\<lparr>free_regions := root1\<rparr>"
  have P: "set P \<inter> set ?L = {}" "distinct P" "NULL \<notin> set P" using s1(7) sup by auto
  have d1: "distinct ((A @ P) @ m # B)" "NULL \<notin> set ((A @ P) @ m # B)" using L(1) nn P by auto
  have n2F: "n \<notin> set ((A @ P) @ m # B) \<union> (F - {m} \<union> set P) \<union> U" using n(3) by (auto simp: FU)
  from after_step [OF s1(2) [folded r1'] n2F n(2) _ d1 n(1), of "st + al + pages" en]
  obtain root2 s2 Q where s2: "partition_after s1 r1' m (st + al + pages) en = Some (r1'\<lparr>free_regions := root2\<rparr>, s2)"
    "trees_ok s2 (r1'\<lparr>free_regions := root2\<rparr>) (F - {m} \<union> set P \<union> set Q) U"
    "rseg (regs_at s2) NULL (A @ P @ m # Q @ B) NULL"
    "tiles (regs_at s2) (st + al + pages) Q en" "\<forall>x \<in> set Q. \<not> is_region_used (regs_at s2 x)"
    "\<forall>x. x \<notin> set Q \<longrightarrow> same_span (regs_at s1 x) (regs_at s2 x)" "Q = [] \<or> Q = [n]"
    using s1(3) arith(3) fits by (auto simp: span)
  have Q: "set Q \<inter> set (?L @ P) = {}" "distinct Q" using s2(7) n(3) by auto
  define r2' where r2': "r2' = r1'\<lparr>free_regions := root2\<rparr>"
  have mFU: "m \<notin> (F - {m} \<union> set P \<union> set Q) \<union> U" "m \<noteq> NULL" using mF P Q nn by auto
  from claim_step [OF s2(2) [folded r2'] mFU s2(3), of "st + al" "st + al + pages" flags pid]
  obtain root3 s' where s3: "claim_region s2 r2' m (st + al) (st + al + pages) flags pid = Some (r2'\<lparr>used_regions := root3\<rparr>, s')"
    "trees_ok s' (r2'\<lparr>used_regions := root3\<rparr>) (F - {m} \<union> set P \<union> set Q) (insert m U)"
    "rseg (regs_at s') NULL (A @ P @ m # Q @ B) NULL" "m_start (regs_at s' m) = st + al" "m_end (regs_at s' m) = st + al + pages"
    "m_flags (regs_at s' m) = mark_region_used flags" "m_pid (regs_at s' m) = pid" "is_region_used (regs_at s' m)"
    "\<forall>x. x \<noteq> m \<longrightarrow> regs_at s' x = regs_at s2 x" by blast
  have at0: "m_start (regs_at s0' m) = st" "m_end (regs_at s0' m) = en" by (simp_all add: rs0 span)
  have run: "partition_region s r m pages al flags pid = Some (page_addr (st + al), r2'\<lparr>used_regions := root3\<rparr>, s')"
    using s0(1) s1(1) s2(1) s3(1)
    by (simp add: partition_region_def rs0 [symmetric] r1' [symmetric] r2' [symmetric] Let_def at0)
  have old: "same_span (regs_at s x) (regs_at s' x)" if "x \<in> set (A @ B)" for x
  proof -
    have "x \<noteq> m" "x \<notin> set P" "x \<notin> set Q" using that L(1) P(1) Q(1) by auto
    then show ?thesis using s1(6) s2(6) s3(9) same_span_trans by metis
  qed
  have P': "same_span (regs_at s1 x) (regs_at s' x)" if "x \<in> set P" for x
  proof -
    have "x \<noteq> m" "x \<notin> set Q" using that P(1) Q(1) by auto
    then show ?thesis using s2(6) s3(9) by metis
  qed
  have Q': "regs_at s' x = regs_at s2 x" if "x \<in> set Q" for x
    using that Q(1) s3(9) by auto
  have free': "\<not> is_region_used (regs_at s' x)" if "x \<in> set (P @ Q)" for x
    using that s1(5) s2(5) same_span_used [OF P'] Q' by auto
  have "tiles (regs_at s') st P (st + al)"
    by (rule tiles_cong [THEN iffD1, OF _ s1(4)]) (use P' in \<open>simp add: same_span_def\<close>)
  moreover have "tiles (regs_at s') (st + al + pages) Q en"
    by (rule tiles_cong [THEN iffD1, OF _ s2(4)]) (simp add: Q')
  ultimately have mid: "tiles (regs_at s') st (P @ m # Q) en"
    using s3(4,5) arith(2) [OF fits [folded span]] by (auto simp: tiles_append)
  have "distinct (A @ P @ m # Q @ B)" using L(1) P Q by auto
  with mid have "regions_inv s' (r2'\<lparr>used_regions := root3\<rparr>) a b (A @ P @ m # Q @ B)"
    using split_keeps_inv [OF inv free FU old s3(3) _ _ s3(8) free' s3(2)] unfolding span by blast
  moreover have "length P \<le> 1" "length Q \<le> 1" using s1(7) s2(7) by auto
  ultimately show ?thesis using run s3(4-8) free' old mid unfolding span by blast
qed

end
