(* ===== verification/Region_Alloc.thy ===== *)
theory Region_Alloc
  imports Region_Inv
begin

text \<open>
  What the allocators of \<^verbatim>\<open>src/regions.c\<close> promise on a well-formed arena: the searches end and return what they
  look for, and an allocation either fails and leaves everything as it was or turns a part of one free
  region into a used one.
\<close>

section \<open>Walking the list\<close>

lemma tiles_le: "tiles g a xs b \<Longrightarrow> a \<le> b"
  by (induction xs arbitrary: a) (auto intro: order.trans less_imp_le)

abbreviation in_region :: "(ptr \<Rightarrow> mem_region) \<Rightarrow> u64 \<Rightarrow> ptr \<Rightarrow> bool" where
  "in_region g ref m \<equiv> m_start (g m) \<le> ref \<and> ref < m_end (g m)"

lemma locate_right:
  assumes "rseg g p (x # B) NULL" "tiles g c (x # B) b" "c \<le> ref" "ref < b" "NULL \<notin> set B"
  shows "\<exists>y \<in> set (x # B). locate_region g ref x = Some y \<and> in_region g ref y"
  using assms
proof (induction B arbitrary: x p c)
  case Nil
  then show ?case by (subst locate_region.simps) auto
next
  case (Cons y B)
  show ?case
  proof (cases "ref < m_end (g x)")
    case True
    then show ?thesis using Cons.prems by (subst locate_region.simps) auto
  next
    case False
    then have "locate_region g ref x = locate_region g ref y"
      using Cons.prems by (subst locate_region.simps) (auto simp: Let_def)
    moreover have "\<exists>z \<in> set (y # B). locate_region g ref y = Some z \<and> in_region g ref z"
      using Cons.prems False by (intro Cons.IH [of x y "m_end (g x)"]) auto
    ultimately show ?thesis by auto
  qed
qed

lemma locate_left:
  assumes "rseg g NULL (A @ [x]) q" "tiles g a (A @ [x]) c" "a \<le> ref" "ref < c" "NULL \<notin> set A"
  shows "\<exists>y \<in> set (A @ [x]). locate_region g ref x = Some y \<and> in_region g ref y"
  using assms
proof (induction A arbitrary: x q c rule: rev_induct)
  case Nil
  then show ?case by (subst locate_region.simps) auto
next
  case (snoc y A)
  have x: "m_end (g x) = c" "m_prev (g x) = y" "y \<noteq> NULL" and t: "tiles g a (A @ [y]) (m_start (g x))"
    and r: "rseg g NULL (A @ [y]) x"
    using snoc.prems by (auto simp: tiles_append rseg_append)
  show ?case
  proof (cases "m_start (g x) \<le> ref")
    case True
    then show ?thesis using x snoc.prems(4) by (subst locate_region.simps) auto
  next
    case False
    then have "locate_region g ref x = locate_region g ref y"
      using x by (subst locate_region.simps) (auto simp: Let_def)
    moreover have "\<exists>z \<in> set (A @ [y]). locate_region g ref y = Some z \<and> in_region g ref z"
      using snoc.prems False by (intro snoc.IH [OF r t]) auto
    ultimately show ?thesis by auto
  qed
qed

lemma locate_region_finds:
  assumes "rseg g NULL L NULL" "tiles g a L b" "a \<le> ref" "ref < b" "NULL \<notin> set L" "m \<in> set L"
  shows "\<exists>y \<in> set L. locate_region g ref m = Some y \<and> in_region g ref y"
proof -
  obtain A B where L: "L = A @ m # B" using assms(6) by (auto dest: split_list)
  obtain c where c: "tiles g a A c" "tiles g c (m # B) b" using assms(2) unfolding L tiles_append by blast
  show ?thesis
  proof (cases "c \<le> ref")
    case True
    then show ?thesis
      using locate_right [of g "last (NULL # A)" m B c b ref] assms c unfolding L by (auto simp: rseg_append)
  next
    case False
    then have "ref < m_end (g m)" "tiles g a (A @ [m]) (m_end (g m))" using c by (auto simp: tiles_append)
    moreover have "rseg g NULL (A @ [m]) (hd (B @ [NULL]))" using assms(1) unfolding L by (auto simp: rseg_append)
    ultimately show ?thesis using locate_left [of g A m "hd (B @ [NULL])" a "m_end (g m)" ref] assms(3,5) unfolding L by auto
  qed
qed

section \<open>The closest used region\<close>

lemma find_closest_from_ends:
  assumes "tree_at h par n t"
  shows "\<exists>c. find_closest_from h g ref n closest md = Some c \<and> (c = closest \<or> c \<in> set_tree t)"
  using assms
proof (induction t arbitrary: par n closest md)
  case Leaf
  then show ?case by (subst find_closest_from.simps) simp
next
  case (Node l y r)
  let ?d = "word_of_int (ABS_c (sint ref - sint (m_start (g y)))) :: u64"
  let ?c = "if ?d < md then y else closest" and ?md = "if ?d < md then ?d else md"
  have n: "n = y" "y \<noteq> NULL" "tree_at h y (sp_left (h y)) l" "tree_at h y (sp_right (h y)) r" using Node.prems by auto
  have "find_closest_from h g ref n closest md =
      (if ?d = 0 then Some y else if ref < m_start (g y) then find_closest_from h g ref (sp_left (h y)) ?c ?md
       else find_closest_from h g ref (sp_right (h y)) ?c ?md)"
    using n by (subst find_closest_from.simps) (auto simp: Let_def)
  then show ?case using Node.IH(1) [OF n(3), of ?c ?md] Node.IH(2) [OF n(4), of ?c ?md] by auto
qed

text \<open>The distance of two page numbers is never the initial minimum \<^verbatim>\<open>(size_t)(-1)\<close>.\<close>

lemma page_distance_small:
  assumes "unat ref < 2 ^ 52"
  shows "(word_of_int (ABS_c (sint (ref :: u64) - sint (st :: u64))) :: u64) \<noteq> - 1"
proof -
  have "int (unat ref) < int (2 ^ 52)" using assms by (rule of_nat_less_iff [THEN iffD2])
  then have u: "0 \<le> uint ref" "uint ref < 2 ^ 52" by (simp_all only: of_nat_unat of_nat_power of_nat_numeral uint_ge_0)
  have r: "sint ref = uint ref" unfolding sint_uint using u order.trans [OF _ u(1)] by (intro signed_take_bit_int_eq_self) simp_all
  have s: "- (2 ^ 63) \<le> sint st" "sint st < 2 ^ 63" using sint_ge [of st] sint_lt [of st] by simp_all
  let ?a = "ABS_c (sint ref - sint st)"
  have "0 \<le> R \<Longrightarrow> R < 2 ^ 52 \<Longrightarrow> - (2 ^ 63) \<le> S \<Longrightarrow> S < 2 ^ 63 \<Longrightarrow> R - S < 2 ^ 64 - 1 \<and> - (R - S) < 2 ^ 64 - 1" for R S :: int
    by simp
  from this [OF u s] have "sint ref - sint st < 2 ^ 64 - 1" "- (sint ref - sint st) < 2 ^ 64 - 1" unfolding r by blast+
  then have a: "0 \<le> ?a" "?a < 2 ^ 64 - 1" unfolding ABS_c_def by (auto split: if_split)
  have "uint (word_of_int ?a :: u64) = ?a" using a by (simp add: uint_word_of_int_eq take_bit_int_eq_self)
  moreover have "uint (- 1 :: u64) = 2 ^ 64 - 1" by (simp add: unsigned_minus_1_eq_mask mask_eq_exp_minus_1)
  ultimately show ?thesis using a by (metis less_irrefl)
qed

lemma page_nr_small: "unat (page_nr x) < 2 ^ 52"
  using unat_u64_less [of x] by (simp add: page_nr_def unat_div BASE_PAGE_SIZE_def)

lemma find_closest_used_region_member:
  assumes "trees_ok s r F U" "F \<union> U \<noteq> {}"
  shows "\<exists>m \<in> F \<union> U. find_closest_used_region s r start = Some m"
proof -
  obtain fs us where fs: "sp_seq (links s) (free_regions r) fs" "set fs = F" and us: "sp_seq (links s) (used_regions r) us" "set us = U"
    using assms(1) unfolding trees_ok_def by blast
  show ?thesis
  proof (cases "used_regions r = NULL")
    case True
    then have "fs \<noteq> []" using sp_seq_root [OF us(1)] us(2) fs(2) assms(2) by auto
    then obtain t where "tree_at (links s) NULL (free_regions r) t" "inorder t = fs" "t \<noteq> Leaf" using fs(1) unfolding sp_seq_def by fastforce
    then have "free_regions r \<in> F" using fs(2) by (cases t) auto
    then show ?thesis using True by (simp add: find_closest_used_region_def)
  next
    case False
    obtain t where t: "tree_at (links s) NULL (used_regions r) t" "inorder t = us" using us(1) unfolding sp_seq_def by blast
    let ?n = "used_regions r" and ?ref = "page_nr start"
    obtain l rt where n: "t = Node l ?n rt" using t(1) False by (cases t) auto
    let ?d = "word_of_int (ABS_c (sint ?ref - sint (m_start (regs_at s ?n)))) :: u64"
    have "?d < - 1" using page_distance_small [OF page_nr_small, of start "m_start (regs_at s ?n)"]
      by (simp add: word_order.not_eq_extremum)
    then have "find_closest_used_region s r start = (if ?d = 0 then Some ?n
        else if ?ref < m_start (regs_at s ?n) then find_closest_from (links s) (regs_at s) ?ref (sp_left (links s ?n)) ?n ?d
        else find_closest_from (links s) (regs_at s) ?ref (sp_right (links s ?n)) ?n ?d)"
      using False unfolding find_closest_used_region_def by (subst find_closest_from.simps) (simp add: Let_def)
    moreover have "?n \<in> U" "set_tree l \<subseteq> U" "set_tree rt \<subseteq> U" using t(2) us(2) n by auto
    moreover have "tree_at (links s) ?n (sp_left (links s ?n)) l" "tree_at (links s) ?n (sp_right (links s ?n)) rt"
      using t(1) n by auto
    ultimately show ?thesis
      using find_closest_from_ends [of "links s" ?n "sp_left (links s ?n)" l "regs_at s" ?ref ?n ?d]
        find_closest_from_ends [of "links s" ?n "sp_right (links s ?n)" rt "regs_at s" ?ref ?n ?d] by auto
  qed
qed

section \<open>The search for free space\<close>

definition region_pages :: "(ptr \<Rightarrow> mem_region) \<Rightarrow> ptr \<Rightarrow> u64" where
  "region_pages g m = m_end (g m) - m_start (g m)"

lemma align_up_ge:
  assumes "unat v + unat a \<le> 2 ^ 64"
  shows "v \<le> align_up v (a :: u64)"
proof (cases "a = 0")
  case True
  then show ?thesis by (simp add: align_up_def align_down_def)
next
  case False
  then have "0 < unat a" by (simp add: unat_gt_0)
  then have "unat v \<le> (unat v + unat a - 1) div unat a * unat a"
    using div_mult_mod_eq [of "unat v + unat a - 1" "unat a"]
      mod_less_divisor [of "unat a" "unat v + unat a - 1"] by linarith
  then show ?thesis using unat_align_up [of a v] False assms by (simp add: word_le_nat_alt)
qed

text \<open>The search walks along the right spine of the tree, which ends at the largest free region.\<close>

lemma find_free_from_spec:
  assumes "tree_at (links s) par n t" "sorted (map (region_key (regs_at s)) (inorder t))"
    and "\<And>x. x \<in> set_tree t \<Longrightarrow> rr_start r + reserved r \<le> m_start (regs_at s x) \<and> m_start (regs_at s x) < m_end (regs_at s x) \<and>
       unat (m_start (regs_at s x)) + unat off \<le> 2 ^ 64" "0 < sz"
  shows "\<exists>m al. find_free_from s r sz off n qb = Some (m, al) \<and>
    (m = qb \<and> al = 0 \<or> m \<in> set_tree t \<and> unat al + unat sz \<le> unat (region_pages (regs_at s) m)) \<and>
    (qb = NULL \<longrightarrow> (m = NULL \<longleftrightarrow> (\<forall>x \<in> set_tree t. region_pages (regs_at s) x < sz)))"
  using assms
proof (induction t arbitrary: par n qb)
  case Leaf
  then show ?case by (subst find_free_from.simps) simp
next
  case (Node l y rt)
  let ?t = "regs_at s y"
  let ?start = "align_up (m_start ?t) off"
  let ?bsize = "if ?start \<le> m_end ?t then m_end ?t - ?start else 0"
  let ?qb = "if qb = NULL \<and> sz \<le> region_pages (regs_at s) y then y else qb"
  have n: "n = y" "y \<noteq> NULL" "tree_at (links s) y (sp_right (links s y)) rt" using Node.prems(1) by auto
  have y: "rr_start r + reserved r \<le> m_start ?t" "m_start ?t \<le> ?start" "m_start ?t < m_end ?t"
    using Node.prems(3) [of y] align_up_ge by auto
  have srt: "sorted (map (region_key (regs_at s)) (inorder rt))" using Node.prems(2) by (simp add: sorted_append)
  have small: "region_pages (regs_at s) x \<le> region_pages (regs_at s) y" if "x \<in> set_tree l" for x
  proof -
    have "region_key (regs_at s) x \<le> region_key (regs_at s) y" using Node.prems(2) that by (auto simp: sorted_append)
    then show ?thesis by (auto simp: region_key_def region_pages_def less_eq_prod_def)
  qed
  have step: "find_free_from s r sz off n qb =
      (if sz \<le> ?bsize then Some (y, ?start - m_start ?t) else find_free_from s r sz off (sp_right (links s y)) ?qb)"
    using n y by (subst find_free_from.simps) (auto simp: Let_def region_pages_def)
  show ?case
  proof (cases "sz \<le> ?bsize")
    case True
    then have "?start \<le> m_end ?t" "unat sz \<le> unat (m_end ?t - ?start)"
      using Node.prems(4) by (auto simp: word_le_nat_alt word_less_nat_alt split: if_splits)
    then have "unat (?start - m_start ?t) + unat sz \<le> unat (region_pages (regs_at s) y)"
      using y by (simp add: region_pages_def word_le_nat_alt unat_sub word_less_nat_alt)
    then show ?thesis using True step n by (auto simp: word_le_nat_alt word_less_nat_alt)
  next
    case False
    obtain m al where m: "find_free_from s r sz off (sp_right (links s y)) ?qb = Some (m, al)"
      "m = ?qb \<and> al = 0 \<or> m \<in> set_tree rt \<and> unat al + unat sz \<le> unat (region_pages (regs_at s) m)"
      "?qb = NULL \<Longrightarrow> m = NULL \<longleftrightarrow> (\<forall>x \<in> set_tree rt. region_pages (regs_at s) x < sz)"
      using Node.IH(2) [OF n(3) srt Node.prems(3,4), of ?qb] by auto
    have "m = qb \<and> al = 0 \<or> m \<in> set_tree (Node l y rt) \<and> unat al + unat sz \<le> unat (region_pages (regs_at s) m)"
      using m(2) by (auto simp: word_le_nat_alt split: if_splits)
    moreover have "m = NULL \<longleftrightarrow> (\<forall>x \<in> set_tree (Node l y rt). region_pages (regs_at s) x < sz)" if "qb = NULL"
    proof (cases "sz \<le> region_pages (regs_at s) y")
      case True
      have "m \<noteq> NULL" using m(2) True that n(2) tree_at_NULL_notin [OF n(3)] by auto
      then show ?thesis using True by auto
    next
      case False
      have "region_pages (regs_at s) x < sz" if "x \<in> set_tree l" for x using small [OF that] False by simp
      then show ?thesis using False m(3) that by auto
    qed
    ultimately show ?thesis using False step m(1) by auto
  qed
qed

lemma find_free_region_spec:
  assumes "trees_ok s r F U" "0 < sz"
    and "\<And>x. x \<in> F \<Longrightarrow> rr_start r + reserved r \<le> m_start (regs_at s x) \<and> m_start (regs_at s x) < m_end (regs_at s x) \<and>
       unat (m_start (regs_at s x)) < 2 ^ 63"
  shows "\<exists>m al. find_free_region s r sz = Some (m, al) \<and>
    (m = NULL \<and> (\<forall>x \<in> F. region_pages (regs_at s) x < sz) \<or> m \<in> F \<and> unat al + unat sz \<le> unat (region_pages (regs_at s) m))"
proof -
  let ?off = "page_nr (po_align (vgeom (kvm s)) (page_addr sz))"
  obtain fs where fs: "sp_seq (links s) (free_regions r) fs" "sorted (map (region_key (regs_at s)) fs)" "set fs = F"
    using assms(1) unfolding trees_ok_def by blast
  then obtain t where t: "tree_at (links s) NULL (free_regions r) t" "inorder t = fs" unfolding sp_seq_def by blast
  have F: "set_tree t = F" using t(2) fs(3) by (metis set_inorder)
  have "unat (m_start (regs_at s x)) + unat ?off \<le> 2 ^ 64" if "x \<in> F" for x
    using assms(3) [OF that] page_nr_small [of "po_align (vgeom (kvm s)) (page_addr sz)"] by simp
  then show ?thesis
    using find_free_from_spec [of s NULL "free_regions r" t r ?off sz NULL] t fs(2) assms(2,3) F
    by (auto simp: find_free_region_def Let_def)
qed

section \<open>The abstract arena\<close>

text \<open>An arena as its users see it: the spans in order, each with whether it is in use.\<close>

definition span_of :: "region_state \<Rightarrow> ptr \<Rightarrow> u64 \<times> u64 \<times> bool" where
  "span_of s m = (m_start (regs_at s m), m_end (regs_at s m), is_region_used (regs_at s m))"

fun carve :: "u64 \<times> u64 \<times> bool \<Rightarrow> u64 \<Rightarrow> u64 \<Rightarrow> (u64 \<times> u64 \<times> bool) list" where
  "carve (st, en, _) al pages =
     (if al = 0 then [] else [(st, st + al, False)]) @ [(st + al, st + al + pages, True)] @
     (if st + al + pages = en then [] else [(st + al + pages, en, False)])"

text \<open>\<open>took s r a b L m al pages s' r'\<close>: of the arena \<open>L\<close> the free region \<open>m\<close> was carved up, and nothing else changed.\<close>

definition took :: "region_state \<Rightarrow> u64 \<Rightarrow> u64 \<Rightarrow> ptr list \<Rightarrow> ptr \<Rightarrow> u64 \<Rightarrow> u64 \<Rightarrow> region_state \<Rightarrow> mem_region_root \<Rightarrow> bool" where
  "took s a b L m al pages s' r' \<longleftrightarrow>
     (\<exists>A B L'. L = A @ m # B \<and> regions_inv s' r' a b L' \<and>
        map (span_of s') L' = map (span_of s) A @ carve (span_of s m) al pages @ map (span_of s) B)"

lemma short_tiles:
  assumes "tiles g st P en" "length P \<le> 1"
  shows "map (\<lambda>x. (m_start (g x), m_end (g x))) P = (if st = en then [] else [(st, en)])"
  using assms by (cases P) auto

lemma partition_took:
  assumes inv: "regions_inv s r a b L" and m: "m \<in> set L" "\<not> is_region_used (regs_at s m)"
    and fits: "unat al + unat pages \<le> unat (region_pages (regs_at s) m)" "0 < pages"
    and nodes: "node_supply s L"
  shows "\<exists>r' s'. partition_region s r m pages al flags pid = Some (page_addr (m_start (regs_at s m) + al), r', s') \<and>
    took s a b L m al pages s' r'"
proof -
  obtain A B where L: "L = A @ m # B" using m(1) by (auto dest: split_list)
  obtain r' s' P Q where p: "partition_region s r m pages al flags pid = Some (page_addr (m_start (regs_at s m) + al), r', s')"
      "regions_inv s' r' a b (A @ P @ m # Q @ B)"
      "m_start (regs_at s' m) = m_start (regs_at s m) + al" "m_end (regs_at s' m) = m_start (regs_at s m) + al + pages"
      "is_region_used (regs_at s' m)" "\<forall>x \<in> set (P @ Q). \<not> is_region_used (regs_at s' x)" "length P \<le> 1" "length Q \<le> 1"
      "tiles (regs_at s') (m_start (regs_at s m)) (P @ m # Q) (m_end (regs_at s m))"
      "\<forall>x \<in> set (A @ B). same_span (regs_at s x) (regs_at s' x)"
    using region_split [OF inv [unfolded L] m(2) fits [unfolded region_pages_def] nodes [unfolded L], of flags pid] by blast
  have t: "tiles (regs_at s') (m_start (regs_at s m)) P (m_start (regs_at s m) + al)"
      "tiles (regs_at s') (m_start (regs_at s m) + al + pages) Q (m_end (regs_at s m))"
    using p(3,4,9) by (auto simp: tiles_append)
  have old: "map (span_of s') A = map (span_of s) A" "map (span_of s') B = map (span_of s) B"
    using p(10) by (simp_all add: span_of_def same_span_def is_region_used_def)
  have mid: "map (span_of s') xs = map (\<lambda>(x, y). (x, y, False)) (map (\<lambda>x. (m_start (regs_at s' x), m_end (regs_at s' x))) xs)"
    if "set xs \<subseteq> set (P @ Q)" for xs using that p(6) by (auto simp: span_of_def)
  have "map (span_of s') (P @ m # Q) = carve (span_of s m) al pages"
    using mid [of P] mid [of Q] short_tiles [OF t(1) p(7)] short_tiles [OF t(2) p(8)] p(3-5)
    by (simp add: span_of_def)
  then have "map (span_of s') (A @ (P @ m # Q) @ B) = map (span_of s) A @ carve (span_of s m) al pages @ map (span_of s) B"
    by (simp only: map_append old)
  then have "map (span_of s') (A @ P @ m # Q @ B) = map (span_of s) A @ carve (span_of s m) al pages @ map (span_of s) B"
    by simp
  then show ?thesis using p(1,2) L unfolding took_def by blast
qed

lemma regions_inv_trees:
  "regions_inv s r a b L \<Longrightarrow> trees_ok s r {x \<in> set L. \<not> is_region_used (regs_at s x)} {x \<in> set L. is_region_used (regs_at s x)}"
  by (simp add: regions_inv_def)

lemma tiles_nonempty: "tiles g a L b \<Longrightarrow> x \<in> set L \<Longrightarrow> m_start (g x) < m_end (g x)"
  by (induction L arbitrary: a) auto

section \<open>Properties\<close>

text \<open>(C34) On a well-formed arena \<^verbatim>\<open>find_used_region\<close> ends and returns the used region that
  starts at the page of the address, or \<^verbatim>\<open>NULL\<close> when no used region starts there.\<close>

theorem find_used_region_exact:
  assumes "regions_inv s r a b L"
  shows "\<exists>m. find_used_region s r start = Some m \<and>
    (m \<in> set L \<and> is_region_used (regs_at s m) \<and> m_start (regs_at s m) = page_nr start \<or>
     m = NULL \<and> (\<forall>x \<in> set L. is_region_used (regs_at s x) \<longrightarrow> m_start (regs_at s x) \<noteq> page_nr start))"
proof -
  obtain us where us: "sp_seq (links s) (used_regions r) us" "sorted (map (\<lambda>x. m_start (regs_at s x)) us)"
      "set us = {x \<in> set L. is_region_used (regs_at s x)}"
    using regions_inv_trees [OF assms] unfolding trees_ok_def by blast
  then obtain t where t: "tree_at (links s) NULL (used_regions r) t" "inorder t = us" unfolding sp_seq_def by blast
  have "set_tree t = {x \<in> set L. is_region_used (regs_at s x)}" using t(2) us(3) by (metis set_inorder)
  then show ?thesis
    using find_used_from_spec [OF t(1), of "regs_at s" "page_nr start"] us(2) t(2)
    by (auto simp: find_used_region_def)
qed

text \<open>(C2) Asked for a page inside of the arena, \<^verbatim>\<open>alloc_shared_fixed_region\<close> always ends. When the region
  that contains the page is in use or ends too early it returns 0 and changes nothing; otherwise it returns
  the address of the page, and exactly the asked pages of that region become used.\<close>

theorem alloc_fixed_region_exact:
  assumes "regions_inv s r a b L" "node_supply s L" "a \<le> page_nr start" "page_nr start < b"
    and "pages = page_nr (align_up sz BASE_PAGE_SIZE)" "0 < pages"
  shows "\<exists>m \<in> set L. m_start (regs_at s m) \<le> page_nr start \<and> page_nr start < m_end (regs_at s m) \<and>
    (if is_region_used (regs_at s m) \<or> m_end (regs_at s m) < page_nr start + pages
     then alloc_shared_fixed_region s r start sz flags pid = Some (0, align_up sz BASE_PAGE_SIZE, r, s)
     else \<exists>r' s'. alloc_shared_fixed_region s r start sz flags pid =
         Some (page_addr (page_nr start), align_up sz BASE_PAGE_SIZE, r', s') \<and>
       took s a b L m (page_nr start - m_start (regs_at s m)) pages s' r')"
proof -
  let ?ref = "page_nr start"
  have L: "rseg (regs_at s) NULL L NULL" "tiles (regs_at s) a L b" using assms(1) by (simp_all add: regions_inv_def)
  have ne: "L \<noteq> []" using L(2) assms(3,4) by auto
  have un: "{x \<in> set L. \<not> is_region_used (regs_at s x)} \<union> {x \<in> set L. is_region_used (regs_at s x)} = set L" by blast
  obtain c where c: "c \<in> set L" "find_closest_used_region s r start = Some c"
    using find_closest_used_region_member [OF regions_inv_trees [OF assms(1)], of start] ne unfolding un by auto
  have nn: "NULL \<notin> set L" using assms(1) by (rule regions_inv_NULL)
  obtain m where m: "m \<in> set L" "locate_region (regs_at s) ?ref c = Some m" "in_region (regs_at s) ?ref m"
    using locate_region_finds [OF L assms(3,4) nn c(1)] by blast
  have run: "alloc_shared_fixed_region s r start sz flags pid =
      (if is_region_used (regs_at s m) \<or> m_end (regs_at s m) < ?ref + pages then Some (0, align_up sz BASE_PAGE_SIZE, r, s)
       else map_option (\<lambda>(a, r, s). (a, align_up sz BASE_PAGE_SIZE, r, s))
              (partition_region s r m pages (?ref - m_start (regs_at s m)) flags pid))"
    using c m(2) nn by (auto simp: alloc_shared_fixed_region_def Let_def assms(5))
  have "\<exists>r' s'. partition_region s r m pages (?ref - m_start (regs_at s m)) flags pid = Some (page_addr ?ref, r', s') \<and>
      took s a b L m (?ref - m_start (regs_at s m)) pages s' r'"
    if "\<not> is_region_used (regs_at s m)" "\<not> m_end (regs_at s m) < ?ref + pages"
  proof -
    have "unat (?ref + pages) = unat ?ref + unat pages"
      using page_nr_small [of start] page_nr_small [of "align_up sz BASE_PAGE_SIZE"] unfolding assms(5)
      by (simp add: unat_word_ariths)
    then have "unat (?ref - m_start (regs_at s m)) + unat pages \<le> unat (region_pages (regs_at s) m)"
      using m(3) that(2) by (simp add: region_pages_def unat_sub word_le_nat_alt word_less_nat_alt)
    from partition_took [OF assms(1) m(1) that(1) this assms(6,2), of flags pid] show ?thesis by simp
  qed
  then show ?thesis using m run by (intro bexI [of _ m]) auto
qed

text \<open>(C10) Outside of the reserved pages, \<^verbatim>\<open>alloc_shared_region\<close> fails only when no free region is large enough, and then
  changes nothing; otherwise it returns the address of exactly as many pages as asked for, taken from one free region.\<close>

theorem alloc_region_fits:
  assumes "regions_inv s r a b L" "node_supply s L" "unat b < 2 ^ 63"
    and "\<forall>x \<in> set L. \<not> is_region_used (regs_at s x) \<longrightarrow> rr_start r + reserved r \<le> m_start (regs_at s x)"
    and "pages = page_nr (align_up sz BASE_PAGE_SIZE)" "0 < pages"
  shows "if \<forall>x \<in> set L. \<not> is_region_used (regs_at s x) \<longrightarrow> m_end (regs_at s x) - m_start (regs_at s x) < pages
    then alloc_shared_region s r sz flags pid = Some (0, align_up sz BASE_PAGE_SIZE, r, s)
    else \<exists>m al r' s'. \<not> is_region_used (regs_at s m) \<and> took s a b L m al pages s' r' \<and>
      alloc_shared_region s r sz flags pid = Some (page_addr (m_start (regs_at s m) + al), align_up sz BASE_PAGE_SIZE, r', s')"
proof -
  let ?F = "{x \<in> set L. \<not> is_region_used (regs_at s x)}"
  have til: "tiles (regs_at s) a L b" using assms(1) by (simp add: regions_inv_def)
  have F: "rr_start r + reserved r \<le> m_start (regs_at s x) \<and> m_start (regs_at s x) < m_end (regs_at s x) \<and>
      unat (m_start (regs_at s x)) < 2 ^ 63" if "x \<in> ?F" for x
  proof -
    have "m_end (regs_at s x) \<le> b" using til that by (auto dest!: split_list simp: tiles_append intro: tiles_le)
    moreover have "m_start (regs_at s x) < m_end (regs_at s x)" using tiles_nonempty [OF til] that by blast
    ultimately show ?thesis using that assms(3,4) by (simp add: word_le_nat_alt word_less_nat_alt)
  qed
  obtain m al where m: "find_free_region s r pages = Some (m, al)"
      "m = NULL \<and> (\<forall>x \<in> ?F. region_pages (regs_at s) x < pages) \<or> m \<in> ?F \<and> unat al + unat pages \<le> unat (region_pages (regs_at s) m)"
    using find_free_region_spec [OF regions_inv_trees [OF assms(1)] assms(6) F] by blast
  have run: "alloc_shared_region s r sz flags pid = (if m = NULL then Some (0, align_up sz BASE_PAGE_SIZE, r, s)
      else map_option (\<lambda>(a, r, s). (a, align_up sz BASE_PAGE_SIZE, r, s)) (partition_region s r m pages al flags pid))"
    using m(1) by (simp add: alloc_shared_region_def Let_def assms(5))
  show ?thesis
  proof (cases "m = NULL")
    case True
    then show ?thesis using m(2) run regions_inv_NULL [OF assms(1)] by (auto simp: region_pages_def)
  next
    case False
    then have f: "m \<in> set L" "\<not> is_region_used (regs_at s m)" "unat al + unat pages \<le> unat (region_pages (regs_at s) m)"
      using m(2) by auto
    then have "\<not> m_end (regs_at s m) - m_start (regs_at s m) < pages" by (auto simp: region_pages_def word_less_nat_alt)
    then show ?thesis using partition_took [OF assms(1) f(1-3) assms(6,2), of flags pid] run False f(1,2) by auto
  qed
qed

section \<open>An example\<close>

text \<open>An arena of the pages 16 to 116 in one free region, whose structure is the first slot of the node page at \<open>0x1000\<close>.\<close>

definition arena_example :: region_state where
  "arena_example = \<lparr>kvm = vm_example, knodes = region_at node_example, kroot = node_layout 88 0x1000,
     regs_at = (\<lambda>_. zero_mregion\<lparr>m_start := 16, m_end := 116\<rparr>), links = (\<lambda>_. blank_node), kmem = (\<lambda>_. 0)\<rparr>"

definition arena_root :: mem_region_root where
  "arena_root = \<lparr>reserved = 0, rr_start = 16, rr_end = 116, free_regions = 0x1058, used_regions = NULL\<rparr>"

lemma arena_example_used: "\<not> is_region_used (regs_at arena_example x)"
  by (simp add: arena_example_def zero_mregion_def is_region_used_def is_set_def MR_USED_def)

lemma arena_example_inv: "regions_inv arena_example arena_root 16 116 [0x1058]"
proof -
  have "trees_ok arena_example arena_root {0x1058} {}"
    unfolding trees_ok_def sp_seq_def
    by (auto simp: arena_example_def arena_root_def blank_node_def intro!: exI [of _ "Node Leaf 0x1058 Leaf"] exI [of _ "[0x1058]"])
  then show ?thesis
    by (simp add: regions_inv_def arena_example_used) (simp add: arena_example_def zero_mregion_def)
qed

text \<open>A node page with two free slots is such a supply.\<close>

lemma node_supply_page:
  assumes "av_head (kroot s) = nr" "nr \<noteq> NULL" "find_free_slot (slots (knodes s nr)) 0 (unat (max_nodes (kroot s))) = Some i"
    and "find_free_slot (bitmap_set (slots (knodes s nr)) i) 0 (unat (max_nodes (kroot s))) = Some j"
    and "used_nodes (knodes s nr) + 1 \<noteq> max_nodes (kroot s)"
    and "slot_addr (kroot s) nr i \<notin> insert NULL (set L)" "slot_addr (kroot s) nr j \<notin> insert NULL (set L)"
    and "slot_addr (kroot s) nr i \<noteq> slot_addr (kroot s) nr j"
  shows "node_supply s L"
proof -
  let ?n = "node_part s" and ?r = "kroot s"
  have "find_free_slot (slots (region_at ?n nr)) 0 (unat (max_nodes ?r)) = Some i" using assms(3) by (simp add: node_part_def)
  from get_node_available [OF assms(1,2) this] obtain n1 where n1: "get_node ?n ?r = Some (slot_addr ?r nr i, ?r, n1)"
      "slots (region_at n1 nr) = bitmap_set (slots (knodes s nr)) i"
    using assms(5) by (auto simp: node_part_def)
  have "find_free_slot (slots (region_at n1 nr)) 0 (unat (max_nodes ?r)) = Some j" using assms(4) n1(2) by simp
  from get_node_available [OF assms(1,2) this] obtain r2 n2 where "get_node n1 ?r = Some (slot_addr ?r nr j, r2, n2)" by blast
  with n1 assms(6-8) show ?thesis unfolding node_supply_def by blast
qed

lemma arena_example_supply: "node_supply arena_example [0x1058]"
proof (rule node_supply_page [of _ "0x1000" 1 2])
  have max: "unat (max_nodes (kroot arena_example)) = 45" "max_nodes (kroot arena_example) = 45"
    by (simp_all add: arena_example_def node_layout_def BASE_PAGE_SIZE_def sizeof_node_region_def align_up_def align_down_def is_powerof2_def Let_def)
  have k: "knodes arena_example = region_at node_example" by (simp add: arena_example_def)
  show "find_free_slot (slots (knodes arena_example 0x1000)) 0 (unat (max_nodes (kroot arena_example))) = Some 1"
    unfolding max(1) k by (simp add: numeral_eq_Suc node_example_slots)
  show "find_free_slot (bitmap_set (slots (knodes arena_example 0x1000)) 1) 0 (unat (max_nodes (kroot arena_example))) = Some 2"
    unfolding max(1) k by (simp add: numeral_eq_Suc node_example_slots bitmap_is_set_set)
  show "used_nodes (knodes arena_example 0x1000) + 1 \<noteq> max_nodes (kroot arena_example)"
    unfolding max(2) k by (simp add: node_example_def)
qed (simp_all add: arena_example_def slot_addr_def node_layout_def BASE_PAGE_SIZE_def sizeof_node_region_def
    align_up_def align_down_def is_powerof2_def Let_def)

theorem find_used_region_exact_witness: "find_used_region arena_example arena_root 0x10000 = Some NULL"
  using find_used_region_exact [OF arena_example_inv, of "0x10000"] arena_example_used by blast

theorem alloc_fixed_region_exact_witness:
  "\<exists>r' s'. alloc_shared_fixed_region arena_example arena_root 0x20000 0x1800 0 1 = Some (0x20000, 0x2000, r', s') \<and>
     took arena_example 16 116 [0x1058] 0x1058 16 2 s' r'"
proof -
  have "page_nr (align_up (0x1800 :: u64) BASE_PAGE_SIZE) = 2" "align_up (0x1800 :: u64) BASE_PAGE_SIZE = 0x2000" "page_nr 0x20000 = 32"
    "page_addr 32 = 0x20000"
    by (simp_all add: page_nr_def page_addr_def BASE_PAGE_SIZE_def align_up_def align_down_def is_powerof2_def Let_def)
  moreover have "m_start (regs_at arena_example x) = 16" "m_end (regs_at arena_example x) = 116" for x by (simp_all add: arena_example_def)
  ultimately show ?thesis
    using alloc_fixed_region_exact [OF arena_example_inv arena_example_supply, of "0x20000" 2 "0x1800" 0 1] arena_example_used by simp
qed

theorem alloc_region_fits_witness:
  "\<exists>m al r' s'. took arena_example 16 116 [0x1058] m al 2 s' r' \<and>
     alloc_shared_region arena_example arena_root 0x1800 0 1 = Some (page_addr (16 + al), 0x2000, r', s')"
proof -
  have "page_nr (align_up (0x1800 :: u64) BASE_PAGE_SIZE) = 2" "align_up (0x1800 :: u64) BASE_PAGE_SIZE = 0x2000"
    by (simp_all add: page_nr_def BASE_PAGE_SIZE_def align_up_def align_down_def is_powerof2_def Let_def)
  moreover have "m_start (regs_at arena_example x) = 16" "m_end (regs_at arena_example x) = 116" for x by (simp_all add: arena_example_def)
  moreover have "rr_start arena_root + reserved arena_root = 16" by (simp add: arena_root_def)
  ultimately show ?thesis
    using alloc_region_fits [OF arena_example_inv arena_example_supply, of 2 "0x1800" 0 1] arena_example_used by auto
qed

end
