(* ===== verification/Rpc.thy ===== *)
theory Rpc
  imports Ipc Region_Alloc
begin

text \<open>
  What the migration of threads between processes promises: the RPC stack stays mapped where the thread's control
  block says, a call and its response restore the caller, and a call that cannot be made changes nothing but the returned code.
\<close>

section \<open>The mapping of the RPC stack\<close>

text \<open>
  The address space \<open>root\<close> maps the RPC stack by the one leaf table \<open>leaf\<close>, whose entries are valid and readable.
\<close>

definition leaf_entry :: "u64 \<Rightarrow> bool" where
  "leaf_entry e \<longleftrightarrow> bit e 0 \<and> bit e 1"

definition stack_mapped :: "vm_state \<Rightarrow> ptr \<Rightarrow> ptr \<Rightarrow> bool" where
  "stack_mapped v root leaf \<longleftrightarrow> sv39 (vgeom v) \<and>
     (let mid = pte_addr (vgeom v) (tables v root CSTACK_PAGE)
      in is_branch (tables v root CSTACK_PAGE) \<and> is_branch (tables v mid 0) \<and> pte_addr (vgeom v) (tables v mid 0) = leaf \<and>
         root \<noteq> leaf \<and> mid \<noteq> leaf \<and> root \<noteq> mid) \<and>
     (\<forall>i < RISCV_NUM_LEAVES. leaf_entry (tables v leaf i))"

lemma is_leaf_entry: "leaf_entry e \<Longrightarrow> is_leaf e \<and> \<not> unused e"
proof
  assume e: "leaf_entry e"
  have V: "VM_V = push_bit 0 1" by (simp add: VM_V_def)
  have "bit (pte_flags e AND VM_V) 0" using e by (simp add: leaf_entry_def pte_flags_def VM_V_def bit_simps flags_mask)
  moreover have "bit (pte_flags e AND NOT VM_V) 1" using e by (simp add: leaf_entry_def pte_flags_def VM_V_def bit_simps flags_mask)
  ultimately show "is_leaf e" unfolding is_leaf_def is_active_def by (metis bit_0_eq bot_apply bot_bool_def)
  show "\<not> unused e" using e by (auto simp: leaf_entry_def unused_def GRAVESTONE_def VM_G_def)
qed

lemma is_branch_used: "is_branch e \<Longrightarrow> \<not> unused e \<and> \<not> is_leaf e"
  by (auto simp: is_branch_def is_leaf_def unused_def is_active_def pte_flags_def GRAVESTONE_def VM_G_def VM_V_def)

lemma stack_address:
  assumes "i < 512" "off < 4096"
  shows "unat (RPC_STACK_BASE + of_nat i * 4096 + of_nat off) = 248 * 2 ^ 30 + i * 4096 + off"
  using assms by (simp add: RPC_STACK_BASE_def UVMEM_END_def unat_word_ariths unat_of_nat)

lemma stack_indices:
  assumes "sv39 m" "i < 512" "off < 4096"
  defines "a \<equiv> RPC_STACK_BASE + of_nat i * 4096 + of_nat off"
  shows "vm_to_index m a 2 = CSTACK_PAGE" "vm_to_index m a 1 = 0" "vm_to_index m a 0 = i"
proof -
  have a: "unat a = 248 * 2 ^ 30 + (i * 4096 + off)" and n: "i * 4096 + off < 512 * 4096"
    using stack_address [OF assms(2,3)] assms(2,3) by (simp_all add: a_def)
  let ?n = "i * 4096 + off"
  have "(248 * 2 ^ 30 + ?n) div 2 ^ 30 = 248" "(248 * 2 ^ 30 + ?n) div 2 ^ 21 = 248 * 512"
    using n by (intro div_nat_eqI; simp)+
  then show "vm_to_index m a 2 = CSTACK_PAGE" "vm_to_index m a 1 = 0"
    using unat_pm_to_index [OF assms(1), of 2 a] unat_pm_to_index [OF assms(1), of 1 a]
    by (simp_all add: vm_to_index_def a CSTACK_PAGE_def)
  have "(248 * 2 ^ 30 + ?n) div 2 ^ 12 = 248 * 2 ^ 18 + i" using assms(3) by (intro div_nat_eqI; simp)
  then show "vm_to_index m a 0 = i"
    using unat_pm_to_index [OF assms(1), of 0 a] assms(2) mod_mult_self3 [of 126976 512 i] by (simp add: vm_to_index_def a)
qed

lemma mmu_stack:
  assumes "stack_mapped v root leaf" "satp_root v = root" "i < 512" "off < 4096"
  shows "mmu v (RPC_STACK_BASE + of_nat i * 4096 + of_nat off) = Some (pte_addr (vgeom v) (tables v leaf i) + of_nat off)"
proof -
  let ?a = "RPC_STACK_BASE + of_nat i * 4096 + of_nat off :: u64"
  have m: "sv39 (vgeom v)" using assms(1) by (simp add: stack_mapped_def)
  note idx = stack_indices [OF m assms(3,4)]
  have leaf: "leaf_entry (tables v leaf i)" using assms(1,3) by (simp add: stack_mapped_def RISCV_NUM_LEAVES_def)
  define a where "a = ?a"
  define mid where "mid = pte_addr (vgeom v) (tables v root CSTACK_PAGE)"
  have br: "is_branch (tables v root CSTACK_PAGE)" "is_branch (tables v mid 0)" "pte_addr (vgeom v) (tables v mid 0) = leaf"
    using assms(1) by (simp_all add: stack_mapped_def mid_def Let_def)
  have "find_vmem_from (vgeom v) (tables v) root a 2 = find_vmem_from (vgeom v) (tables v) mid a 1"
    using is_branch_used [OF br(1)] idx(1) by (subst find_vmem_from.simps) (simp add: Let_def mid_def a_def numeral_2_eq_2)
  also have "\<dots> = find_vmem_from (vgeom v) (tables v) leaf a 0"
    using is_branch_used [OF br(2)] idx(2) br(3) by (subst find_vmem_from.simps) (simp add: Let_def a_def)
  also have "\<dots> = Some ((leaf, i), 0)"
    using is_leaf_entry [OF leaf] idx(3) by (subst find_vmem_from.simps) (simp add: Let_def a_def)
  finally have "find_vmem v root ?a = Some ((leaf, i), 0)" using m by (simp add: find_vmem_def a_def)
  moreover have "?a mod order_size (vgeom v) 0 = of_nat off"
  proof -
    have "(248 * 2 ^ 30 + i * 4096 + off) mod 4096 = off"
      using assms(4) mod_mult_self3 [of "248 * 2 ^ 18 + i" 4096 off] by (simp add: algebra_simps)
    then have "unat (?a mod 0x1000) = unat (of_nat off :: u64)"
      unfolding unat_mod stack_address [OF assms(3,4)] using assms(4) by (simp add: unat_of_nat)
    then have "?a mod 0x1000 = of_nat off" by (rule word_unat_eq_iff [THEN iffD2])
    then show ?thesis using m by (simp add: sv39_def)
  qed
  ultimately show ?thesis using assms(2) by (simp add: mmu_def get_pte_def)
qed

text \<open>Changing user access changes neither the page nor the validity of an entry.\<close>

definition user_page :: "u64 \<Rightarrow> bool" where "user_page e \<longleftrightarrow> bit e 4"

lemma bit_VM_U: "bit VM_U n \<longleftrightarrow> n = 4" "bit (vp_flags VM_U) n \<longleftrightarrow> n = 4"
proof -
  have "VM_U = 2 ^ 4" "vp_flags VM_U = 2 ^ 4" by (simp_all add: vp_flags_def VM_U_def)
  moreover have "bit (2 ^ 4 :: u64) n \<longleftrightarrow> n = 4" unfolding bit_exp_iff by auto
  ultimately show "bit VM_U n \<longleftrightarrow> n = 4" "bit (vp_flags VM_U) n \<longleftrightarrow> n = 4" by simp_all
qed

lemma user_page_flags: "pte_flags e AND VM_U = 0 \<longleftrightarrow> \<not> user_page e"
proof -
  have "bit (pte_flags e AND VM_U) n \<longleftrightarrow> n = 4 \<and> bit e 4" for n
    by (auto simp: bit_and_iff pte_flags_def flags_mask bit_VM_U bit_take_bit_iff)
  then show ?thesis unfolding user_page_def by (metis bit_0_eq bit_word_eqI bot_apply bot_bool_def)
qed

lemma revoke_entry:
  "bit (clear_bits e (vp_flags VM_U)) n \<longleftrightarrow> bit e n \<and> n \<noteq> 4"
  "bit (set_bits_mask e (vp_flags VM_U)) n \<longleftrightarrow> bit e n \<or> n = 4"
  by (auto simp: clear_bits_def set_bits_mask_def bit_and_iff bit_or_iff bit_not_iff bit_VM_U dest: bit_imp_le_length)

lemma pte_addr_cong:
  assumes "\<And>n. 10 \<le> n \<Longrightarrow> bit e' n = bit e n"
  shows "pte_addr m e' = pte_addr m e"
proof -
  have "pte_ppn e' = pte_ppn e" unfolding pte_ppn_def by (rule bit_word_eqI) (simp add: bit_simps assms)
  then show ?thesis by (simp add: pte_addr_def pte_paddr_def)
qed

lemma user_access [simp]:
  "leaf_entry (clear_bits e (vp_flags VM_U)) = leaf_entry e" "leaf_entry (set_bits_mask e (vp_flags VM_U)) = leaf_entry e"
  "pte_addr m (clear_bits e (vp_flags VM_U)) = pte_addr m e" "pte_addr m (set_bits_mask e (vp_flags VM_U)) = pte_addr m e"
  "\<not> user_page (clear_bits e (vp_flags VM_U))" "user_page (set_bits_mask e (vp_flags VM_U))"
  by (auto simp: leaf_entry_def user_page_def revoke_entry intro: pte_addr_cong)

text \<open>\<open>same_pages l l'\<close>: the tables differ in user access only.\<close>

definition same_pages :: "(nat \<Rightarrow> u64) \<Rightarrow> (nat \<Rightarrow> u64) \<Rightarrow> bool" where
  "same_pages l l' \<longleftrightarrow> (\<forall>i. leaf_entry (l' i) = leaf_entry (l i) \<and> (\<forall>m. pte_addr m (l' i) = pte_addr m (l i)))"

lemma same_pages_refl [simp]: "same_pages l l" by (simp add: same_pages_def)

lemma same_pages_trans: "same_pages l l' \<Longrightarrow> same_pages l' l'' \<Longrightarrow> same_pages l l''"
  by (simp add: same_pages_def)

lemma same_pages_upd: "same_pages l l' \<Longrightarrow> leaf_entry e = leaf_entry (l i) \<Longrightarrow> (\<And>m. pte_addr m e = pte_addr m (l i)) \<Longrightarrow> same_pages l (l'(i := e))"
  by (simp add: same_pages_def)

lemma grant_spec:
  assumes "0 \<le> i" "n \<le> 512"
  shows "\<exists>l'. grant l i n = Some l' \<and> same_pages l l' \<and> (\<forall>j. user_page (l' j) \<longleftrightarrow> user_page (l j) \<or> i \<le> int j \<and> int j < n)"
  using assms
proof (induction l i n rule: grant.induct)
  case (1 l i n)
  show ?case
  proof (cases "i < n")
    case True
    define l1 where "l1 = l(nat i := set_bits_mask (l (nat i)) (vp_flags VM_U))"
    have i: "\<not> (i < 0 \<or> i \<ge> int RISCV_NUM_LEAVES)" using True "1.prems" by (simp add: RISCV_NUM_LEAVES_def)
    obtain l' where l': "grant l1 (i + 1) n = Some l'" "same_pages l1 l'"
        "\<forall>j. user_page (l' j) \<longleftrightarrow> user_page (l1 j) \<or> i + 1 \<le> int j \<and> int j < n"
      using "1.IH" [OF True i, folded l1_def] "1.prems" by auto
    have "same_pages l l1" by (simp add: same_pages_def l1_def)
    then have "same_pages l l'" using l'(2) same_pages_trans by blast
    moreover have "user_page (l' j) \<longleftrightarrow> user_page (l j) \<or> i \<le> int j \<and> int j < n" for j
      using l'(3) True "1.prems"(1) by (cases "j = nat i") (auto simp: l1_def)
    moreover have "grant l i n = Some l'" using True i l'(1) by (subst grant.simps) (simp add: l1_def)
    ultimately show ?thesis by blast
  next
    case False
    then show ?thesis by (subst grant.simps) auto
  qed
qed

text \<open>The call: below the current position no page is accessible to the user.\<close>

lemma revoke_down_at:
  assumes "1 \<le> i" "i \<le> 511" "\<not> user_page (l (nat i - 1))"
  shows "\<exists>l' j. revoke_down l i 511 = Some (l', j) \<and> same_pages l l' \<and>
    (\<forall>n. user_page (l' n) \<longleftrightarrow> user_page (l n) \<and> (i = 511 \<or> int n \<noteq> i))"
proof (cases "i = 511 \<or> \<not> user_page (l (nat i))")
  case True
  then show ?thesis using assms by (subst revoke_down.simps) (auto simp: user_page_flags RISCV_NUM_LEAVES_def)
next
  case False
  let ?l = "l(nat i := clear_bits (l (nat i)) (vp_flags VM_U))"
  have "revoke_down l i 511 = revoke_down ?l (i - 1) 511"
    using False assms by (subst revoke_down.simps) (auto simp: user_page_flags RISCV_NUM_LEAVES_def)
  moreover have "revoke_down ?l (i - 1) 511 = Some (?l, i - 1)"
    using assms by (subst revoke_down.simps) (auto simp: user_page_flags RISCV_NUM_LEAVES_def nat_diff_distrib)
  moreover have "same_pages l ?l" by (simp add: same_pages_def)
  moreover have "user_page (?l n) \<longleftrightarrow> user_page (l n) \<and> (i = 511 \<or> int n \<noteq> i)" for n using False assms(1) by auto
  ultimately show ?thesis by (intro exI [of _ ?l] exI [of _ "i - 1"]) simp
qed

text \<open>The response: the page of the callee is accessible, the page of the context above it is not.\<close>

lemma revoke_up_at:
  assumes "0 \<le> i" "i + 1 \<le> 511" "user_page (l (nat i))" "\<not> user_page (l (nat i + 1))"
  shows "\<exists>l'. revoke_up l i 511 = Some (l', i + 1) \<and> same_pages l l' \<and> (\<forall>n. user_page (l' n) \<longleftrightarrow> user_page (l n) \<and> int n \<noteq> i)"
proof -
  let ?l = "l(nat i := clear_bits (l (nat i)) (vp_flags VM_U))"
  have "revoke_up l i 511 = revoke_up ?l (i + 1) 511"
    using assms by (subst revoke_up.simps) (auto simp: user_page_flags RISCV_NUM_LEAVES_def)
  moreover have "revoke_up ?l (i + 1) 511 = Some (?l, i + 1)"
    using assms by (subst revoke_up.simps) (auto simp: user_page_flags RISCV_NUM_LEAVES_def nat_add_distrib)
  moreover have "same_pages l ?l" by (simp add: same_pages_def)
  moreover have "user_page (?l n) \<longleftrightarrow> user_page (l n) \<and> int n \<noteq> i" for n using assms(1) by auto
  ultimately show ?thesis by (intro exI [of _ ?l]) simp
qed

lemma stack_mapped_same:
  assumes "stack_mapped v root leaf" "same_pages (tables v leaf) l"
  shows "stack_mapped (v\<lparr>tables := (tables v)(leaf := l)\<rparr>) root leaf"
  using assms by (auto simp: stack_mapped_def same_pages_def Let_def)

lemma clone_clear_above: "CSTACK_PAGE \<le> j \<Longrightarrow> clone_clear b i j = b j"
  by (induction b i rule: clone_clear.induct) (subst clone_clear.simps, auto)

lemma clone_uvmem_frame:
  assumes "x \<noteq> b \<or> CSTACK_PAGE \<le> i"
  shows "tables (clone_uvmem v r b) x i = tables v x i"
proof -
  obtain t k where c: "clone_copy (tables v r) (tables v b) 0 = (t, k)" by fastforce
  have "CSTACK_PAGE \<le> i \<Longrightarrow> t i = tables v b i" using clone_copy_spec [OF c] by auto
  then show ?thesis using assms clone_clear_above by (auto simp: clone_uvmem_def c)
qed

lemma clone_uvmem_fields [simp]:
  "phys (clone_uvmem v r b) = phys v" "satp (clone_uvmem v r b) = satp v" "rpc_pages (clone_uvmem v r b) = rpc_pages v"
  by (simp_all add: clone_uvmem_def split: prod.split)

lemma stack_mapped_clone:
  assumes "stack_mapped v root leaf"
  shows "stack_mapped (clone_uvmem v r root) root leaf" "tables (clone_uvmem v r root) leaf = tables v leaf"
proof -
  let ?v = "clone_uvmem v r root"
  have top: "tables ?v root CSTACK_PAGE = tables v root CSTACK_PAGE" by (rule clone_uvmem_frame) simp
  have other: "tables ?v x = tables v x" if "x \<noteq> root" for x using clone_uvmem_frame that by (intro ext) blast
  show "tables ?v leaf = tables v leaf" using assms by (intro other) (auto simp: stack_mapped_def Let_def)
  then show "stack_mapped ?v root leaf"
    using assms other [of "pte_addr (vgeom v) (tables v root CSTACK_PAGE)"]
    by (auto simp: stack_mapped_def Let_def top)
qed

section \<open>The invariant of a thread\<close>

definition rpc_mapped :: "kernel_state \<Rightarrow> ptr \<Rightarrow> bool" where
  "rpc_mapped k t \<longleftrightarrow> (let x = tcb_at k t; a = t_arch x in
     stack_mapped (vm k) (t_rpc x) (rpc_leaf a) \<and> rpc_pages (vm k) = 512 \<and>
     (\<forall>i < RISCV_NUM_LEAVES. pte_addr (kgeom k) (rpc_table k t i) = rpc_page a + of_nat i * 4096))"

text \<open>
  The RPC stack of a thread is in order: the last context is at a page boundary \<open>c\<close> above the lowest used page, the registers
  are saved below it, and no page below the lowest used one is accessible to the user.
\<close>

definition rpc_ok :: "kernel_state \<Rightarrow> ptr \<Rightarrow> bool" where
  "rpc_ok k t \<longleftrightarrow> (let x = tcb_at k t; i = rpc_idx (t_arch x) in
     rpc_mapped k t \<and> 0 \<le> i \<and> i \<le> 511 \<and> (\<forall>j. int j < i \<longrightarrow> \<not> user_page (rpc_table k t j)) \<and>
     (\<exists>c. i < int c \<and> c \<le> 512 \<and> t_rpc_stack x = RPC_STACK_BASE + of_nat c * 4096) \<and>
     t_regs x = t_rpc_stack x - sizeof_call_ctx)"

lemma stack_below:
  assumes "1 \<le> n" "d \<le> 4096"
  shows "RPC_STACK_BASE + of_nat n * 4096 - of_nat d = RPC_STACK_BASE + of_nat (n - 1) * 4096 + (of_nat (4096 - d) :: u64)"
proof -
  obtain j where "n = Suc j" using assms(1) by (cases n) auto
  then show ?thesis using assms(2) by (simp add: of_nat_diff algebra_simps)
qed

lemma mmu_thread:
  assumes "rpc_mapped k t" "satp_root (vm k) = t_rpc (tcb_at k t)" "1 \<le> n" "n \<le> 512" "1 \<le> d" "d \<le> 4096"
  shows "mmu (vm k) (RPC_STACK_BASE + of_nat n * 4096 - of_nat d) = Some (rpc_page (t_arch (tcb_at k t)) + (of_nat n * 4096 - of_nat d))"
proof -
  have n: "n - 1 < 512" "4096 - d < 4096" using assms(3-6) by auto
  have m: "stack_mapped (vm k) (t_rpc (tcb_at k t)) (rpc_leaf (t_arch (tcb_at k t)))"
      "pte_addr (kgeom k) (rpc_table k t (n - 1)) = rpc_page (t_arch (tcb_at k t)) + of_nat (n - 1) * 4096"
    using assms(1) n(1) by (simp_all add: rpc_mapped_def Let_def RISCV_NUM_LEAVES_def)
  obtain j where "n = Suc j" using assms(3) by (cases n) auto
  then have "of_nat (n - 1) * 4096 + of_nat (4096 - d) = (of_nat n * 4096 - of_nat d :: u64)"
    using assms(6) by (simp add: of_nat_diff algebra_simps)
  then show ?thesis
    using mmu_stack [OF m(1) assms(2) n] m(2) stack_below [OF assms(3,6)] by (simp add: rpc_table_def add.assoc add_diff_eq [symmetric])
qed

section \<open>Entering\<close>

lemma new_rpc_ok:
  assumes "rpc_mapped k t" "i = rpc_idx (t_arch (tcb_at k t))" "2 \<le> i" "i \<le> 511"
    and "\<And>j. int j < i \<Longrightarrow> \<not> user_page (rpc_table k t j)"
  shows "\<exists>l. new_rpc k t = Some (set_rpc_table k t l (i - 2)) \<and> same_pages (rpc_table k t) l \<and>
    (\<forall>j. int j < i \<longrightarrow> (user_page (l j) \<longleftrightarrow> int j = i - 2))"
proof -
  have "\<not> user_page (rpc_table k t (nat i - 1))" using assms(3,5) by simp
  then obtain l1 j where l1: "revoke_down (rpc_table k t) i 511 = Some (l1, j)" "same_pages (rpc_table k t) l1"
      "\<forall>n. user_page (l1 n) \<longleftrightarrow> user_page (rpc_table k t n) \<and> (i = 511 \<or> int n \<noteq> i)"
    using revoke_down_at [of i "rpc_table k t"] assms(3,4) by auto
  obtain l2 where l2: "grant l1 (i - 2) (i - 1) = Some l2" "same_pages l1 l2"
      "\<forall>n. user_page (l2 n) \<longleftrightarrow> user_page (l1 n) \<or> i - 2 \<le> int n \<and> int n < i - 1"
    using grant_spec [of "i - 2" "i - 1" l1] assms(3,4) by auto
  have "uint (rpc_pages (vm k)) - 1 = 511" using assms(1) by (simp add: rpc_mapped_def Let_def)
  then have "new_rpc k t = Some (set_rpc_table k t l2 (i - 2))"
    using l1(1) l2(1) by (simp add: new_rpc_def assms(2) [symmetric] algebra_simps)
  moreover have "user_page (l2 j) \<longleftrightarrow> int j = i - 2" if "int j < i" for j
    using l2(3) l1(3) assms(5) [OF that] by auto
  ultimately show ?thesis using l1(2) l2(2) same_pages_trans by blast
qed

lemma rpc_position_page:
  assumes "0 \<le> rpc_idx (t_arch (tcb_at k t))"
  shows "rpc_position k t = RPC_STACK_BASE + of_nat (nat (rpc_idx (t_arch (tcb_at k t)))) * 4096"
proof -
  obtain j where "rpc_idx (t_arch (tcb_at k t)) = int j" using assms by (metis nonneg_int_cases)
  then show ?thesis by (simp add: rpc_position_def BASE_PAGE_SIZE_def mult.commute)
qed

lemma enter_rpc_ok:
  assumes ok: "rpc_ok k t" and space: "satp_root (vm k) = t_rpc (tcb_at k t)" and r: "r \<noteq> t" "r \<noteq> NULL"
    and flags: "\<not> is_set flags IPC_TAIL" and i: "i = rpc_idx (t_arch (tcb_at k t))" "2 \<le> i" and x: "x = tcb_at k t"
  shows "\<exists>l f. enter_rpc k t r a flags = Some (k\<lparr>
      kmi := (kmi k)\<lparr>kvm := clone_uvmem ((vm k)\<lparr>tables := (tables (vm k))(rpc_leaf (t_arch x) := l)\<rparr>) (t_proc (tcb_at k r)) (t_rpc x)\<rparr>,
      tcb_at := (tcb_at k)(t := x\<lparr>t_regs := RPC_STACK_BASE + of_nat (nat i) * 4096 - sizeof_call_ctx,
          t_rpc_stack := RPC_STACK_BASE + of_nat (nat i) * 4096, t_arch := (t_arch x)\<lparr>rpc_idx := i - 2\<rparr>,
          t_eid := if is_set flags IPC_FORWARD then t_eid x else t_pid x, t_exec := t_callback (tcb_at k r), t_pid := t_rid (tcb_at k r)\<rparr>,
        r := (tcb_at k r)\<lparr>t_refcount := t_refcount (tcb_at k r) + 1\<rparr>),
      ctx_at := (ctx_at k)(rpc_page (t_arch x) + (of_nat (nat i) * 4096 - 32) :=
        \<lparr>c_exec = t_exec x, c_rpc_stack = t_rpc_stack x, c_eid = t_eid x, c_pid = t_pid x, c_notify = (flags AND IPC_NOTIFY \<noteq> 0)\<rparr>),
      frame_at := (frame_at k)(rpc_page (t_arch x) + (of_nat (nat i) * 4096 - 280) := f)\<rparr>) \<and>
    same_pages (rpc_table k t) l \<and> (\<forall>j. int j < i \<longrightarrow> (user_page (l j) \<longleftrightarrow> int j = i - 2)) \<and>
    r_a0 f = s_s a \<and> r_a1 f = s_id a \<and> r_a2 f = s_a0 a \<and> r_a3 f = s_a1 a \<and> r_a4 f = s_a2 a \<and> r_a5 f = s_a3 a \<and>
    r_sp f = RPC_STACK_BASE + of_nat (nat i) * 4096 - BASE_PAGE_SIZE"
proof -
  let ?P = "RPC_STACK_BASE + of_nat (nat i) * 4096 :: u64" and ?pg = "rpc_page (t_arch x)"
  have m: "rpc_mapped k t" "i \<le> 511" "\<And>j. int j < i \<Longrightarrow> \<not> user_page (rpc_table k t j)"
    using ok by (simp_all add: rpc_ok_def Let_def i(1))
  have P: "rpc_position k t = ?P" using rpc_position_page [of k t] i by simp
  have n: "1 \<le> nat i" "nat i \<le> 512" using i(2) m(2) by auto
  have mm: "mmu (vm k) (?P - 32) = Some (?pg + (of_nat (nat i) * 4096 - 32))"
      "mmu (vm k) (?P - 280) = Some (?pg + (of_nat (nat i) * 4096 - 280))"
    using mmu_thread [OF m(1) space n, of 32] mmu_thread [OF m(1) space n, of 280] by (simp_all add: x)
  define k1 where "k1 = k\<lparr>tcb_at := (tcb_at k)(t := x\<lparr>t_regs := ?P - 32, t_rpc_stack := ?P\<rparr>),
      ctx_at := (ctx_at k)(?pg + (of_nat (nat i) * 4096 - 32) :=
        \<lparr>c_exec = t_exec x, c_rpc_stack = t_rpc_stack x, c_eid = t_eid x, c_pid = t_pid x, c_notify = (flags AND IPC_NOTIFY \<noteq> 0)\<rparr>),
      frame_at := (frame_at k)(?pg + (of_nat (nat i) * 4096 - 280) := (frame_at k (?pg + (of_nat (nat i) * 4096 - 280)))
        \<lparr>r_a0 := s_s a, r_a1 := s_id a, r_a2 := s_a0 a, r_a3 := s_a1 a, r_a4 := s_a2 a, r_a5 := s_a3 a\<rparr>)\<rparr>"
  have k1: "vm k1 = vm k" "rpc_table k1 t = rpc_table k t" "t_arch (tcb_at k1 t) = t_arch x" "t_rpc (tcb_at k1 t) = t_rpc x"
    by (simp_all add: k1_def rpc_table_def x)
  have "rpc_mapped k1 t" using m(1) by (simp add: rpc_mapped_def k1 x Let_def)
  then obtain l where l: "new_rpc k1 t = Some (set_rpc_table k1 t l (i - 2))" "same_pages (rpc_table k t) l"
      "\<forall>j. int j < i \<longrightarrow> (user_page (l j) \<longleftrightarrow> int j = i - 2)"
    using new_rpc_ok [of k1 t i] i m(2,3) by (auto simp: k1 x)
  define k2 where "k2 = set_rpc_table k1 t l (i - 2)"
  have sm: "stack_mapped (vm k) (t_rpc x) (rpc_leaf (t_arch x))" using m(1) by (simp add: rpc_mapped_def Let_def x)
  have k2: "vm k2 = (vm k)\<lparr>tables := (tables (vm k))(rpc_leaf (t_arch x) := l)\<rparr>"
    "tcb_at k2 t = x\<lparr>t_regs := ?P - 32, t_rpc_stack := ?P, t_arch := (t_arch x)\<lparr>rpc_idx := i - 2\<rparr>\<rparr>"
    by (simp_all add: k2_def set_rpc_table_def upd_arch_def upd_tcb_def with_vm_def k1_def)
  have "rpc_mapped k2 t"
    using m(1) stack_mapped_same [OF sm, of l] l(2)
    by (simp add: rpc_mapped_def k2 Let_def rpc_table_def x same_pages_def)
  then have m2: "mmu (vm k2) (?P - 280) = Some (?pg + (of_nat (nat i) * 4096 - 280))"
    using mmu_thread [of k2 t "nat i" 280] n space by (simp add: k2 satp_root_def x)
  define ka where "ka = upd_frame (upd_tcb k t (\<lambda>x. x\<lparr>t_regs := ?P - sizeof_call_ctx\<rparr>)) (?pg + (of_nat (nat i) * 4096 - 280))
      (\<lambda>r. r\<lparr>r_a0 := s_s a, r_a1 := s_id a, r_a2 := s_a0 a, r_a3 := s_a1 a, r_a4 := s_a2 a, r_a5 := s_a3 a\<rparr>)"
  have ka: "set_ret_fast (upd_tcb k t (\<lambda>x. x\<lparr>t_regs := ?P - sizeof_call_ctx\<rparr>)) t a = Some ka"
      "ctx_of ka ?P = Some (?pg + (of_nat (nat i) * 4096 - 32))"
      "tcb_at ka t = x\<lparr>t_regs := ?P - sizeof_call_ctx\<rparr>" "ctx_at ka = ctx_at k"
    using mm by (simp_all add: set_ret_fast_def ka_def upd_tcb_def upd_frame_def ctx_of_def sizeof_call_ctx_def sizeof_riscv_regs_def x)
  have kb: "upd_tcb (ka\<lparr>ctx_at := (ctx_at k)(?pg + (of_nat (nat i) * 4096 - 32) :=
        \<lparr>c_exec = t_exec x, c_rpc_stack = t_rpc_stack x, c_eid = t_eid x, c_pid = t_pid x, c_notify = (flags AND IPC_NOTIFY \<noteq> 0)\<rparr>)\<rparr>) t
      (\<lambda>x. x\<lparr>t_rpc_stack := ?P\<rparr>) = k1"
    by (simp add: ka_def k1_def upd_tcb_def upd_frame_def sizeof_call_ctx_def x)
  define k3 where "k3 = upd_frame k2 (?pg + (of_nat (nat i) * 4096 - 280)) (\<lambda>r. r\<lparr>r_sp := ?P - BASE_PAGE_SIZE\<rparr>)"
  have k3: "set_stack_fast k2 t (?P - BASE_PAGE_SIZE) = Some k3"
    using m2 by (simp add: set_stack_fast_def k3_def k2(2) sizeof_riscv_regs_def)
  have tail: "(is_set flags IPC_TAIL \<and> is_rpc k t) = False" "(\<not> is_set flags IPC_TAIL) = True" using flags by simp_all
  have "enter_rpc k t r a flags =
      (let k = with_vm k3 (clone_uvmem (vm k3) (t_proc (tcb_at k3 r)) (t_rpc (tcb_at k3 t)));
           k = (if \<not> is_set flags IPC_FORWARD then upd_tcb k t (\<lambda>x. x\<lparr>t_eid := t_pid x\<rparr>) else k);
           k = set_return k t (t_callback (tcb_at k r));
           k = reference_thread k r
       in Some (upd_tcb k t (\<lambda>x. x\<lparr>t_pid := t_rid (tcb_at k r)\<rparr>)))"
    unfolding enter_rpc_def tail if_True if_False P Let_def [of ?P] Let_def [of "upd_tcb k t _"]
    by (simp add: ka kb l(1) k2_def [symmetric] k3 Let_def [of "tcb_at ka t"])
  moreover have "k3 = k\<lparr>kmi := (kmi k)\<lparr>kvm := (vm k)\<lparr>tables := (tables (vm k))(rpc_leaf (t_arch x) := l)\<rparr>\<rparr>,
      tcb_at := (tcb_at k)(t := x\<lparr>t_regs := ?P - 32, t_rpc_stack := ?P, t_arch := (t_arch x)\<lparr>rpc_idx := i - 2\<rparr>\<rparr>),
      ctx_at := ctx_at k1, frame_at := (frame_at k)(?pg + (of_nat (nat i) * 4096 - 280) := frame_at k3 (?pg + (of_nat (nat i) * 4096 - 280)))\<rparr>"
    by (simp add: k3_def k2_def k1_def upd_frame_def set_rpc_table_def upd_arch_def upd_tcb_def with_vm_def)
  moreover have "frame_at k3 (?pg + (of_nat (nat i) * 4096 - 280)) = (frame_at k (?pg + (of_nat (nat i) * 4096 - 280)))
      \<lparr>r_a0 := s_s a, r_a1 := s_id a, r_a2 := s_a0 a, r_a3 := s_a1 a, r_a4 := s_a2 a, r_a5 := s_a3 a, r_sp := ?P - BASE_PAGE_SIZE\<rparr>"
    by (simp add: k3_def k2_def k1_def upd_frame_def set_rpc_table_def upd_arch_def upd_tcb_def with_vm_def)
  ultimately show ?thesis using l(2,3) r
    by (intro exI [of _ l] exI [of _ "frame_at k3 (?pg + (of_nat (nat i) * 4096 - 280))"] conjI)
      (simp add: Let_def with_vm_def upd_tcb_def set_return_def reference_thread_def k1_def sizeof_call_ctx_def fun_upd_twist, simp_all)
qed

section \<open>Leaving\<close>

lemma id_of_nat:
  assumes "c < 2 ^ 31"
  shows "id_of (of_nat c) = int c"
proof -
  have "uint (ucast (of_nat c :: u64) :: 32 word) = int c"
    using assms by (simp add: unsigned_ucast_eq unsigned_of_nat take_bit_nat_eq_self take_bit_int_eq_self)
  then show ?thesis using assms by (simp add: id_of_def sint_uint signed_take_bit_int_eq_self)
qed

lemma destroy_rpc_ok:
  assumes "rpc_mapped k t" "i = rpc_idx (t_arch (tcb_at k t))" "0 \<le> i" "i + 1 \<le> 511"
    and "user_page (rpc_table k t (nat i))" "\<not> user_page (rpc_table k t (nat i + 1))"
    and "t_rpc_stack (tcb_at k t) = RPC_STACK_BASE + of_nat c * 4096" "c \<le> 512"
  shows "\<exists>l. destroy_rpc k t = Some (set_rpc_table k t l (int c - 2)) \<and> same_pages (rpc_table k t) l \<and>
    (\<forall>j. user_page (l j) \<longleftrightarrow> user_page (rpc_table k t j) \<and> int j \<noteq> i \<or> i + 2 \<le> int j \<and> int j < int c - 1)"
proof -
  obtain l1 where l1: "revoke_up (rpc_table k t) i 511 = Some (l1, i + 1)" "same_pages (rpc_table k t) l1"
      "\<forall>n. user_page (l1 n) \<longleftrightarrow> user_page (rpc_table k t n) \<and> int n \<noteq> i"
    using revoke_up_at [OF assms(3-6)] by blast
  obtain l2 where l2: "grant l1 (i + 2) (int c - 1) = Some l2" "same_pages l1 l2"
      "\<forall>n. user_page (l2 n) \<longleftrightarrow> user_page (l1 n) \<or> i + 2 \<le> int n \<and> int n < int c - 1"
    using grant_spec [of "i + 2" "int c - 1" l1] assms(3,8) by auto
  have "(of_nat c * 4096 :: u64) div 4096 = of_nat c"
    using assms(8) by (simp add: word_arith_nat_div unat_word_ariths unat_of_nat)
  then have ctx: "id_of ((t_rpc_stack (tcb_at k t) - RPC_STACK_BASE) div BASE_PAGE_SIZE) = int c"
    using assms(8) by (simp add: assms(7) BASE_PAGE_SIZE_def id_of_nat)
  have "uint (rpc_pages (vm k)) - 1 = 511" using assms(1) by (simp add: rpc_mapped_def Let_def)
  then have "destroy_rpc k t = Some (set_rpc_table k t l2 (int c - 2))"
    using l1(1) l2(1) ctx by (simp add: destroy_rpc_def assms(2) [symmetric] algebra_simps)
  then show ?thesis using l1(2,3) l2(2,3) same_pages_trans by blast
qed

text \<open>A process a thread can return to.\<close>

definition live_proc :: "kernel_state \<Rightarrow> id_t \<Rightarrow> bool" where
  "live_proc k i \<longleftrightarrow> (let r = get_tcb k i in r \<noteq> NULL \<and> is_proc k r \<and> \<not> zombie k r)"

lemma live_proc_cong:
  assumes "tcb_slot k' = tcb_slot k" "num_tcbs k' = num_tcbs k"
    and "\<And>p. t_tid (tcb_at k' p) = t_tid (tcb_at k p) \<and> t_rid (tcb_at k' p) = t_rid (tcb_at k p) \<and> t_state (tcb_at k' p) = t_state (tcb_at k p)"
  shows "live_proc k' i = live_proc k i" "get_tcb k' i = get_tcb k i"
  using assms by (auto simp: live_proc_def get_tcb_def tid_index_def is_proc_def orphan_def zombie_def Let_def)

lemma unwind_live: "live_proc k (c_pid (ctx_at k ctx)) \<Longrightarrow> unwind k t ctx = Some (ctx, k)"
  by (subst unwind.simps) (simp add: live_proc_def Let_def)

lemma leave_rpc_ok:
  assumes m: "rpc_mapped k t" and space: "satp_root (vm k) = t_rpc (tcb_at k t)" and x: "x = tcb_at k t"
    and n: "2 \<le> n" "n \<le> 511" "t_rpc_stack x = RPC_STACK_BASE + of_nat n * 4096" "rpc_idx (t_arch x) = int n - 2"
    and user: "user_page (rpc_table k t (n - 2))" "\<not> user_page (rpc_table k t (n - 1))"
    and C: "C = ctx_at k (rpc_page (t_arch x) + (of_nat n * 4096 - 32))" "\<not> c_notify C" "live_proc k (c_pid C)"
    and c: "c_rpc_stack C = RPC_STACK_BASE + of_nat c * 4096" "1 \<le> c" "c \<le> 512"
    and calm: "\<not> orphan k t" "t_notify_flags x = 0"
  shows "\<exists>k' l f. leave_rpc k t a = Some (To_User_Partial, k') \<and> \<not> bkl k' \<and>
    vm k' = (vm k)\<lparr>tables := (tables (vm k))(rpc_leaf (t_arch x) := l)\<rparr> \<and> same_pages (rpc_table k t) l \<and>
    tcb_at k' = (tcb_at k)(t := x\<lparr>t_regs := c_rpc_stack C - sizeof_call_ctx, t_exec := c_exec C, t_rpc_stack := c_rpc_stack C,
        t_arch := (t_arch x)\<lparr>rpc_idx := int c - 2\<rparr>, t_pid := c_pid C, t_eid := c_eid C\<rparr>) \<and>
    frame_at k' (rpc_page (t_arch x) + (of_nat c * 4096 - 280)) = f \<and>
    r_a0 f = s_s a \<and> r_a1 f = s_id a \<and> r_a2 f = s_a0 a \<and> r_a3 f = s_a1 a \<and> r_a4 f = s_a2 a \<and> r_a5 f = s_a3 a"
proof -
  let ?cp = "rpc_page (t_arch x) + (of_nat n * 4096 - 32)" and ?fp = "rpc_page (t_arch x) + (of_nat c * 4096 - 280)"
  have cp: "ctx_of k (t_rpc_stack x) = Some ?cp"
    using mmu_thread [OF m space, of n 32] n by (simp add: ctx_of_def sizeof_call_ctx_def x)
  have fp: "mmu (vm k) (c_rpc_stack C - 280) = Some ?fp" using mmu_thread [OF m space c(2,3), of 280] by (simp add: c(1) x)
  define f where "f = (frame_at k ?fp)\<lparr>r_a0 := s_s a, r_a1 := s_id a, r_a2 := s_a0 a, r_a3 := s_a1 a, r_a4 := s_a2 a, r_a5 := s_a3 a\<rparr>"
  define k1 where "k1 = k\<lparr>tcb_at := (tcb_at k)(t := x\<lparr>t_regs := c_rpc_stack C - sizeof_call_ctx\<rparr>), frame_at := (frame_at k)(?fp := f)\<rparr>"
  have ret: "set_ret_fast (upd_tcb k t (\<lambda>x. x\<lparr>t_regs := c_rpc_stack C - sizeof_call_ctx\<rparr>)) t a = Some k1"
    using fp by (simp add: set_ret_fast_def k1_def f_def upd_tcb_def upd_frame_def sizeof_call_ctx_def sizeof_riscv_regs_def x)
  have ck1: "ctx_at k1 ?cp = C" by (simp add: k1_def C(1))
  have "live_proc k1 (c_pid C)" using C(3) live_proc_cong(1) [of k1 k] by (simp add: k1_def x)
  then have un: "unwind k1 t ?cp = Some (?cp, k1)" using unwind_live [of k1 ?cp t] by (simp add: ck1)
  have orph: "\<not> orphan k1 t" using calm(1) by (simp add: k1_def orphan_def x)
  define k2 where "k2 = upd_tcb (set_return k1 t (c_exec C)) t (\<lambda>x. x\<lparr>t_rpc_stack := c_rpc_stack C\<rparr>)"
  have k2: "vm k2 = vm k" "t_arch (tcb_at k2 t) = t_arch x" "t_rpc (tcb_at k2 t) = t_rpc x" "t_rpc_stack (tcb_at k2 t) = c_rpc_stack C"
      "rpc_table k2 t = rpc_table k t"
    by (simp_all add: k2_def k1_def set_return_def upd_tcb_def rpc_table_def x)
  have "rpc_mapped k2 t" using m by (simp add: rpc_mapped_def k2 Let_def x)
  moreover have "nat (int n - 2) = n - 2" "n - 2 + 1 = n - 1" using n by auto
  ultimately obtain l where l: "destroy_rpc k2 t = Some (set_rpc_table k2 t l (int c - 2))" "same_pages (rpc_table k t) l"
    using destroy_rpc_ok [of k2 t "int n - 2" c] n user c by (auto simp: k2)
  define k3 where "k3 = upd_tcb (set_rpc_table k2 t l (int c - 2)) t (\<lambda>x. x\<lparr>t_pid := c_pid C, t_eid := c_eid C\<rparr>)"
  have k3: "t_notify_flags (tcb_at k3 t) = 0" "ctx_at k3 = ctx_at k"
    using calm(2) by (simp_all add: k3_def k2_def k1_def set_return_def upd_tcb_def set_rpc_table_def upd_arch_def with_vm_def)
  have same: "ctx_at (upd_tcb s p g) = ctx_at s" "ctx_at (set_return s p e) = ctx_at s" "ctx_at (set_rpc_table s p l' j) = ctx_at s" for s p g e l' j
    by (simp_all add: upd_tcb_def set_return_def set_rpc_table_def upd_arch_def with_vm_def)
  have ck: "ctx_at k ?cp = C" "ctx_at k2 ?cp = C" by (simp_all add: C(1) k2_def same ck1 [unfolded C(1)])
  have "leave_rpc k t a = Some (To_User_Partial, bkl_unlock k3)"
    using k3 C(2) unfolding leave_rpc_def x [symmetric] cp bind.bind_lunit
    by (simp add: same ck ck1 ret un orph l(1) k2_def [symmetric] k3_def [symmetric])
  moreover have "\<not> bkl (bkl_unlock k3)" "vm (bkl_unlock k3) = (vm k)\<lparr>tables := (tables (vm k))(rpc_leaf (t_arch x) := l)\<rparr>"
      "tcb_at (bkl_unlock k3) = (tcb_at k)(t := x\<lparr>t_regs := c_rpc_stack C - sizeof_call_ctx, t_exec := c_exec C, t_rpc_stack := c_rpc_stack C,
        t_arch := (t_arch x)\<lparr>rpc_idx := int c - 2\<rparr>, t_pid := c_pid C, t_eid := c_eid C\<rparr>)" "frame_at (bkl_unlock k3) ?fp = f"
    by (simp_all add: bkl_unlock_def k3_def k2_def k1_def set_return_def upd_tcb_def set_rpc_table_def upd_arch_def with_vm_def)
  ultimately show ?thesis using l(2) by (intro exI [of _ "bkl_unlock k3"] exI [of _ l] exI [of _ f]) (simp add: f_def)
qed

section \<open>References\<close>

lemma unreference_thread_alive:
  assumes "t \<noteq> NULL" "1 < t_refcount (tcb_at k t)"
  shows "unreference_thread k t = Some (upd_tcb k t (\<lambda>x. x\<lparr>t_refcount := t_refcount x - 1\<rparr>))"
  unfolding unreference_thread_def
  by (subst teardown.simps) (use assms in \<open>simp add: unreference_thread_body_def upd_tcb_def Let_def\<close>)

section \<open>A call and its response\<close>

lemma enough_two_pages:
  assumes "enough_rpc_stack k t" "0 < rpc_size k" "rpc_size k \<le> max_rpc_size"
    and "0 \<le> rpc_idx (t_arch (tcb_at k t))" "rpc_idx (t_arch (tcb_at k t)) \<le> 511"
  shows "2 \<le> rpc_idx (t_arch (tcb_at k t))"
proof (rule ccontr)
  assume "\<not> ?thesis"
  then have "rpc_idx (t_arch (tcb_at k t)) = 0 \<or> rpc_idx (t_arch (tcb_at k t)) = 1" using assms(4) by auto
  then have P: "rpc_position k t = RPC_STACK_BASE \<or> rpc_position k t = RPC_STACK_BASE + 4096"
    using rpc_position_page [OF assms(4)] by auto
  have z: "0 < unat (rpc_size k)" "unat (rpc_size k) \<le> 0x80000"
    using assms(2,3) by (simp_all add: word_less_nat_alt word_le_nat_alt max_rpc_size_def)
  have below: "\<not> RPC_STACK_BASE \<le> RPC_STACK_BASE - d" if "0 < unat d" "unat d < 2 ^ 32" for d :: u64
    using that by (simp add: RPC_STACK_BASE_def UVMEM_END_def unat_sub word_le_nat_alt)
  have "unat (4096 + rpc_size k) = 4096 + unat (rpc_size k)" using z by (simp add: unat_word_ariths)
  then show False using P assms(1) below [of "rpc_size k"] below [of "4096 + rpc_size k"] z
    by (auto simp: enough_rpc_stack_def Let_def BASE_PAGE_SIZE_def diff_diff_eq)
qed

lemma rpc_ok_in_rpc:
  assumes "sv39 (kgeom k)" "t_rpc_stack (tcb_at k t) = RPC_STACK_BASE + of_nat n * 4096" "n \<le> 511"
  shows "is_rpc k t"
proof -
  have "unat (of_nat n * 4096 :: u64) \<noteq> unat (0x200000 :: u64)" using assms(3) by (simp add: unat_word_ariths unat_of_nat)
  then show ?thesis using assms(1,2) by (auto simp: is_rpc_def rpc_stack_empty_def sv39_def)
qed

lemma ipc_req_ok:
  assumes ok: "rpc_ok k t" and space: "satp_root (vm k) = t_rpc (tcb_at k t)" and r: "r = get_tcb k (id_of pid)" "live_proc k (id_of pid)" "r \<noteq> t"
    and room: "enough_rpc_stack k t" "0 < rpc_size k" "rpc_size k \<le> max_rpc_size"
    and x: "x = tcb_at k t" and n: "n = nat (rpc_idx (t_arch x))"
  shows "\<exists>k1. sys_ipc_req k t pid d0 d1 d2 d3 = Some (To_User, k1) \<and> \<not> bkl k1 \<and> rpc_ok k1 t \<and> satp_root (vm k1) = t_rpc (tcb_at k1 t) \<and>
    2 \<le> n \<and> n \<le> 511 \<and> user_page (rpc_table k1 t (n - 2)) \<and> \<not> user_page (rpc_table k1 t (n - 1)) \<and>
    tcb_at k1 t = x\<lparr>t_regs := RPC_STACK_BASE + of_nat n * 4096 - sizeof_call_ctx, t_rpc_stack := RPC_STACK_BASE + of_nat n * 4096,
      t_arch := (t_arch x)\<lparr>rpc_idx := int n - 2\<rparr>, t_eid := t_pid x, t_exec := t_callback (tcb_at k r), t_pid := t_rid (tcb_at k r)\<rparr> \<and>
    tcb_at k1 r = (tcb_at k r)\<lparr>t_refcount := t_refcount (tcb_at k r) + 1\<rparr> \<and> (\<forall>p. p \<noteq> t \<and> p \<noteq> r \<longrightarrow> tcb_at k1 p = tcb_at k p) \<and>
    ctx_at k1 (rpc_page (t_arch x) + (of_nat n * 4096 - 32)) =
      \<lparr>c_exec = t_exec x, c_rpc_stack = t_rpc_stack x, c_eid = t_eid x, c_pid = t_pid x, c_notify = False\<rparr> \<and>
    tcb_slot k1 = tcb_slot k \<and> num_tcbs k1 = num_tcbs k \<and> sv39 (kgeom k1)"
proof -
  have i: "0 \<le> rpc_idx (t_arch x)" "rpc_idx (t_arch x) \<le> 511" and m: "rpc_mapped k t" using ok by (simp_all add: rpc_ok_def Let_def x)
  have "2 \<le> rpc_idx (t_arch x)" using enough_two_pages [OF room] i by (simp add: x)
  then have n2: "2 \<le> n" "n \<le> 511" "int n = rpc_idx (t_arch x)" using i n by auto
  have nf: "\<not> is_set (0 :: u32) IPC_TAIL" "\<not> is_set (0 :: u32) IPC_FORWARD" by (simp_all add: is_set_def)
  have rn: "r \<noteq> NULL" "is_proc k r" "\<not> zombie k r" using r(1,2) by (simp_all add: live_proc_def Let_def)
  define a where "a = SYS_RET6 (arg_of (t_pid x)) (arg_of (t_tid x)) d0 d1 d2 d3"
  obtain l f where e: "enter_rpc k t r a 0 = Some (k\<lparr>
      kmi := (kmi k)\<lparr>kvm := clone_uvmem ((vm k)\<lparr>tables := (tables (vm k))(rpc_leaf (t_arch x) := l)\<rparr>) (t_proc (tcb_at k r)) (t_rpc x)\<rparr>,
      tcb_at := (tcb_at k)(t := x\<lparr>t_regs := RPC_STACK_BASE + of_nat n * 4096 - sizeof_call_ctx,
          t_rpc_stack := RPC_STACK_BASE + of_nat n * 4096, t_arch := (t_arch x)\<lparr>rpc_idx := int n - 2\<rparr>,
          t_eid := t_pid x, t_exec := t_callback (tcb_at k r), t_pid := t_rid (tcb_at k r)\<rparr>,
        r := (tcb_at k r)\<lparr>t_refcount := t_refcount (tcb_at k r) + 1\<rparr>),
      ctx_at := (ctx_at k)(rpc_page (t_arch x) + (of_nat n * 4096 - 32) :=
        \<lparr>c_exec = t_exec x, c_rpc_stack = t_rpc_stack x, c_eid = t_eid x, c_pid = t_pid x, c_notify = False\<rparr>),
      frame_at := (frame_at k)(rpc_page (t_arch x) + (of_nat n * 4096 - 280) := f)\<rparr>)" (is "_ = Some ?k")
    "same_pages (rpc_table k t) l" "\<forall>j. int j < int n \<longrightarrow> (user_page (l j) \<longleftrightarrow> int j = int n - 2)"
    using enter_rpc_ok [OF ok space r(3) rn(1) nf(1) n2(3) [unfolded x] _ x, of a] n2(1) nf(2) by auto
  define k1 where "k1 = bkl_unlock (enable_irqs ?k)"
  have run: "sys_ipc_req k t pid d0 d1 d2 d3 = Some (To_User, k1)"
    using e(1) rn room(1) r(1) by (simp add: sys_ipc_req_def do_ipc_def nf a_def [symmetric] x [symmetric] k1_def Let_def)
  let ?v = "(vm k)\<lparr>tables := (tables (vm k))(rpc_leaf (t_arch x) := l)\<rparr>"
  have v: "vm k1 = clone_uvmem ?v (t_proc (tcb_at k r)) (t_rpc x)" by (simp add: k1_def bkl_unlock_def enable_irqs_def)
  have t1: "tcb_at k1 t = x\<lparr>t_regs := RPC_STACK_BASE + of_nat n * 4096 - sizeof_call_ctx,
          t_rpc_stack := RPC_STACK_BASE + of_nat n * 4096, t_arch := (t_arch x)\<lparr>rpc_idx := int n - 2\<rparr>,
          t_eid := t_pid x, t_exec := t_callback (tcb_at k r), t_pid := t_rid (tcb_at k r)\<rparr>"
    using r(3) by (simp add: k1_def bkl_unlock_def enable_irqs_def)
  have sm: "stack_mapped ?v (t_rpc x) (rpc_leaf (t_arch x))"
    using m e(2) stack_mapped_same [of "vm k" "t_rpc x" "rpc_leaf (t_arch x)" l] by (simp add: rpc_mapped_def Let_def x rpc_table_def)
  note clone = stack_mapped_clone [OF sm, of "t_proc (tcb_at k r)"]
  have tab: "rpc_table k1 t = l" using clone(2) by (simp add: rpc_table_def t1 v)
  have map: "rpc_mapped k1 t"
    using clone(1) m e(2) unfolding rpc_mapped_def Let_def tab by (simp add: t1 v x same_pages_def)
  have ok1: "rpc_ok k1 t"
    using map e(3) n2 by (auto simp: rpc_ok_def Let_def t1 tab intro!: exI [of _ n])
  have space1: "satp_root (vm k1) = t_rpc (tcb_at k1 t)" using space by (simp add: v t1 satp_root_def x)
  have geo: "sv39 (kgeom k1)" using sm by (simp add: v stack_mapped_def)
  have rest: "\<not> bkl k1" "tcb_at k1 r = (tcb_at k r)\<lparr>t_refcount := t_refcount (tcb_at k r) + 1\<rparr>" "tcb_slot k1 = tcb_slot k" "num_tcbs k1 = num_tcbs k"
      "\<forall>p. p \<noteq> t \<and> p \<noteq> r \<longrightarrow> tcb_at k1 p = tcb_at k p"
      "ctx_at k1 (rpc_page (t_arch x) + (of_nat n * 4096 - 32)) =
        \<lparr>c_exec = t_exec x, c_rpc_stack = t_rpc_stack x, c_eid = t_eid x, c_pid = t_pid x, c_notify = False\<rparr>"
    by (simp_all add: k1_def bkl_unlock_def enable_irqs_def)
  have "user_page (rpc_table k1 t (n - 2))" "\<not> user_page (rpc_table k1 t (n - 1))" using e(3) n2(1) by (auto simp: tab)
  then show ?thesis using run rest space1 geo ok1 n2 t1 by blast
qed

section \<open>Properties\<close>


text \<open>Two processes with one thread each: 1, which is running with an empty RPC stack, and 2, which has a callback.\<close>

definition rpc_vm :: vm_state where
  "rpc_vm = vm_example\<lparr>rpc_pages := 512, satp := 0x8000000000000001,
     tables := (\<lambda>b i. let g = init_mem mem_zero in
        if b = va 0x1000 then to_pte g (pa (va 0x2000)) (vp_flags VM_V)
        else if b = va 0x2000 then to_pte g (pa (va 0x3000)) (vp_flags VM_V)
        else to_pte g (pa (va 0x200000 + of_nat i * 4096)) (vp_flags (VM_V OR VM_R OR VM_W)))\<rparr>"

definition rpc_thread :: tcb where
  "rpc_thread = zero_tcb\<lparr>t_arch := \<lparr>scratch = 0, rpc_leaf = va 0x3000, rpc_page = va 0x200000, rpc_idx = 511\<rparr>,
     t_rpc := va 0x1000, t_rpc_stack := RPC_STACK_BASE + 0x200000, t_regs := RPC_STACK_BASE + 0x200000 - sizeof_call_ctx, t_exec := 0x5000,
     t_tid := 1, t_rid := 1, t_pid := 1, t_eid := 1, t_refcount := 1\<rparr>"

definition rpc_example :: kernel_state where
  "rpc_example = \<lparr>kmi = arena_example\<lparr>kvm := rpc_vm\<rparr>,
     tcb_at = (\<lambda>p. if p = 0x100 then rpc_thread else zero_tcb\<lparr>t_tid := 2, t_rid := 2, t_refcount := 1, t_callback := 0x7000\<rparr>),
     tcbs = 0x8000, tcb_slot = (\<lambda>i. if i = 1 then 0x100 else if i = 2 then 0x200 else NULL), num_tcbs = 262144, start_tid = 3,
     cpu_slot = (\<lambda>_. 0x100), tp_reg = 0x100,
     ctx_at = (\<lambda>_. \<lparr>c_exec = 0, c_rpc_stack = 0, c_eid = 0, c_pid = 0, c_notify = False\<rparr>),
     frame_at = (\<lambda>_. \<lparr>r_sp = 0, r_a0 = 0, r_a1 = 0, r_a2 = 0, r_a3 = 0, r_a4 = 0, r_a5 = 0, r_others = []\<rparr>),
     canary_at = (\<lambda>_. 0), ipi_links = (\<lambda>_. \<lparr>nxt = NULL, prv = NULL\<rparr>), irqs_on = True, bkl = True, sbi_log = [],
     time_csr = 0, thread_size = 0x1000, rpc_size = 0x1000\<rparr>"

lemma page_multiple: "(x * 4096 :: u64) AND 0xfff = 0"
proof -
  have "x * 4096 = push_bit 12 x" "(0xfff :: u64) = mask 12" by (simp_all add: push_bit_eq_mult mask_eq_exp_minus_1)
  then have "x * 4096 AND 0xfff = take_bit 12 (push_bit 12 x)" by (simp only: take_bit_eq_mask)
  then show ?thesis by (simp add: take_bit_push_bit)
qed

lemma rpc_vm_entries:
  "vgeom rpc_vm = init_mem mem_zero"
  "is_branch (tables rpc_vm (va 0x1000) i)" "pte_addr (init_mem mem_zero) (tables rpc_vm (va 0x1000) i) = va 0x2000"
  "is_branch (tables rpc_vm (va 0x2000) i)" "pte_addr (init_mem mem_zero) (tables rpc_vm (va 0x2000) i) = va 0x3000"
  "leaf_entry (tables rpc_vm (va 0x3000) i)" "\<not> user_page (tables rpc_vm (va 0x3000) i)"
  "pte_addr (init_mem mem_zero) (tables rpc_vm (va 0x3000) i) = va 0x200000 + of_nat i * 4096"
proof -
  have shift: "page_shift (init_mem mem_zero) = 12" using sv39_init_mem [of mem_zero] by (simp add: sv39_def)
  have flags: "bit e n \<longleftrightarrow> bit (pte_flags e) n" if "n < 8" for e n
    using that by (simp add: pte_flags_def flags_mask bit_take_bit_iff)
  have al: "va 0x2000 AND 0xfff = 0" "va 0x3000 AND 0xfff = 0" by (simp_all add: va_def VM_DMAP_def)
  have "va 0x200000 + of_nat i * 4096 = (0xffffffc000200 + of_nat i) * 4096" by (simp add: va_def VM_DMAP_def algebra_simps)
  then have al3: "(va 0x200000 + of_nat i * 4096) AND 0xfff = 0" using page_multiple by metis
  have ne: "va 0x1000 \<noteq> va 0x2000" "va 0x3000 \<noteq> va 0x1000" "va 0x3000 \<noteq> va 0x2000" by (simp_all add: va_def)
  show "vgeom rpc_vm = init_mem mem_zero" by (simp add: rpc_vm_def vm_example_def pmem_example_def)
  have e: "tables rpc_vm (va 0x1000) i = to_pte (init_mem mem_zero) (pa (va 0x2000)) (vp_flags VM_V)"
      "tables rpc_vm (va 0x2000) i = to_pte (init_mem mem_zero) (pa (va 0x3000)) (vp_flags VM_V)"
      "tables rpc_vm (va 0x3000) i = to_pte (init_mem mem_zero) (pa (va 0x200000 + of_nat i * 4096)) (vp_flags (VM_V OR VM_R OR VM_W))"
    using ne by (simp_all add: rpc_vm_def Let_def del: va_pa)
  have V: "is_branch (to_pte m a (vp_flags VM_V))" for m a
    by (simp add: is_branch_def is_active_def pte_flags_to_pte) (simp add: vp_flags_def VM_V_def)
  show "is_branch (tables rpc_vm (va 0x1000) i)" "is_branch (tables rpc_vm (va 0x2000) i)" unfolding e by (rule V)+
  show "pte_addr (init_mem mem_zero) (tables rpc_vm (va 0x1000) i) = va 0x2000" "pte_addr (init_mem mem_zero) (tables rpc_vm (va 0x2000) i) = va 0x3000"
    "pte_addr (init_mem mem_zero) (tables rpc_vm (va 0x3000) i) = va 0x200000 + of_nat i * 4096"
    unfolding e by (rule pte_addr_to_pte [OF shift al(1)] pte_addr_to_pte [OF shift al(2)] pte_addr_to_pte [OF shift al3])+
  have "pte_flags (tables rpc_vm (va 0x3000) i) = 7" unfolding e pte_flags_to_pte by (simp add: vp_flags_def VM_V_def VM_R_def VM_W_def)
  then show "leaf_entry (tables rpc_vm (va 0x3000) i)" "\<not> user_page (tables rpc_vm (va 0x3000) i)"
    by (simp_all add: leaf_entry_def user_page_def flags)
qed

lemma rpc_example_ok: "rpc_ok rpc_example 0x100" "satp_root (vm rpc_example) = t_rpc (tcb_at rpc_example 0x100)"
proof -
  have t: "tcb_at rpc_example 0x100 = rpc_thread" "vm rpc_example = rpc_vm" by (simp_all add: rpc_example_def)
  have g: "sv39 (vgeom rpc_vm)" by (simp add: rpc_vm_entries sv39_init_mem)
  have "stack_mapped rpc_vm (va 0x1000) (va 0x3000)"
    using g by (simp add: stack_mapped_def rpc_vm_entries Let_def) (simp add: va_def)
  then have "rpc_mapped rpc_example 0x100"
    by (simp add: rpc_mapped_def Let_def t rpc_table_def rpc_thread_def rpc_vm_entries) (simp add: rpc_vm_def)
  then show "rpc_ok rpc_example 0x100"
    by (simp add: rpc_ok_def Let_def t rpc_table_def rpc_thread_def rpc_vm_entries exI [of _ 512])
  show "satp_root (vm rpc_example) = t_rpc (tcb_at rpc_example 0x100)"
    using sv39_init_mem [of mem_zero] by (simp add: satp_root_def t rpc_vm_entries sv39_def rpc_thread_def) (simp add: rpc_vm_def)
qed


end
