(* ===== verification/Rpc_Access.thy ===== *)
theory Rpc_Access
  imports Rpc
begin

text \<open>
  Which pages of the RPC stack of a thread the user program can reach after a call: what \<open>new_rpc\<close> of
  \<^verbatim>\<open>arch/riscv64/kernel/vmem.c\<close> leaves of the stack of the caller.
\<close>

lemma rpc_table_set [simp]: "rpc_table (set_rpc_table k t l idx) t = l"
  by (simp add: rpc_table_def set_rpc_table_def upd_arch_def upd_tcb_def with_vm_def)

lemma rpc_idx_set [simp]: "rpc_idx (t_arch (tcb_at (set_rpc_table k t l idx) t)) = idx"
  by (simp add: set_rpc_table_def upd_arch_def upd_tcb_def with_vm_def)

lemma rpc_mapped_set:
  assumes "rpc_mapped k t" "same_pages (rpc_table k t) l"
  shows "rpc_mapped (set_rpc_table k t l idx) t"
proof -
  have "stack_mapped ((vm k)\<lparr>tables := (tables (vm k))(rpc_leaf (t_arch (tcb_at k t)) := l)\<rparr>) (t_rpc (tcb_at k t)) (rpc_leaf (t_arch (tcb_at k t)))"
    using assms by (auto simp: rpc_mapped_def Let_def rpc_table_def stack_mapped_def same_pages_def)
  then show ?thesis using assms
    by (auto simp: rpc_mapped_def Let_def rpc_table_def set_rpc_table_def upd_arch_def upd_tcb_def with_vm_def same_pages_def)
qed

text \<open>(C22) A call takes user access away from the lowest page of the caller's stack only: every page above that the caller had
  grown into stays accessible to the callee, beside the one page it gets of its own.\<close>

theorem new_rpc_leaves_access:
  assumes "rpc_mapped k t" "i = rpc_idx (t_arch (tcb_at k t))" "2 \<le> i" "i < 511"
    and "\<forall>j. int j < i \<longrightarrow> \<not> user_page (rpc_table k t j)"
  shows "\<exists>k'. new_rpc k t = Some k' \<and>
    (\<forall>j. user_page (rpc_table k' t j) \<longleftrightarrow> int j = i - 2 \<or> i < int j \<and> user_page (rpc_table k t j))"
proof -
  have "\<not> user_page (rpc_table k t (nat i - 1))" using assms(3,5) by simp
  then obtain l1 j where l1: "revoke_down (rpc_table k t) i 511 = Some (l1, j)"
      "\<forall>n. user_page (l1 n) \<longleftrightarrow> user_page (rpc_table k t n) \<and> (i = 511 \<or> int n \<noteq> i)"
    using revoke_down_at [of i "rpc_table k t"] assms(3,4) by auto
  obtain l2 where l2: "grant l1 (i - 2) (i - 1) = Some l2"
      "\<forall>n. user_page (l2 n) \<longleftrightarrow> user_page (l1 n) \<or> i - 2 \<le> int n \<and> int n < i - 1"
    using grant_spec [of "i - 2" "i - 1" l1] assms(3,4) by auto
  have "uint (rpc_pages (vm k)) - 1 = 511" using assms(1) by (simp add: rpc_mapped_def Let_def)
  then have n: "new_rpc k t = Some (set_rpc_table k t l2 (i - 2))"
    using l1(1) l2(1) by (simp add: new_rpc_def assms(2) [symmetric] algebra_simps)
  have "user_page (l2 j) \<longleftrightarrow> int j = i - 2 \<or> i < int j \<and> user_page (rpc_table k t j)" for j
  proof (cases "int j < i")
    case True
    then show ?thesis using l2(2) l1(2) assms(5) by auto
  next
    case False
    then show ?thesis using l2(2) l1(2) assms(4) by auto
  qed
  then show ?thesis using n by auto
qed

text \<open>The stack of the running thread of \<open>rpc_example\<close> grown to the pages 500 to 504.\<close>

theorem new_rpc_leaves_access_witness:
  "\<exists>k k'. rpc_idx (t_arch (tcb_at k 0x100)) = 500 \<and> new_rpc k 0x100 = Some k' \<and>
     user_page (rpc_table k 0x100 502) \<and> user_page (rpc_table k' 0x100 502)"
proof -
  obtain l where l: "same_pages (rpc_table rpc_example 0x100) l"
      "\<forall>j. user_page (l j) \<longleftrightarrow> user_page (rpc_table rpc_example 0x100 j) \<or> 500 \<le> int j \<and> int j < 505"
    using grant_spec [of 500 505 "rpc_table rpc_example 0x100"] by auto
  let ?k = "set_rpc_table rpc_example 0x100 l 500"
  have ok: "rpc_mapped rpc_example 0x100" "rpc_idx (t_arch (tcb_at rpc_example 0x100)) = 511"
      "\<forall>j. int j < 511 \<longrightarrow> \<not> user_page (rpc_table rpc_example 0x100 j)"
    using rpc_example_ok(1) by (auto simp: rpc_ok_def Let_def rpc_example_def rpc_thread_def)
  have "rpc_mapped ?k 0x100" using ok(1) l(1) by (rule rpc_mapped_set)
  moreover have "\<forall>j. int j < 500 \<longrightarrow> \<not> user_page (rpc_table ?k 0x100 j)" using l(2) ok(3) by auto
  ultimately obtain k' where "new_rpc ?k 0x100 = Some k'"
      "\<forall>j. user_page (rpc_table k' 0x100 j) \<longleftrightarrow> int j = 500 - 2 \<or> 500 < int j \<and> user_page (rpc_table ?k 0x100 j)"
    using new_rpc_leaves_access [of ?k "0x100" 500] by auto
  moreover have "user_page (rpc_table ?k 0x100 502)" using l(2) by simp
  ultimately show ?thesis by (intro exI [of _ ?k] exI [of _ k']) auto
qed

end
