(* ===== verification/Tids.thy ===== *)
theory Tids
  imports Rpc
begin

text \<open>
  The table of threads of \<^verbatim>\<open>src/tcb.c\<close>: identifiers are handed out in ascending order and looked up by their low bits, so that a
  slot that is used again gets a new identifier and an old one no longer finds anybody.
\<close>

text \<open>Each slot is free or holds a thread whose identifier belongs there; no thread is in the table twice.\<close>

definition tcb_table_ok :: "kernel_state \<Rightarrow> bool" where
  "tcb_table_ok k \<longleftrightarrow> (\<exists>n. num_tcbs k = 2 ^ n) \<and>
     (\<forall>i < nat (num_tcbs k). tcb_slot k i \<noteq> NULL \<longrightarrow>
        0 < t_tid (tcb_at k (tcb_slot k i)) \<and> tid_index k (t_tid (tcb_at k (tcb_slot k i))) = i)"

definition in_table :: "kernel_state \<Rightarrow> ptr \<Rightarrow> bool" where
  "in_table k t \<longleftrightarrow> (\<exists>i < nat (num_tcbs k). tcb_slot k i = t)"

lemma tid_index_mod:
  assumes "num_tcbs k = 2 ^ n" "0 \<le> i"
  shows "tid_index k i = nat i mod 2 ^ n"
proof -
  have "i AND (2 ^ n - 1) = i mod 2 ^ n"
    by (simp add: take_bit_eq_mask [symmetric] mask_eq_exp_minus_1 [symmetric] take_bit_eq_mod)
  then show ?thesis using assms by (simp add: tid_index_def nat_mod_distrib nat_power_eq)
qed

lemma tid_index_less: "tcb_table_ok k \<Longrightarrow> 0 \<le> i \<Longrightarrow> tid_index k i < nat (num_tcbs k)"
  by (auto simp: tcb_table_ok_def tid_index_mod nat_power_eq)

lemma alloc_tid_search:
  assumes "0 < i" "i \<le> m" "m < INT_MAX" "stop < i" "tcb_slot k (tid_index k m) = NULL"
    and "\<forall>x. i \<le> x \<and> x < m \<longrightarrow> tcb_slot k (tid_index k x) \<noteq> NULL"
  shows "alloc_tid_from k t stop i =
    Some (m, k\<lparr>tcb_slot := (tcb_slot k)(tid_index k m := t), start_tid := m + 1\<rparr>)"
  using assms
proof (induction "nat (m - i)" arbitrary: i)
  case 0
  then have "i = m" by simp
  with 0 show ?case by (subst alloc_tid_from.simps) (simp add: Let_def)
next
  case (Suc d)
  then have "i < m" by simp
  then have "alloc_tid_from k t stop (i + 1) =
      Some (m, k\<lparr>tcb_slot := (tcb_slot k)(tid_index k m := t), start_tid := m + 1\<rparr>)"
    using Suc.hyps(2) Suc.prems by (intro Suc.hyps(1)) auto
  moreover have "tcb_slot k (tid_index k i) \<noteq> NULL" using Suc.prems(6) \<open>i < m\<close> by simp
  ultimately show ?case using Suc.prems \<open>i < m\<close> by (subst alloc_tid_from.simps) (simp add: Let_def)
qed

lemma first_free:
  assumes "P (m::int)" "a \<le> m"
  shows "\<exists>x. a \<le> x \<and> x \<le> m \<and> P x \<and> (\<forall>y. a \<le> y \<and> y < x \<longrightarrow> \<not> P y)"
proof -
  define d where "d = (LEAST d. P (a + int d))"
  have "P (a + int (nat (m - a)))" using assms by simp
  then have "P (a + int d)" "d \<le> nat (m - a)" unfolding d_def by (rule LeastI, rule Least_le)
  moreover have "\<not> P y" if "a \<le> y" "y < a + int d" for y
  proof -
    have "nat (y - a) < d" using that by linarith
    then have "\<not> P (a + int (nat (y - a)))" unfolding d_def by (rule not_less_Least)
    then show ?thesis using that by simp
  qed
  ultimately show ?thesis using assms(2) by (intro exI [of _ "a + int d"]) auto
qed

text \<open>A new thread in the table, as \<open>create_thread\<close> puts it there.\<close>

definition enroll :: "kernel_state \<Rightarrow> ptr \<Rightarrow> (id_t \<times> kernel_state) option" where
  "enroll k t =
     do {
       (tid, k) \<leftarrow> alloc_tid k t;
       k \<leftarrow> store_tcb k tid t;
       Some (tid, upd_tcb k t (\<lambda>x. x\<lparr>t_tid := tid, t_state := 0\<rparr>))
     }"


lemma alloc_tid_result:
  assumes "alloc_tid_from k t stop i = Some (m, k')" "0 < i" "stop < i" "i \<le> INT_MAX"
  shows "i \<le> m \<and> tcb_slot k (tid_index k m) = NULL \<and> num_tcbs k' = num_tcbs k"
  using assms
proof (induction "nat (INT_MAX - i)" arbitrary: i)
  case 0
  then have "i = INT_MAX" by simp
  with 0 show ?case by (subst (asm) alloc_tid_from.simps) (simp add: Let_def)
next
  case (Suc d)
  then have i: "i < INT_MAX" by simp
  show ?case
  proof (cases "tcb_slot k (tid_index k i) = NULL")
    case True
    then show ?thesis using Suc.prems i by (subst (asm) alloc_tid_from.simps) (auto simp: Let_def)
  next
    case False
    then have "alloc_tid_from k t stop (i + 1) = Some (m, k')"
      using Suc.prems i by (subst (asm) alloc_tid_from.simps) (simp add: Let_def)
    moreover have "d = nat (INT_MAX - (i + 1))" using Suc.hyps(2) by simp
    ultimately show ?thesis using Suc.hyps(1) [of "i + 1"] Suc.prems i by simp
  qed
qed

text \<open>(C24) Once the counter has passed the last free slot no thread can be created any more, however many slots below it are free: the
  search counts on to an identifier beyond the table, which \<open>create_thread\<close> stores outside of it, or until the identifier overflows.\<close>

theorem thread_ids_run_out:
  assumes "tcb_table_ok k" "0 < start_tid k" "start_tid k \<le> INT_MAX"
    and "\<forall>j. start_tid k \<le> int j \<and> j < nat (num_tcbs k) \<longrightarrow> tcb_slot k j \<noteq> NULL"
  shows "enroll k t = None"
proof (cases "alloc_tid k t")
  case (Some r)
  obtain m k1 where r: "alloc_tid k t = Some (m, k1)" using Some by (cases r) simp
  have m: "start_tid k \<le> m" "tcb_slot k (tid_index k m) = NULL" "num_tcbs k1 = num_tcbs k"
    using alloc_tid_result [OF r [unfolded alloc_tid_def]] assms(2,3) by auto
  obtain n where n: "num_tcbs k = 2 ^ n" using assms(1) by (auto simp: tcb_table_ok_def)
  have "\<not> m < num_tcbs k"
  proof
    assume less: "m < num_tcbs k"
    then have "tid_index k m = nat m" using m(1) assms(2) n by (simp add: tid_index_mod [OF n] nat_less_iff)
    then show False using assms(4) [rule_format, of "nat m"] less m(1,2) assms(2) by simp
  qed
  then show ?thesis using r m(3) by (simp add: enroll_def store_tcb_def)
qed (simp add: enroll_def)

section \<open>Examples\<close>

lemma rpc_example_table: "tcb_table_ok rpc_example" "num_tcbs rpc_example = 2 ^ 18"
proof -
  show n: "num_tcbs rpc_example = 2 ^ 18" by (simp add: rpc_example_def)
  have "tid_index rpc_example 1 = 1" "tid_index rpc_example 2 = 2" by (simp_all add: tid_index_mod [OF n])
  moreover have "tcb_slot rpc_example = (\<lambda>i. if i = 1 then 0x100 else if i = 2 then 0x200 else NULL)"
    "t_tid (tcb_at rpc_example 0x100) = 1" "t_tid (tcb_at rpc_example 0x200) = 2"
    by (simp_all add: rpc_example_def rpc_thread_def)
  ultimately show "tcb_table_ok rpc_example" unfolding tcb_table_ok_def using n by (simp add: exI [of _ 18])
qed

lemma rpc_example_slots:
  "tcb_slot rpc_example i = (if i = 1 then 0x100 else if i = 2 then 0x200 else NULL)" "start_tid rpc_example = 3"
  by (simp_all add: rpc_example_def)


theorem thread_ids_run_out_witness:
  "enroll (rpc_example\<lparr>start_tid := 262144\<rparr>) 0x300 = None \<and> get_tcb (rpc_example\<lparr>start_tid := 262144\<rparr>) 3 = NULL"
proof -
  let ?k = "rpc_example\<lparr>start_tid := 262144\<rparr>"
  have "tcb_table_ok ?k" using rpc_example_table(1) by (simp add: tcb_table_ok_def tid_index_def)
  then have "enroll ?k 0x300 = None"
    by (rule thread_ids_run_out) (auto simp: INT_MAX_def rpc_example_table(2))
  moreover have "num_tcbs ?k = 2 ^ 18" by (simp add: rpc_example_table(2))
  from tid_index_mod [OF this, of 3] have "get_tcb ?k 3 = NULL"
    by (simp add: get_tcb_def rpc_example_slots Let_def)
  ultimately show ?thesis by simp
qed

end
