(* ===== verification/Lock.thy ===== *)
theory Lock
  imports Tcb
begin

text \<open>
  The spin lock of \<^verbatim>\<open>include/kmi/lock.h\<close>, which the big kernel lock of \<^verbatim>\<open>src/bkl.c\<close> is, for any number of processors that
  run it at the same time. Each processor is at a point of the program of \<open>spin_lock\<close> and \<open>spin_unlock\<close>, and one
  atomic access is one step; the acquire and release order of the accesses makes them happen one after the other as
  far as the lock is concerned.
\<close>

section \<open>Reachable states\<close>

inductive reachable :: "('s \<Rightarrow> bool) \<Rightarrow> ('s \<Rightarrow> 's \<Rightarrow> bool) \<Rightarrow> 's \<Rightarrow> bool"
  for init :: "'s \<Rightarrow> bool" and step :: "'s \<Rightarrow> 's \<Rightarrow> bool" where
  reachable_init: "init s \<Longrightarrow> reachable init step s"
| reachable_step: "reachable init step s \<Longrightarrow> step s t \<Longrightarrow> reachable init step t"

locale step_invariant =
  fixes init :: "'s \<Rightarrow> bool" and step :: "'s \<Rightarrow> 's \<Rightarrow> bool" and inv :: "'s \<Rightarrow> bool"
  assumes inv_init: "init s \<Longrightarrow> inv s"
    and inv_step: "inv s \<Longrightarrow> step s t \<Longrightarrow> inv t"
begin

lemma reachable_inv: "reachable init step s \<Longrightarrow> inv s"
  by (induction rule: reachable.induct) (auto intro: inv_init inv_step)

lemma steps_inv: "step\<^sup>*\<^sup>* s t \<Longrightarrow> inv s \<Longrightarrow> inv t"
  by (induction rule: rtranclp_induct) (auto intro: inv_step)

lemma reachable_steps: "step\<^sup>*\<^sup>* s t \<Longrightarrow> reachable init step s \<Longrightarrow> reachable init step t"
  by (induction rule: rtranclp_induct) (auto intro: reachable_step)

end

section \<open>The program\<close>

text \<open>
  \<open>Outside\<close>: not in need of the lock; \<open>Polling\<close>: before the load in the inner loop; \<open>Grabbing\<close>: before the exchange; \<open>Inside\<close>: between
  \<open>spin_lock\<close> and \<open>spin_unlock\<close>.
\<close>

datatype spot = Outside | Polling | Grabbing | Inside

record spin_state =
  lck :: u32
  spot_of :: "nat \<Rightarrow> spot"

definition at_spot :: "spin_state \<Rightarrow> nat \<Rightarrow> spot \<Rightarrow> spin_state" where
  "at_spot s c p = s\<lparr>spot_of := (spot_of s)(c := p)\<rparr>"

definition spin_init :: "spin_state \<Rightarrow> bool" where
  "spin_init s \<longleftrightarrow> lck s = 0 \<and> (\<forall>c. spot_of s c = Outside)"

text \<open>The accesses to the lock of one processor: the loop of \<open>spin_lock\<close> and the store of \<open>spin_unlock\<close>.\<close>

definition spin_lock_step :: "spin_state \<Rightarrow> nat \<Rightarrow> spin_state" where
  "spin_lock_step s c =
     (case spot_of s c of
        Polling \<Rightarrow> if lck s \<noteq> 0 then s else at_spot s c Grabbing
      | Grabbing \<Rightarrow>
          let old = lck s;
              s = s\<lparr>lck := 1\<rparr>
          in at_spot s c (if old \<noteq> 0 then Polling else Inside)
      | _ \<Rightarrow> s)"

definition spin_unlock_step :: "spin_state \<Rightarrow> nat \<Rightarrow> spin_state" where
  "spin_unlock_step s c = at_spot (s\<lparr>lck := 0\<rparr>) c Outside"

inductive spin_step :: "spin_state \<Rightarrow> spin_state \<Rightarrow> bool" where
  call: "spot_of s c = Outside \<Longrightarrow> spin_step s (at_spot s c Polling)"
| lock: "spot_of s c = Polling \<or> spot_of s c = Grabbing \<Longrightarrow> spin_step s (spin_lock_step s c)"
| unlock: "spot_of s c = Inside \<Longrightarrow> spin_step s (spin_unlock_step s c)"

inductive_cases spin_stepE: "spin_step s t"

section \<open>Mutual exclusion\<close>

definition spin_inv :: "spin_state \<Rightarrow> bool" where
  "spin_inv s \<longleftrightarrow>
     (lck s \<noteq> 0 \<longleftrightarrow> (\<exists>c. spot_of s c = Inside)) \<and>
     (\<forall>c d. spot_of s c = Inside \<longrightarrow> spot_of s d = Inside \<longrightarrow> c = d)"

lemma spin_inv_lock: "spin_inv s \<Longrightarrow> spin_inv (spin_lock_step s c)"
  unfolding spin_inv_def spin_lock_step_def at_spot_def Let_def
  by (cases "spot_of s c") (simp_all, (metis spot.distinct)+)

lemma spin_inv_unlock:
  assumes "spin_inv s" "spot_of s c = Inside"
  shows "spin_inv (spin_unlock_step s c)"
  using assms unfolding spin_inv_def spin_unlock_step_def at_spot_def by auto

lemma spin_inv_call:
  assumes "spin_inv s" "spot_of s c = Outside"
  shows "spin_inv (at_spot s c Polling)"
  using assms unfolding spin_inv_def at_spot_def by (simp; metis spot.distinct)

interpretation spin: step_invariant spin_init spin_step spin_inv
proof
  show "spin_init s \<Longrightarrow> spin_inv s" for s by (simp add: spin_init_def spin_inv_def)
  show "spin_inv s \<Longrightarrow> spin_step s t \<Longrightarrow> spin_inv t" for s t
    by (erule spin_stepE) (auto intro: spin_inv_call spin_inv_lock spin_inv_unlock)
qed

text \<open>(C3) Whatever the interleaving of their accesses, no two processors are between \<open>spin_lock\<close> and
  \<open>spin_unlock\<close> at the same time, and the lock is set exactly while one is.\<close>

theorem spin_lock_excludes:
  assumes "reachable spin_init spin_step s"
  shows "(spot_of s c = Inside \<longrightarrow> spot_of s d = Inside \<longrightarrow> c = d) \<and>
    (lck s \<noteq> 0 \<longleftrightarrow> (\<exists>e. spot_of s e = Inside))"
  using spin.reachable_inv [OF assms] by (auto simp: spin_inv_def)

section \<open>Progress\<close>

text \<open>A waiting processor that runs alone.\<close>

lemma poll_free:
  assumes "lck s = 0" "spot_of s c = Polling"
  shows "spin_step s (at_spot s c Grabbing)"
  using spin_step.lock [of s c] assms by (simp add: spin_lock_step_def)

lemma grab_free:
  assumes "lck s = 0" "spot_of s c = Grabbing"
  shows "spin_step s (at_spot (s\<lparr>lck := 1\<rparr>) c Inside)"
  using spin_step.lock [of s c] assms by (simp add: spin_lock_step_def)

lemma free_lock_taken:
  assumes "lck s = 0" "spot_of s c = Polling \<or> spot_of s c = Grabbing"
  shows "\<exists>t. spin_step\<^sup>*\<^sup>* s t \<and> spot_of t c = Inside \<and> (\<forall>d. d \<noteq> c \<longrightarrow> spot_of t d = spot_of s d)"
  using assms(2)
proof
  assume p: "spot_of s c = Polling"
  let ?s = "at_spot s c Grabbing"
  have "spin_step s ?s" by (rule poll_free [OF assms(1) p])
  moreover have "spin_step ?s (at_spot (?s\<lparr>lck := 1\<rparr>) c Inside)"
    by (rule grab_free) (simp_all add: at_spot_def assms(1))
  ultimately show ?thesis
    by (intro exI [of _ "at_spot (?s\<lparr>lck := 1\<rparr>) c Inside"]) (auto simp: at_spot_def intro: rtranclp.intros)
next
  assume "spot_of s c = Grabbing"
  then show ?thesis
    using grab_free [OF assms(1), of c]
    by (intro exI [of _ "at_spot (s\<lparr>lck := 1\<rparr>) c Inside"]) (auto simp: at_spot_def)
qed

text \<open>(C12) No reachable state is a deadlock: a processor that waits for the lock gets it after some
  steps, of the processor inside when there is one and then of its own, in which no third processor moves.\<close>

theorem spin_lock_progress:
  assumes "reachable spin_init spin_step s" "spot_of s c = Polling \<or> spot_of s c = Grabbing"
  shows "\<exists>t. spin_step\<^sup>*\<^sup>* s t \<and> spot_of t c = Inside \<and>
           (\<forall>d. d \<noteq> c \<longrightarrow> spot_of t d = (if spot_of s d = Inside then Outside else spot_of s d))"
proof (cases "lck s = 0")
  case True
  then have "spot_of s d \<noteq> Inside" for d
    using spin.reachable_inv [OF assms(1)] by (auto simp: spin_inv_def)
  then show ?thesis using free_lock_taken [OF True assms(2)] by simp
next
  case False
  then obtain d where d: "spot_of s d = Inside"
    using spin.reachable_inv [OF assms(1)] by (auto simp: spin_inv_def)
  have only: "spot_of s e = Inside \<Longrightarrow> e = d" for e
    using spin.reachable_inv [OF assms(1)] d by (auto simp: spin_inv_def)
  let ?u = "spin_unlock_step s d"
  have "c \<noteq> d" using assms(2) d by auto
  then have "spot_of ?u c = Polling \<or> spot_of ?u c = Grabbing" "lck ?u = 0"
    using assms(2) by (auto simp: spin_unlock_step_def at_spot_def)
  then obtain t where t: "spin_step\<^sup>*\<^sup>* ?u t" "spot_of t c = Inside" "\<forall>e. e \<noteq> c \<longrightarrow> spot_of t e = spot_of ?u e"
    using free_lock_taken [of ?u c] by blast
  have "spin_step s ?u" using d by (rule spin_step.unlock)
  with t(1) have "spin_step\<^sup>*\<^sup>* s t" by (rule converse_rtranclp_into_rtranclp [rotated])
  moreover have "spot_of ?u e = (if spot_of s e = Inside then Outside else spot_of s e)" for e
    using only [of e] d by (cases "e = d") (auto simp: spin_unlock_step_def at_spot_def)
  ultimately show ?thesis using t(2,3) by (intro exI [of _ t]) simp
qed

section \<open>The big kernel lock\<close>

text \<open>
  \<open>bkl_lock\<close> and \<open>bkl_unlock\<close> of the kernel state describe what one processor sees of this: the call comes back exactly
  when the lock is free or becomes so, and \<open>None\<close> stands for waiting on a lock that nobody releases.
\<close>

definition bkl_of :: "spin_state \<Rightarrow> kernel_state \<Rightarrow> kernel_state" where
  "bkl_of s k = k\<lparr>bkl := (lck s \<noteq> 0)\<rparr>"

lemma bkl_lock_spins:
  assumes "spot_of s c = Polling"
  shows "bkl_lock (bkl_of s k) =
    (if lck s = 0 then Some (bkl_of (spin_lock_step (spin_lock_step s c) c) k) else None)"
  using assms by (simp add: bkl_lock_def bkl_of_def spin_lock_step_def at_spot_def)

lemma bkl_unlock_stores: "bkl_unlock (bkl_of s k) = bkl_of (spin_unlock_step s c) k"
  by (simp add: bkl_unlock_def bkl_of_def spin_unlock_step_def at_spot_def)

lemma spin_alone_waits:
  assumes "lck s \<noteq> 0" "spot_of s c = Polling"
  shows "((\<lambda>s. spin_lock_step s c) ^^ n) s = s"
  by (induction n) (simp_all add: spin_lock_step_def assms)

definition idle_cpus :: spin_state where "idle_cpus = \<lparr>lck = 0, spot_of = (\<lambda>_. Outside)\<rparr>"

text \<open>Processor 0 has taken the lock and processor 1 waits for it.\<close>

definition contended :: spin_state where
  "contended = at_spot (spin_lock_step (spin_lock_step (at_spot idle_cpus 0 Polling) 0) 0) 1 Polling"

lemma contended_reachable: "reachable spin_init spin_step contended"
proof -
  let ?a = "at_spot idle_cpus 0 Polling"
  let ?b = "spin_lock_step ?a 0"
  have "reachable spin_init spin_step idle_cpus"
    by (rule reachable_init) (simp add: spin_init_def idle_cpus_def)
  then have "reachable spin_init spin_step ?a"
    by (rule reachable_step) (rule spin_step.call, simp add: idle_cpus_def)
  then have "reachable spin_init spin_step ?b"
    by (rule reachable_step) (rule spin_step.lock, simp add: at_spot_def)
  then have "reachable spin_init spin_step (spin_lock_step ?b 0)"
    by (rule reachable_step) (rule spin_step.lock, simp add: at_spot_def spin_lock_step_def idle_cpus_def)
  then show ?thesis unfolding contended_def
    by (rule reachable_step) (rule spin_step.call, simp add: at_spot_def spin_lock_step_def idle_cpus_def)
qed

lemma contended_spots:
  "spot_of contended 0 = Inside" "spot_of contended 1 = Polling" "2 \<le> c \<Longrightarrow> spot_of contended c = Outside"
  by (simp_all add: contended_def at_spot_def spin_lock_step_def idle_cpus_def)

theorem spin_lock_excludes_witness:
  "spot_of contended 0 = Inside \<and> spot_of contended 1 \<noteq> Inside \<and> lck contended \<noteq> 0"
  using spin_lock_excludes [OF contended_reachable, of 0 1] contended_spots by auto

theorem spin_lock_progress_witness: "\<exists>t. spin_step\<^sup>*\<^sup>* contended t \<and> spot_of t 1 = Inside \<and> spot_of t 0 = Outside"
  using spin_lock_progress [OF contended_reachable, of 1] contended_spots by auto

end
