(* ===== verification/Timer.thy ===== *)
theory Timer
  imports Ipc
begin

text \<open>
  Timers (\<^verbatim>\<open>src/timer.c\<close>): each processor has a balanced tree of timers ordered by their identifier, which starts out as the
  time they are due; interrupts (\<^verbatim>\<open>src/irq.c\<close>) are handed to the thread that registered them; inter-processor interrupts
  (\<^verbatim>\<open>src/ipi.c\<close>) are taken from a queue. All three end in a notification. The time and the number of the pending interrupt are read from the
  processor.
\<close>

section \<open>Timers\<close>

record timer =
  ti_tid :: id_t
  ti_cid :: id_t
  ti_ticks :: u64

text \<open>
  The timers with the kernel state they belong to. A timer node is named by its address; the node
  starts with its tree links, and \<^verbatim>\<open>struct timer\<close> follows 32 bytes further on.
\<close>

record timer_state =
  kern :: kernel_state
  ticks_per_sec :: u64
  timer_root :: "nat \<Rightarrow> ptr"
  timer_at :: "ptr \<Rightarrow> timer"
  timer_links :: sp_heap
  timer_nodes :: node_root
  irq_map :: "nat \<Rightarrow> id_t"
  max_irq :: u64

definition sizeof_timer_node :: u64 where "sizeof_timer_node = 48"

definition timer_of :: "ptr \<Rightarrow> ptr" where "timer_of n = n + 32"
definition node_of :: "ptr \<Rightarrow> ptr" where "node_of t = t - 32"

definition tm_nodes :: "timer_state \<Rightarrow> node_state" where
  "tm_nodes s = \<lparr>nphys = phys (vm (kern s)), region_at = knodes (kmi (kern s))\<rparr>"

definition with_tm_nodes :: "timer_state \<Rightarrow> node_root \<Rightarrow> node_state \<Rightarrow> timer_state" where
  "with_tm_nodes s r n =
     (let k = kern s
      in s\<lparr>timer_nodes := r,
           kern := k\<lparr>kmi := (kmi k)\<lparr>kvm := (kvm (kmi k))\<lparr>phys := nphys n\<rparr>, knodes := region_at n\<rparr>\<rparr>\<rparr>)"

definition init_timer :: "timer_state \<Rightarrow> u64 \<Rightarrow> timer_state option" where
  "init_timer s freq =
     (let s = s\<lparr>ticks_per_sec := freq\<rparr>
      in map_option (\<lambda>(r, n). with_tm_nodes s r n) (init_nodes (tm_nodes s) sizeof_timer_node))"

definition cpu_timers :: "timer_state \<Rightarrow> nat" where
  "cpu_timers s = nat (cpu_id (kern s))"

text \<open>The walk of \<open>__insert_timer\<close>: an equal identifier on the way is stepped over by incrementing one's own.\<close>

partial_function (option) insert_walk :: "timer_state \<Rightarrow> ptr \<Rightarrow> ptr \<Rightarrow> ptr \<Rightarrow> sp_dir \<Rightarrow> (ptr \<times> sp_dir \<times> timer_state) option" where
  "insert_walk s ti n p d =
     (if n = NULL then Some (p, d, s)
      else
        let s = (if ti_cid (timer_at s ti) = ti_cid (timer_at s n)
                 then s\<lparr>timer_at := (timer_at s)(ti := (timer_at s ti)\<lparr>ti_cid := ti_cid (timer_at s ti) + 1\<rparr>)\<rparr> else s)
        in if ti_cid (timer_at s ti) > INT_MAX then None
           else if ti_cid (timer_at s ti) < ti_cid (timer_at s n)
           then insert_walk s ti (sp_left (timer_links s n)) n SP_LEFT
           else insert_walk s ti (sp_right (timer_links s n)) n SP_RIGHT)"

definition insert_timer :: "timer_state \<Rightarrow> ptr \<Rightarrow> (id_t \<times> timer_state) option" where
  "insert_timer s ti =
     (let c = cpu_timers s
      in do {
           (p, d, s) \<leftarrow> insert_walk s ti (timer_root s c) NULL SP_LEFT;
           (h, root) \<leftarrow> sp_insert (timer_links s) (timer_root s c) p ti d;
           let s = s\<lparr>timer_links := h, timer_root := (timer_root s)(c := root)\<rparr>
           in Some (ti_cid (timer_at s ti), s)
         })"

definition new_timer :: "timer_state \<Rightarrow> id_t \<Rightarrow> u64 \<Rightarrow> (id_t \<times> timer_state) option" where
  "new_timer s tid ticks =
     do {
       (ti, r, n) \<leftarrow> get_node (tm_nodes s) (timer_nodes s);
       let s = with_tm_nodes s r n
       in if ti = NULL then None
          else insert_timer (s\<lparr>timer_at := (timer_at s)(ti := \<lparr>ti_tid = tid, ti_cid = id_of ticks, ti_ticks = ticks\<rparr>)\<rparr>) ti
     }"

definition current_ticks :: "timer_state \<Rightarrow> u64" where "current_ticks s = time_csr (kern s)"

definition set_timer :: "timer_state \<Rightarrow> u64 \<Rightarrow> timer_state" where
  "set_timer s ticks = s\<lparr>kern := sbi (kern s) (Set_Timer ticks)\<rparr>"

definition new_abs_timer :: "timer_state \<Rightarrow> id_t \<Rightarrow> u64 \<Rightarrow> (id_t \<times> timer_state) option" where
  "new_abs_timer s tid ticks =
     do {
       (ident, s) \<leftarrow> new_timer s tid ticks;
       Some (ident, set_timer s ticks)
     }"

definition new_rel_timer :: "timer_state \<Rightarrow> id_t \<Rightarrow> u64 \<Rightarrow> (id_t \<times> timer_state) option" where
  "new_rel_timer s tid ticks = new_abs_timer s tid (ticks + current_ticks s)"

text \<open>\<open>newest_timer\<close> of an empty tree passes \<^verbatim>\<open>NULL\<close> to \<open>sp_first\<close>, which reads through it: \<open>None\<close>.\<close>

definition newest_timer :: "timer_state \<Rightarrow> ptr option" where
  "newest_timer s =
     (if timer_root s (cpu_timers s) = NULL then None
      else map_option timer_of (sp_first (timer_links s) (timer_root s (cpu_timers s))))"

partial_function (option) find_timer_from :: "timer_state \<Rightarrow> id_t \<Rightarrow> ptr \<Rightarrow> ptr option" where
  "find_timer_from s cid n =
     (if n = NULL then Some NULL
      else if ti_cid (timer_at s n) = cid then Some (timer_of n)
      else if ti_cid (timer_at s n) < cid then find_timer_from s cid (sp_left (timer_links s n))
      else find_timer_from s cid (sp_right (timer_links s n)))"

definition find_timer :: "timer_state \<Rightarrow> id_t \<Rightarrow> ptr option" where
  "find_timer s cid = find_timer_from s cid (timer_root s (cpu_timers s))"

definition remove_timer :: "timer_state \<Rightarrow> ptr \<Rightarrow> (stat_t \<times> timer_state) option" where
  "remove_timer s t =
     (if t = NULL then Some (ERR_INVAL, s)
      else
        let n = node_of t;
            c = cpu_timers s
        in do {
             (h, root) \<leftarrow> sp_remove (timer_links s) (timer_root s c) n;
             let s = s\<lparr>timer_links := h, timer_root := (timer_root s)(c := root)\<rparr>
             in map_option (\<lambda>(r, x). (OK, with_tm_nodes s r x)) (free_node (tm_nodes s) (timer_nodes s) t)
           })"

definition nsecs_to_ticks :: "timer_state \<Rightarrow> u64 \<Rightarrow> u64" where
  "nsecs_to_ticks s nsecs =
     (let t = (nsecs * ticks_per_sec s) div 1000000000
      in if t = 0 then 1 else t)"

text \<open>The end of the interrupt handlers: the result of \<open>notify\<close>, and the lock released when it came back.\<close>

definition notified :: "timer_state \<Rightarrow> (flow \<times> kernel_state) option \<Rightarrow> (flow \<times> timer_state) option" where
  "notified s r = map_option (\<lambda>(fl, k). (fl, s\<lparr>kern := (if fl = Back then bkl_unlock k else k)\<rparr>)) r"

definition handle_timer :: "timer_state \<Rightarrow> (flow \<times> timer_state) option" where
  "handle_timer s =
     do {
       k \<leftarrow> bkl_lock (kern s);
       let s = s\<lparr>kern := k\<rparr>
       in do {
            t \<leftarrow> newest_timer s;
            let tid = ti_tid (timer_at s (node_of t))
            in do {
                 (_, s) \<leftarrow> remove_timer s t;
                 let r = get_tcb (kern s) tid
                 in if r = NULL \<or> orphan (kern s) r then Some (Back, s\<lparr>kern := bkl_unlock (kern s)\<rparr>)
                    else notified s (notify (kern s) r NOTIFY_TIMER)
               }
          }
     }"

section \<open>Interrupts\<close>

definition init_irq :: "timer_state \<Rightarrow> timer_state option" where
  "init_irq s =
     do {
       (a, p) \<leftarrow> alloc_page (phys (vm (kern s))) 0;
       let s = s\<lparr>kern := with_vm (kern s) ((vm (kern s))\<lparr>phys := p\<rparr>)\<rparr>
       in if a = NULL then None
          else Some (s\<lparr>irq_map := (\<lambda>_. 0), max_irq := order_size (geom p) 0 div 4\<rparr>)
     }"

definition activate_irq :: "u64 \<Rightarrow> stat_t" where "activate_irq ident = OK"
definition deactivate_irq :: "u64 \<Rightarrow> stat_t" where "deactivate_irq ident = OK"

definition register_irq :: "timer_state \<Rightarrow> ptr \<Rightarrow> u64 \<Rightarrow> stat_t \<times> timer_state" where
  "register_irq s t ident =
     (if ident \<ge> max_irq s then (ERR_INVAL, s)
      else if irq_map s (unat ident) \<noteq> 0 then (ERR_EXT, s)
      else (activate_irq ident, s\<lparr>irq_map := (irq_map s)(unat ident := t_tid (tcb_at (kern s) t))\<rparr>))"

text \<open>\<open>unregister_irq\<close> does not check the number: past the page of the map it reads other memory, \<open>None\<close>.\<close>

definition unregister_irq :: "timer_state \<Rightarrow> ptr \<Rightarrow> u64 \<Rightarrow> (stat_t \<times> timer_state) option" where
  "unregister_irq s t ident =
     (if ident \<ge> max_irq s then None
      else
        let tid = irq_map s (unat ident)
        in if tid \<noteq> t_tid (tcb_at (kern s) t) then Some (ERR_PERM, s)
           else Some (deactivate_irq ident, s\<lparr>irq_map := (irq_map s)(unat ident := 0)\<rparr>))"

definition get_irq :: u64 where "get_irq = 0"

definition handle_irq :: "timer_state \<Rightarrow> (flow \<times> timer_state) option" where
  "handle_irq s =
     do {
       k \<leftarrow> bkl_lock (kern s);
       let s = s\<lparr>kern := k\<rparr>;
           ident = get_irq
       in if \<not> ident < max_irq s then None
          else
            let tid = irq_map s (unat ident)
            in if tid = 0 then Some (Back, s)
               else
                 let t = get_tcb (kern s) tid
                 in if t = NULL \<or> orphan (kern s) t then
                      Some (Back, s\<lparr>irq_map := (irq_map s)(unat ident := 0), kern := bkl_unlock (kern s)\<rparr>)
                    else notified s (notify (disable_irqs (kern s)) t NOTIFY_IRQ)
     }"

definition handle_ipi :: "timer_state \<Rightarrow> (flow \<times> timer_state) option" where
  "handle_ipi s =
     do {
       k \<leftarrow> bkl_lock (kern s);
       let k = adjust_ipi k (cur_tcb k)
       in do {
            (q, h) \<leftarrow> queue_pop (ipi_links k) ipi_fifo;
            let k = k\<lparr>ipi_links := h\<rparr>
            in if q = NULL then Some (Back, s\<lparr>kern := bkl_unlock k\<rparr>)
               else notified s (notify k q 0)
          }
     }"

definition riscv_handle_interrupt :: "timer_state \<Rightarrow> u64 \<Rightarrow> (flow \<times> timer_state) option" where
  "riscv_handle_interrupt s ident =
     (let ident = drop_bit 1 (push_bit 1 ident)
      in if ident = 1 then handle_ipi s
         else if ident = 5 then handle_timer s
         else if ident = 9 then handle_irq s
         else Some (Back, s))"

definition riscv_handle_exception :: "timer_state \<Rightarrow> u64 \<Rightarrow> u64 \<Rightarrow> timer_state option" where
  "riscv_handle_exception s addr ident =
     (if ident = 12 \<or> ident = 13 \<or> ident = 15 then do {
        k \<leftarrow> bkl_lock (kern s);
        k \<leftarrow> handle_pagefault k addr;
        Some (s\<lparr>kern := bkl_unlock k\<rparr>)
      }
      else None)"

end
