(* ===== verification/Elf.thy ===== *)
theory Elf
  imports Uvmem
begin

text \<open>
  Loading of executables, \<^verbatim>\<open>src/elf.c\<close> with the packed structures of \<^verbatim>\<open>include/kmi/elf.h\<close>. The image is read byte by byte through
  the address space in use; a byte without a mapping is \<open>None\<close>, a page fault inside of the kernel.
\<close>

section \<open>Reading headers\<close>

definition read_virt :: "kernel_state \<Rightarrow> u64 \<Rightarrow> u8 option" where
  "read_virt k a = map_option (kmem (kmi k)) (mmu (vm k) a)"

fun load_le :: "kernel_state \<Rightarrow> u64 \<Rightarrow> nat \<Rightarrow> u64 option" where
  "load_le k a 0 = Some 0"
| "load_le k a (Suc n) =
     do {
       b \<leftarrow> read_virt k a;
       rest \<leftarrow> load_le k (a + 1) n;
       Some (ucast b OR push_bit 8 rest)
     }"

definition EI_MAGIC :: u32 where "EI_MAGIC = 0x7f454c46"
definition ELFCLASS32 :: u64 where "ELFCLASS32 = 1"
definition ELFCLASS64 :: u64 where "ELFCLASS64 = 2"
definition ET_EXEC :: u64 where "ET_EXEC = 2"
definition ET_DYN :: u64 where "ET_DYN = 3"
definition PT_LOAD :: u64 where "PT_LOAD = 1"
definition PF_X :: u8 where "PF_X = 1"
definition PF_W :: u8 where "PF_W = 2"
definition PF_R :: u8 where "PF_R = 4"

text \<open>Offset and size of the fields in the 32-bit and in the 64-bit layout.\<close>

datatype elf_field = E_Type | E_Entry | E_Phoff | E_Phentsize | E_Phnum

fun elf32_header :: "elf_field \<Rightarrow> u64 \<times> nat" where
  "elf32_header E_Type = (16, 2)"
| "elf32_header E_Entry = (24, 4)"
| "elf32_header E_Phoff = (28, 4)"
| "elf32_header E_Phentsize = (42, 2)"
| "elf32_header E_Phnum = (44, 2)"

fun elf64_header :: "elf_field \<Rightarrow> u64 \<times> nat" where
  "elf64_header E_Type = (16, 2)"
| "elf64_header E_Entry = (24, 8)"
| "elf64_header E_Phoff = (32, 8)"
| "elf64_header E_Phentsize = (54, 2)"
| "elf64_header E_Phnum = (56, 2)"

datatype program_field = P_Type | P_Flags | P_Offset | P_Vaddr | P_Filesz | P_Memsz

fun program32_header :: "program_field \<Rightarrow> u64 \<times> nat" where
  "program32_header P_Type = (0, 4)"
| "program32_header P_Offset = (4, 4)"
| "program32_header P_Vaddr = (8, 4)"
| "program32_header P_Filesz = (16, 4)"
| "program32_header P_Memsz = (20, 4)"
| "program32_header P_Flags = (24, 4)"

fun program64_header :: "program_field \<Rightarrow> u64 \<times> nat" where
  "program64_header P_Type = (0, 4)"
| "program64_header P_Flags = (4, 4)"
| "program64_header P_Offset = (8, 8)"
| "program64_header P_Vaddr = (16, 8)"
| "program64_header P_Filesz = (32, 8)"
| "program64_header P_Memsz = (40, 8)"

definition elf_header_prop :: "kernel_state \<Rightarrow> u64 \<Rightarrow> u64 \<Rightarrow> elf_field \<Rightarrow> u64 option" where
  "elf_header_prop k c e p =
     (let (off, sz) = (if c = ELFCLASS64 then elf64_header p else elf32_header p)
      in load_le k (e + off) sz)"

definition program_header_prop :: "kernel_state \<Rightarrow> u64 \<Rightarrow> u64 \<Rightarrow> program_field \<Rightarrow> u64 option" where
  "program_header_prop k c e p =
     (let (off, sz) = (if c = ELFCLASS64 then program64_header p else program32_header p)
      in load_le k (e + off) sz)"

section \<open>Mapping sections\<close>

definition elf_to_uvflags :: "u8 \<Rightarrow> u8" where
  "elf_to_uvflags elf_flags =
     (let uvflags = ucast (VM_V OR VM_U);
          uvflags = (if elf_flags AND PF_X \<noteq> 0 then uvflags OR ucast VM_X else uvflags);
          uvflags = (if elf_flags AND PF_W \<noteq> 0 then uvflags OR ucast VM_W else uvflags)
      in if elf_flags AND PF_R \<noteq> 0 then uvflags OR ucast VM_R else uvflags)"

text \<open>\<^verbatim>\<open>memcpy\<close> of \<open>n\<close> bytes from a virtual address into a page.\<close>

fun copy_in :: "kernel_state \<Rightarrow> ptr \<Rightarrow> u64 \<Rightarrow> nat \<Rightarrow> kernel_state option" where
  "copy_in k page src 0 = Some k"
| "copy_in k page src (Suc n) =
     do {
       b \<leftarrow> read_virt k src;
       copy_in (k\<lparr>kmi := (kmi k)\<lparr>kmem := (kmem (kmi k))(page := b)\<rparr>\<rparr>) (page + 1) (src + 1) n
     }"

partial_function (option) map_section_from :: "kernel_state \<Rightarrow> ptr \<Rightarrow> u64 \<Rightarrow> u64 \<Rightarrow> u64 \<Rightarrow> u64 \<Rightarrow> u64 \<Rightarrow> u64 \<Rightarrow> (stat_t \<times> kernel_state) option" where
  "map_section_from k t vad vaz vf vfz flags runner =
     (if \<not> runner < vaz then Some (OK, k)
      else do {
        (page, p) \<leftarrow> alloc_page (phys (vm k)) 0;
        let k = with_vm k ((vm k)\<lparr>phys := p\<rparr>)
        in if page = 0 then Some (ERR_OOMEM, k)
           else
             let k = k\<lparr>kmi := (kmi k)\<lparr>kmem := memset (kmem (kmi k)) page 0 BASE_PAGE_SIZE\<rparr>\<rparr>
             in do {
                  k \<leftarrow> (if runner < vfz then copy_in k page (vf + runner) (unat (min BASE_PAGE_SIZE (vfz - runner))) else Some k);
                  (st, v) \<leftarrow> map_vpage (vm k) (t_proc (tcb_at k t)) page (vad + runner) flags 0;
                  if st \<noteq> OK then do {
                    p \<leftarrow> free_page (phys v) 0 page;
                    Some (ERR_OOMEM, with_vm k (v\<lparr>phys := p\<rparr>))
                  }
                  else map_section_from (with_vm k v) t vad vaz vf vfz flags (runner + BASE_PAGE_SIZE)
                }
      })"

definition elf_map_section :: "kernel_state \<Rightarrow> ptr \<Rightarrow> u64 \<Rightarrow> u64 \<Rightarrow> u64 \<Rightarrow> u64 \<Rightarrow> u64 \<Rightarrow> (stat_t \<times> kernel_state) option" where
  "elf_map_section k t vad vaz vf vfz flags =
     do {
       (v, _, k) \<leftarrow> alloc_in k t (alloc_fixed_region (kmi k) (region_of k t) vad vaz flags);
       if v = 0 then Some (ERR_INVAL, k)
       else if v \<noteq> align_down vad BASE_PAGE_SIZE then None
       else map_section_from k t vad vaz vf vfz flags 0
     }"

text \<open>The loop over the program headers: the first section that cannot be mapped ends it.\<close>

fun map_sections :: "kernel_state \<Rightarrow> ptr \<Rightarrow> u64 \<Rightarrow> u64 \<Rightarrow> u64 \<Rightarrow> nat \<Rightarrow> u64 \<Rightarrow> (stat_t \<times> kernel_state) option" where
  "map_sections k t bin c runner 0 phsize = Some (OK, k)"
| "map_sections k t bin c runner (Suc n) phsize =
     do {
       ty \<leftarrow> program_header_prop k c runner P_Type;
       if ty \<noteq> PT_LOAD then map_sections k t bin c (runner + phsize) n phsize
       else do {
         vad \<leftarrow> program_header_prop k c runner P_Vaddr;
         vsz \<leftarrow> program_header_prop k c runner P_Memsz;
         off \<leftarrow> program_header_prop k c runner P_Offset;
         vfz \<leftarrow> program_header_prop k c runner P_Filesz;
         elf_flags \<leftarrow> program_header_prop k c runner P_Flags;
         (st, k) \<leftarrow> elf_map_section k t vad vsz (bin + off) vfz (ucast (elf_to_uvflags (ucast elf_flags)));
         if st \<noteq> OK then Some (st, k)
         else map_sections k t bin c (runner + phsize) n phsize
       }
     }"

definition map_exec :: "kernel_state \<Rightarrow> ptr \<Rightarrow> u64 \<Rightarrow> u64 \<Rightarrow> u64 \<Rightarrow> nat \<Rightarrow> u64 \<Rightarrow> (stat_t \<times> kernel_state) option" where
  "map_exec k t bin c phstart phnum phsize =
     (if t = NULL \<or> \<not> is_proc k t then None
      else do {
        (new_vmem, v) \<leftarrow> create_vmem (vm k);
        let k = with_vm k v
        in if new_vmem = NULL then Some (ERR_OOMEM, k)
           else
             let old_vmem = t_proc (tcb_at k t);
                 old_uvmem = t_uvmem (tcb_at k t);
                 k = upd_tcb k t (\<lambda>x. x\<lparr>t_proc := new_vmem, t_uvmem := t_uvmem zero_tcb\<rparr>)
             in do {
                  (st, k) \<leftarrow> init_uvmem k t;
                  if st \<noteq> OK then do {
                    v \<leftarrow> destroy_vmem (vm k) new_vmem;
                    Some (ERR_OOMEM, upd_tcb (with_vm k v) t (\<lambda>x. x\<lparr>t_uvmem := old_uvmem, t_proc := old_vmem\<rparr>))
                  }
                  else do {
                    (st, k) \<leftarrow> map_sections k t bin c phstart phnum phsize;
                    if st \<noteq> OK then do {
                      k \<leftarrow> destroy_uvmem k t;
                      Some (ERR_OOMEM, upd_tcb k t (\<lambda>x. x\<lparr>t_proc := old_vmem, t_uvmem := old_uvmem\<rparr>))
                    }
                    else
                      let new_uvmem = t_uvmem (tcb_at k t)
                      in do {
                           k \<leftarrow> destroy_uvmem (upd_tcb k t (\<lambda>x. x\<lparr>t_uvmem := old_uvmem\<rparr>)) t;
                           Some (OK, upd_tcb k t (\<lambda>x. x\<lparr>t_proc := new_vmem, t_uvmem := new_uvmem\<rparr>))
                         }
                  }
                }
      })"

definition prepare_exec :: "kernel_state \<Rightarrow> ptr \<Rightarrow> u64 \<Rightarrow> u64 \<Rightarrow> (u64 \<times> kernel_state) option" where
  "prepare_exec k t c elf =
     do {
       phoff \<leftarrow> elf_header_prop k c elf E_Phoff;
       phnum \<leftarrow> elf_header_prop k c elf E_Phnum;
       phsize \<leftarrow> elf_header_prop k c elf E_Phentsize;
       entry \<leftarrow> elf_header_prop k c elf E_Entry;
       (st, k) \<leftarrow> map_exec k t elf c (elf + phoff) (unat phnum) phsize;
       Some (if st \<noteq> OK then 0 else entry, k)
     }"

definition prepare_elf :: "kernel_state \<Rightarrow> ptr \<Rightarrow> u64 \<Rightarrow> u64 \<Rightarrow> u64 \<Rightarrow> (u64 \<times> kernel_state) option" where
  "prepare_elf k t c elf interp =
     do {
       ty \<leftarrow> elf_header_prop k c elf E_Type;
       if ty = ET_EXEC then prepare_exec k t c elf
       else Some (0, k)
     }"

definition load_elf :: "kernel_state \<Rightarrow> ptr \<Rightarrow> u64 \<Rightarrow> u64 \<Rightarrow> (u64 \<times> kernel_state) option" where
  "load_elf k t elf interp =
     do {
       magic \<leftarrow> load_le k elf 4;
       if (ucast magic :: u32) \<noteq> bswap32 EI_MAGIC then Some (0, k)
       else do {
         c \<leftarrow> load_le k (elf + 4) 1;
         if c \<noteq> ELFCLASS32 \<and> c \<noteq> ELFCLASS64 then Some (0, k)
         else prepare_elf k t c elf interp
       }
     }"

definition prepare_proc :: "kernel_state \<Rightarrow> ptr \<Rightarrow> u64 \<Rightarrow> u64 \<Rightarrow> (stat_t \<times> kernel_state) option" where
  "prepare_proc k t bin interp =
     do {
       (entry, k) \<leftarrow> load_elf k t bin interp;
       if entry = 0 then Some (ERR_INVAL, k)
       else Some (OK, upd_tcb k t (\<lambda>x. x\<lparr>t_callback := entry\<rparr>))
     }"

end
