(* ===== verification/Uapi.thy ===== *)
theory Uapi
  imports Timer Elf
begin

text \<open>
  The system calls (\<^verbatim>\<open>src/uapi\<close>) apart from those of \<open>Ipc\<close>, their dispatch (\<^verbatim>\<open>src/uapi/dispatch.c\<close>, \<^verbatim>\<open>src/dispatch.c\<close>) and the
  creation of the first process (\<^verbatim>\<open>src/proc.c\<close>). A handler works on the part of the system it needs and leaves its
  result in the saved registers of the calling thread; \<open>handle_syscall\<close> is the switch over the system call numbers.
  A capability is looked up in the control block the source reads; when there is none, the read through \<^verbatim>\<open>NULL\<close> is \<open>None\<close>.
\<close>

record system =
  timing :: timer_state
  devices :: devmem

abbreviation kst :: "system \<Rightarrow> kernel_state" where "kst s \<equiv> kern (timing s)"

definition set_kern :: "timer_state \<Rightarrow> kernel_state \<Rightarrow> timer_state" where
  [field_defs]: "set_kern s k = s\<lparr>kern := k\<rparr>"

definition set_kst :: "system \<Rightarrow> kernel_state \<Rightarrow> system" where
  [field_defs]: "set_kst s k = s\<lparr>timing := set_kern (timing s) k\<rparr>"

section \<open>Capabilities\<close>

definition sys_set_cap :: "kernel_state \<Rightarrow> ptr \<Rightarrow> u64 \<Rightarrow> u64 \<Rightarrow> kernel_state" where
  "sys_set_cap k t tid caps =
     (if \<not> is_set (t_caps (tcb_at k t)) CAP_CAPS then set_args1 k t (arg_of ERR_PERM)
      else
        let c = get_tcb k (id_of tid)
        in if c = NULL then set_args1 k t (arg_of ERR_NF)
           else
             let k = upd_tcb k c (\<lambda>x. x\<lparr>t_caps := set_bits_mask (t_caps x) (ucast caps)\<rparr>)
             in set_args1 k t (arg_of OK))"

definition sys_get_cap :: "kernel_state \<Rightarrow> ptr \<Rightarrow> u64 \<Rightarrow> kernel_state" where
  "sys_get_cap k t tid =
     (let c = get_tcb k (id_of tid)
      in if c = NULL then set_args1 k t (arg_of ERR_NF)
         else set_args2 k t (arg_of OK) (ucast (t_caps (tcb_at k c))))"

definition sys_clear_cap :: "kernel_state \<Rightarrow> ptr \<Rightarrow> u64 \<Rightarrow> u64 \<Rightarrow> kernel_state" where
  "sys_clear_cap k t tid caps =
     (if \<not> is_set (t_caps (tcb_at k t)) CAP_CAPS then set_args1 k t (arg_of ERR_PERM)
      else
        let c = get_tcb k (id_of tid)
        in if c = NULL then set_args1 k t (arg_of ERR_NF)
           else
             let k = upd_tcb k c (\<lambda>x. x\<lparr>t_caps := clear_bits (t_caps x) (ucast caps)\<rparr>)
             in set_args1 k t (arg_of OK))"

section \<open>Configuration and power\<close>

definition CONF_THREAD_STACK :: u64 where "CONF_THREAD_STACK = 0"
definition CONF_RPC_STACK :: u64 where "CONF_RPC_STACK = 1"
definition CONF_RAM_USAGE :: u64 where "CONF_RAM_USAGE = 2"
definition CONF_RAM_SIZE :: u64 where "CONF_RAM_SIZE = 3"
definition CONF_PAGE_SIZE :: u64 where "CONF_PAGE_SIZE = 4"
definition CONF_MAX_THREADS :: u64 where "CONF_MAX_THREADS = 5"

lemmas conf_numbers = CONF_THREAD_STACK_def CONF_RPC_STACK_def CONF_RAM_USAGE_def CONF_RAM_SIZE_def
  CONF_PAGE_SIZE_def CONF_MAX_THREADS_def

definition sys_get_conf :: "kernel_state \<Rightarrow> ptr \<Rightarrow> u64 \<Rightarrow> u64 \<Rightarrow> kernel_state" where
  "sys_get_conf k t param d0 =
     (if param = CONF_THREAD_STACK then set_args2 k t (arg_of OK) (thread_size k)
      else if param = CONF_RPC_STACK then set_args2 k t (arg_of OK) (rpc_size k)
      else if param = CONF_RAM_USAGE then set_args2 k t (arg_of OK) (query_used (phys (vm k)))
      else if param = CONF_RAM_SIZE then set_args2 k t (arg_of OK) (ram_size (kgeom k))
      else if param = CONF_PAGE_SIZE then
        (if sint d0 < 0 \<or> sint d0 > int (max_order (kgeom k)) then set_args2 k t (arg_of OK) 0
         else set_args2 k t (arg_of OK) (order_size (kgeom k) (nat (sint d0))))
      else if param = CONF_MAX_THREADS then set_args2 k t (arg_of OK) (max_tcbs k)
      else set_args1 k t (arg_of ERR_NF))"

text \<open>The instance of \<open>align_up\<close> for \<^verbatim>\<open>long\<close> at the size of a page; an overflow is \<open>None\<close>.\<close>

definition align_up_long :: "u64 \<Rightarrow> u64 option" where
  "align_up_long val =
     (let new = align_down val BASE_PAGE_SIZE
      in if new = val then Some val
         else if sint new + 4096 > 0x7fffffffffffffff then None
         else Some (new + BASE_PAGE_SIZE))"

definition sys_set_conf :: "kernel_state \<Rightarrow> ptr \<Rightarrow> u64 \<Rightarrow> u64 \<Rightarrow> kernel_state option" where
  "sys_set_conf k t param val =
     (if \<not> has_cap k t CAP_CONF then Some (set_args1 k t (arg_of ERR_PERM))
      else if param = CONF_THREAD_STACK then do {
        sz \<leftarrow> align_up_long val;
        Some (set_args1 (k\<lparr>thread_size := sz\<rparr>) t (arg_of OK))
      }
      else if param = CONF_RPC_STACK then do {
        sz \<leftarrow> align_up_long val;
        if sz > max_rpc_size then Some (set_args1 k t (arg_of ERR_MISC))
        else Some (set_args1 (k\<lparr>rpc_size := sz\<rparr>) t (arg_of OK))
      }
      else Some (set_args1 k t (arg_of ERR_INVAL)))"

definition sys_poweroff :: "kernel_state \<Rightarrow> ptr \<Rightarrow> u64 \<Rightarrow> kernel_state" where
  "sys_poweroff k t type =
     (if \<not> has_cap k t CAP_POWER then set_args1 k t (arg_of ERR_PERM)
      else if type = SYS_SHUTDOWN \<or> type = SYS_COLD_REBOOT \<or> type = SYS_WARM_REBOOT then
        let (st, k) = poweroff k type
        in set_args1 k t (arg_of st)
      else set_args1 k t (arg_of ERR_INVAL))"

definition sys_sleep :: "kernel_state \<Rightarrow> ptr \<Rightarrow> kernel_state option" where
  "sys_sleep k t =
     (if \<not> has_cap k t CAP_POWER then Some (set_args1 k t (arg_of ERR_PERM))
      else
        let k = enable_irqs k;
            (r, k) = sleep (bkl_unlock k)
        in do {
             k \<leftarrow> bkl_lock k;
             Some (set_args1 k t (arg_of r))
           })"

section \<open>Memory\<close>

text \<open>The end of the handlers that return an address. TLB flushes have no modelled effect.\<close>

definition return_start :: "kernel_state \<Rightarrow> ptr \<Rightarrow> u64 \<Rightarrow> kernel_state" where
  "return_start k t start =
     (if ERR_CODE start then set_args1 k t start else set_args2 k t (arg_of OK) start)"

definition sys_req_mem :: "kernel_state \<Rightarrow> ptr \<Rightarrow> u64 \<Rightarrow> u64 \<Rightarrow> kernel_state option" where
  "sys_req_mem k t sz flags =
     (let r = get_cproc k t;
          flags = sanitize_uvflags flags
      in do {
           (start, k) \<leftarrow> alloc_uvmem k r sz flags;
           Some (return_start k t start)
         })"

definition sys_req_fixmem :: "kernel_state \<Rightarrow> ptr \<Rightarrow> u64 \<Rightarrow> u64 \<Rightarrow> u64 \<Rightarrow> kernel_state option" where
  "sys_req_fixmem k t fixed sz flags =
     (let r = get_cproc k t;
          flags = sanitize_uvflags flags
      in do {
           (start, k) \<leftarrow> alloc_fixed_uvmem k r fixed sz flags;
           Some (return_start k t start)
         })"

definition sys_free_mem :: "kernel_state \<Rightarrow> devmem \<Rightarrow> ptr \<Rightarrow> u64 \<Rightarrow> (devmem \<times> kernel_state) option" where
  "sys_free_mem k dm t start =
     (let r = get_cproc k t
      in if r = NULL then None
         else do {
           (status, k) \<leftarrow> free_uvmem k r start;
           if status = OK then Some (dm, set_args1 k t (arg_of OK))
           else do {
             (status, dm, k) \<leftarrow> free_devmem k dm r start;
             Some (dm, set_args1 k t (arg_of status))
           }
         })"

definition sys_req_pmem :: "kernel_state \<Rightarrow> devmem \<Rightarrow> ptr \<Rightarrow> u64 \<Rightarrow> u64 \<Rightarrow> u64 \<Rightarrow> (devmem \<times> kernel_state) option" where
  "sys_req_pmem k dm t paddr sz flags =
     (let r = get_cproc k t;
          flags = sanitize_uvflags flags
      in do {
           (start, dm, k) \<leftarrow> alloc_devmem k dm r paddr sz flags;
           Some (dm, return_start k t start)
         })"

text \<open>The physical address and size are 0 when \<open>alloc_uvpage\<close> did not write them.\<close>

definition sys_req_page :: "kernel_state \<Rightarrow> ptr \<Rightarrow> u64 \<Rightarrow> u64 \<Rightarrow> kernel_state option" where
  "sys_req_page k t sz flags =
     (let r = get_cproc k t;
          flags = sanitize_uvflags flags
      in if r = NULL then None
         else do {
           (start, out, k) \<leftarrow> alloc_uvpage k r sz flags;
           let (addr, asize) = (case out of None \<Rightarrow> (0, 0) | Some x \<Rightarrow> x)
           in if ERR_CODE start then Some (set_args1 k t start)
              else Some (set_args4 k t (arg_of OK) start addr asize)
         })"

definition sys_req_sharedmem :: "kernel_state \<Rightarrow> ptr \<Rightarrow> u64 \<Rightarrow> u64 \<Rightarrow> kernel_state option" where
  "sys_req_sharedmem k t sz flags =
     (let c = get_cproc k t
      in if c = NULL then None
         else if \<not> has_cap k c CAP_SHARED then Some (set_args1 k t (arg_of ERR_PERM))
         else do {
           (start, k) \<leftarrow> alloc_shared_uvmem k c sz (sanitize_uvflags flags);
           Some (return_start k t start)
         })"

definition sys_ref_sharedmem :: "kernel_state \<Rightarrow> ptr \<Rightarrow> u64 \<Rightarrow> u64 \<Rightarrow> u64 \<Rightarrow> kernel_state option" where
  "sys_ref_sharedmem k t tid addr flags =
     (let c = get_cproc k t
      in if c = NULL then None
         else if \<not> has_cap k c CAP_SHARED then Some (set_args1 k t (arg_of ERR_PERM))
         else
           let r = get_tcb k (id_of tid)
           in if r = NULL \<or> zombie k r then Some (set_args1 k t (arg_of ERR_INVAL))
              else do {
                (start, k) \<leftarrow> ref_shared_uvmem k r c addr (sanitize_uvflags flags);
                Some (return_start k t start)
              })"

section \<open>Timers and interrupts\<close>

definition scaled_ticks :: "u64 \<Rightarrow> u64 \<Rightarrow> u64" where "scaled_ticks ticks mult = ticks"

definition usecs_to_ticks :: "timer_state \<Rightarrow> u64 \<Rightarrow> u64" where "usecs_to_ticks s usecs = nsecs_to_ticks s (usecs * 1000)"
definition msecs_to_ticks :: "timer_state \<Rightarrow> u64 \<Rightarrow> u64" where "msecs_to_ticks s msecs = usecs_to_ticks s (msecs * 1000)"
definition secs_to_ticks :: "timer_state \<Rightarrow> u64 \<Rightarrow> u64" where "secs_to_ticks s secs = msecs_to_ticks s (secs * 1000)"

definition sys_timebase :: "timer_state \<Rightarrow> ptr \<Rightarrow> timer_state" where
  "sys_timebase s t = set_kern s (set_args2 (kern s) t (arg_of OK) (secs_to_ticks s 1))"

definition sys_ticks :: "timer_state \<Rightarrow> ptr \<Rightarrow> timer_state" where
  "sys_ticks s t = set_kern s (set_args2 (kern s) t (arg_of OK) (current_ticks s))"

definition sys_req_rel_timer :: "timer_state \<Rightarrow> ptr \<Rightarrow> u64 \<Rightarrow> u64 \<Rightarrow> timer_state option" where
  "sys_req_rel_timer s t ticks mult =
     do {
       (ident, s) \<leftarrow> new_rel_timer s (t_tid (tcb_at (kern s) t)) (scaled_ticks ticks mult);
       Some (set_kern s (set_args2 (kern s) t (arg_of OK) (arg_of ident)))
     }"

definition sys_req_abs_timer :: "timer_state \<Rightarrow> ptr \<Rightarrow> u64 \<Rightarrow> u64 \<Rightarrow> timer_state option" where
  "sys_req_abs_timer s t ticks mult =
     do {
       (ident, s) \<leftarrow> new_abs_timer s (t_tid (tcb_at (kern s) t)) (scaled_ticks ticks mult);
       Some (set_kern s (set_args2 (kern s) t (arg_of OK) (arg_of ident)))
     }"

definition sys_free_timer :: "timer_state \<Rightarrow> ptr \<Rightarrow> u64 \<Rightarrow> timer_state option" where
  "sys_free_timer s t cid =
     do {
       timer \<leftarrow> find_timer s (id_of cid);
       if timer = NULL then Some (set_kern s (set_args1 (kern s) t (arg_of ERR_NF)))
       else do {
         (_, s) \<leftarrow> remove_timer s timer;
         Some (set_kern s (set_args1 (kern s) t (arg_of OK)))
       }
     }"

definition sys_irq_req :: "timer_state \<Rightarrow> ptr \<Rightarrow> u64 \<Rightarrow> timer_state" where
  "sys_irq_req s t ident =
     (let k = kern s;
          x = tcb_at k t
      in if \<not> has_cap k t CAP_IRQ then set_kern s (set_args1 k t (arg_of ERR_PERM))
         else if t_callback x = 0 \<or> t_notify_id x = 0 then set_kern s (set_args1 k t (arg_of ERR_NF))
         else
           let (st, s) = register_irq s t ident
           in set_kern s (set_args1 (kern s) t (arg_of st)))"

definition sys_free_irq :: "timer_state \<Rightarrow> ptr \<Rightarrow> u64 \<Rightarrow> timer_state option" where
  "sys_free_irq s t ident =
     (if \<not> has_cap (kern s) t CAP_IRQ then Some (set_kern s (set_args1 (kern s) t (arg_of ERR_PERM)))
      else do {
        (st, s) \<leftarrow> unregister_irq s t ident;
        Some (set_kern s (set_args1 (kern s) t (arg_of st)))
      })"

definition sys_set_handler :: "kernel_state \<Rightarrow> ptr \<Rightarrow> u64 \<Rightarrow> u64 \<Rightarrow> kernel_state" where
  "sys_set_handler k t tid pid =
     (if \<not> has_cap k t CAP_SIGNAL then set_args1 k t (arg_of ERR_PERM)
      else
        let r = get_tcb k (id_of tid)
        in if r = NULL then set_args1 k t (arg_of ERR_INVAL)
           else
             let k = upd_tcb k t (\<lambda>x. x\<lparr>t_notify_id := id_of pid\<rparr>)
             in set_args1 k t (arg_of OK))"

section \<open>Processes\<close>

definition sys_create :: "kernel_state \<Rightarrow> ptr \<Rightarrow> u64 \<Rightarrow> u64 \<Rightarrow> u64 \<Rightarrow> u64 \<Rightarrow> u64 \<Rightarrow> kernel_state option" where
  "sys_create k t func d0 d1 d2 d3 =
     (let c = get_cproc k t
      in if c = NULL then None
         else if \<not> has_cap k c CAP_PROC then Some (set_args1 k t (arg_of ERR_PERM))
         else
           let e = get_eproc k t
           in if e = NULL then None
              else do {
                (n, k) \<leftarrow> create_thread k e;
                if n = NULL then Some (set_args1 k t (arg_of ERR_OOMEM))
                else
                  let k = set_thread k n;
                      k = set_ret k n 5 (SYS_RET6 (arg_of (t_tid (tcb_at k n))) d0 d1 d2 d3 0);
                      k = set_return k n func;
                      k = upd_tcb k n (\<lambda>x. x\<lparr>t_notify_id := t_notify_id (tcb_at k t)\<rparr>)
                  in Some (set_args1 k t (arg_of (t_tid (tcb_at k n))))
              })"

definition sys_fork :: "kernel_state \<Rightarrow> ptr \<Rightarrow> kernel_state option" where
  "sys_fork k t =
     (let c = get_cproc k t
      in if c = NULL then None
         else if \<not> has_cap k c CAP_PROC then Some (set_args1 k t (arg_of ERR_PERM))
         else
           let e = get_eproc k t
           in if e = NULL then None
              else do {
                (n, k) \<leftarrow> create_proc k e;
                if n = NULL then Some (set_args1 k t (arg_of ERR_OOMEM))
                else if get_eproc k t = NULL then None
                else
                  let k = set_args2 k n 0 (arg_of (t_pid (tcb_at k (get_eproc k t))));
                      k = upd_tcb k n (\<lambda>x. x\<lparr>t_notify_id := t_notify_id (tcb_at k c)\<rparr>)
                  in Some (set_args1 k t (arg_of (t_pid (tcb_at k n))))
              })"

text \<open>The registers a process starts with.\<close>

definition start_proc :: "kernel_state \<Rightarrow> ptr \<Rightarrow> kernel_state" where
  "start_proc k n =
     (let k = set_thread k n;
          k = set_return k n (t_callback (tcb_at k n))
      in set_ret k n 4 (SYS_RET6 0 (arg_of (t_tid (tcb_at k n))) SYS_USER_SPAWNED (arg_of (t_pid (tcb_at k n))) 0 0))"

definition sys_exec :: "kernel_state \<Rightarrow> ptr \<Rightarrow> u64 \<Rightarrow> u64 \<Rightarrow> kernel_state option" where
  "sys_exec k t bin interp =
     (if \<not> is_proc k t then Some (set_args1 k t (arg_of ERR_PERM))
      else if t_refcount (tcb_at k t) \<noteq> 1 then Some (set_args1 k t (arg_of ERR_INVAL))
      else do {
        b \<leftarrow> find_addr_region (kmi k) (region_of k t) bin;
        if b = NULL then Some (set_args1 k t (arg_of ERR_ADDR))
        else do {
          i \<leftarrow> (if interp \<noteq> 0 then find_addr_region (kmi k) (region_of k t) interp else Some NULL);
          if interp \<noteq> 0 \<and> i = NULL then Some (set_args1 k t (arg_of ERR_ADDR))
          else do {
            (st, k) \<leftarrow> prepare_proc k t bin interp;
            if st \<noteq> OK then Some (set_args1 k t (arg_of ERR_INVAL))
            else Some (start_proc k t)
          }
        }
      })"

definition sys_spawn :: "kernel_state \<Rightarrow> ptr \<Rightarrow> u64 \<Rightarrow> u64 \<Rightarrow> kernel_state option" where
  "sys_spawn k t bin interp =
     (let c = get_eproc k t
      in if c = NULL then None
         else if \<not> has_cap k c CAP_PROC then Some (set_args1 k t (arg_of ERR_PERM))
         else do {
           (n, k) \<leftarrow> create_proc k NULL;
           if n = NULL then Some (set_args1 k t (arg_of ERR_OOMEM))
           else
             let k = upd_tcb k n (\<lambda>x. x\<lparr>t_notify_id := t_notify_id (tcb_at k c)\<rparr>)
             in do {
                  (st, k) \<leftarrow> prepare_proc k n bin interp;
                  if st \<noteq> OK then do {
                    (_, k) \<leftarrow> destroy_proc k n;
                    Some (set_args1 k t (arg_of ERR_INVAL))
                  }
                  else
                    let k = start_proc k n
                    in Some (set_args1 k t (arg_of (t_pid (tcb_at k n))))
                }
         })"

definition swap :: "kernel_state \<Rightarrow> ptr \<Rightarrow> ptr \<Rightarrow> (flow \<times> kernel_state) option" where
  "swap k t s =
     (let k = set_args1 k t (arg_of OK);
          k = use_tcb k s;
          k = enable_irqs k
      in if \<not> is_rpc k s \<and> orphan k s then unorphanize k s
         else do {
           (fl, k) \<leftarrow> (if t_notify_flags (tcb_at k s) \<noteq> 0 then notify k s 0 else Some (Back, k));
           if fl \<noteq> Back then Some (fl, k)
           else Some (Back, set_ret k s 6 (get_ret k s))
         })"

text \<open>A swap that ends in user space does not come back to destroy the exiting thread.\<close>

definition sys_exit :: "kernel_state \<Rightarrow> ptr \<Rightarrow> u64 \<Rightarrow> (flow \<times> kernel_state) option" where
  "sys_exit k t tid =
     (let c = get_eproc k t
      in if c = NULL then None
         else if \<not> has_cap k c CAP_PROC then Some (Back, set_args1 k t (arg_of ERR_PERM))
         else if t_tid (tcb_at k t) = 1 then Some (Back, set_args1 k t (arg_of ERR_INVAL))
         else
           let s = get_tcb k (id_of tid)
           in if tid \<noteq> 0 \<and> s = NULL then Some (Back, set_args1 k t (arg_of ERR_INVAL))
              else if tid \<noteq> 0 \<and> zombie k s then Some (Back, set_args1 k t (arg_of ERR_NF))
              else if tid \<noteq> 0 \<and> running k s then Some (Back, set_args1 k t (arg_of ERR_EXT))
              else do {
                (fl, k) \<leftarrow> (if tid \<noteq> 0 then swap k t s else Some (Back, k));
                if fl \<noteq> Back then Some (fl, k)
                else do {
                  (_, k) \<leftarrow> destroy_thread k t;
                  if tid = 0 then Some (Back, snd (sleep (enable_irqs k)))
                  else Some (Back, k)
                }
              })"

definition sys_detach :: "kernel_state \<Rightarrow> ptr \<Rightarrow> u64 \<Rightarrow> kernel_state option" where
  "sys_detach k t tid =
     (let c = get_cproc k t
      in if c = NULL then None
         else if \<not> has_cap k c CAP_PROC then Some (set_args1 k t (arg_of ERR_PERM))
         else
           let x = get_tcb k (id_of tid)
           in if x = NULL \<or> orphan k x then Some (set_args1 k t (arg_of ERR_INVAL))
              else Some (set_args1 (orphanize k x) t (arg_of OK)))"

definition sys_swap :: "kernel_state \<Rightarrow> ptr \<Rightarrow> u64 \<Rightarrow> (flow \<times> kernel_state) option" where
  "sys_swap k t tid =
     (let c = get_cproc k t
      in if c = NULL then None
         else if \<not> has_cap k c CAP_PROC then Some (Back, set_args1 k t (arg_of ERR_PERM))
         else
           let s = get_tcb k (id_of tid)
           in if s = NULL then Some (Back, set_args1 k t (arg_of ERR_INVAL))
              else if zombie k s then Some (Back, set_args1 k t (arg_of ERR_NF))
              else if running k s then Some (Back, set_args1 k t (arg_of ERR_EXT))
              else swap k t s)"

text \<open>
  The first process, with the addresses and sizes of the device tree, of the ramdisk and of the program in it as
  arguments. The results are the addresses at which the process finds the first two.
\<close>

definition init_proc :: "kernel_state \<Rightarrow> ptr \<Rightarrow> u64 \<Rightarrow> u64 \<Rightarrow> u64 \<Rightarrow> u64 \<Rightarrow> (stat_t \<times> u64 \<times> u64 \<times> kernel_state) option" where
  "init_proc k fdt fdt_size init_base initrd_base initrd_size =
     do {
       k \<leftarrow> init_tcbs k;
       (t, k) \<leftarrow> create_proc k NULL;
       if t = NULL then Some (ERR_OOMEM, 0, 0, k)
       else
         let k = upd_tcb k t (\<lambda>x. x\<lparr>t_cpu_id := 0\<rparr>);
             k = tcb_assign k t;
             k = upd_tcb k t (\<lambda>x. x\<lparr>t_notify_id := t_tid x\<rparr>);
             k = upd_tcb k t (\<lambda>x. x\<lparr>t_caps := set_bits_mask (t_caps x)
                   (CAP_CAPS OR CAP_PROC OR CAP_SIGNAL OR CAP_POWER OR CAP_NOTIFY OR CAP_SHARED)\<rparr>);
             k = use_tcb k t;
             k = set_thread k t;
             k = set_return k t (t_callback (tcb_at k t));
             k = set_stack k t (t_rpc_stack (tcb_at k t) - BASE_PAGE_SIZE)
         in do {
              (ret, k) \<leftarrow> prepare_proc k t init_base 0;
              if ret \<noteq> OK then None
              else do {
                (proc_fdt, k) \<leftarrow> map_shared_fixed_uvmem k t fdt fdt_size (VM_V OR VM_R OR VM_U);
                if proc_fdt = 0 then None
                else do {
                  (proc_initrd, k) \<leftarrow> map_shared_fixed_uvmem k t (va initrd_base) initrd_size (VM_V OR VM_R OR VM_U);
                  Some (OK, proc_fdt, proc_initrd, k)
                }
              }
            }
     }"

section \<open>Dispatch\<close>

text \<open>Console output has no modelled effect.\<close>

definition sys_noop :: "kernel_state \<Rightarrow> ptr \<Rightarrow> kernel_state" where "sys_noop k t = set_args1 k t (arg_of OK)"

definition sys_putch :: "kernel_state \<Rightarrow> ptr \<Rightarrow> u64 \<Rightarrow> kernel_state" where "sys_putch k t a = set_args1 k t (arg_of OK)"

definition SYS_NOOP :: u64 where "SYS_NOOP = 0"
definition SYS_PUTCH :: u64 where "SYS_PUTCH = 1"
definition SYS_REQ_MEM :: u64 where "SYS_REQ_MEM = 2"
definition SYS_REQ_PMEM :: u64 where "SYS_REQ_PMEM = 3"
definition SYS_REQ_FIXMEM :: u64 where "SYS_REQ_FIXMEM = 4"
definition SYS_REQ_PAGE :: u64 where "SYS_REQ_PAGE = 5"
definition SYS_REQ_SHAREDMEM :: u64 where "SYS_REQ_SHAREDMEM = 6"
definition SYS_REF_SHAREDMEM :: u64 where "SYS_REF_SHAREDMEM = 7"
definition SYS_FREE_MEM :: u64 where "SYS_FREE_MEM = 8"
definition SYS_TIMEBASE :: u64 where "SYS_TIMEBASE = 9"
definition SYS_TICKS :: u64 where "SYS_TICKS = 10"
definition SYS_REQ_REL_TIMER :: u64 where "SYS_REQ_REL_TIMER = 11"
definition SYS_REQ_ABS_TIMER :: u64 where "SYS_REQ_ABS_TIMER = 12"
definition SYS_FREE_TIMER :: u64 where "SYS_FREE_TIMER = 13"
definition SYS_IPC_REQ :: u64 where "SYS_IPC_REQ = 14"
definition SYS_IPC_FWD :: u64 where "SYS_IPC_FWD = 15"
definition SYS_IPC_TAIL :: u64 where "SYS_IPC_TAIL = 16"
definition SYS_IPC_KICK :: u64 where "SYS_IPC_KICK = 17"
definition SYS_IPC_RESP :: u64 where "SYS_IPC_RESP = 18"
definition SYS_IPC_NOTIFY :: u64 where "SYS_IPC_NOTIFY = 19"
definition SYS_CREATE :: u64 where "SYS_CREATE = 20"
definition SYS_FORK :: u64 where "SYS_FORK = 21"
definition SYS_EXEC :: u64 where "SYS_EXEC = 22"
definition SYS_SPAWN :: u64 where "SYS_SPAWN = 23"
definition SYS_SWAP :: u64 where "SYS_SWAP = 24"
definition SYS_SET_CONF :: u64 where "SYS_SET_CONF = 25"
definition SYS_GET_CONF :: u64 where "SYS_GET_CONF = 26"
definition SYS_SET_CAP :: u64 where "SYS_SET_CAP = 27"
definition SYS_GET_CAP :: u64 where "SYS_GET_CAP = 28"
definition SYS_CLEAR_CAP :: u64 where "SYS_CLEAR_CAP = 29"
definition SYS_POWEROFF :: u64 where "SYS_POWEROFF = 30"
definition SYS_SLEEP :: u64 where "SYS_SLEEP = 31"
definition SYS_IRQ_REQ :: u64 where "SYS_IRQ_REQ = 32"
definition SYS_FREE_IRQ :: u64 where "SYS_FREE_IRQ = 33"
definition SYS_SET_HANDLER :: u64 where "SYS_SET_HANDLER = 34"
definition SYS_EXIT :: u64 where "SYS_EXIT = 35"
definition SYS_DETACH :: u64 where "SYS_DETACH = 36"
definition SYS_NUM :: u64 where "SYS_NUM = 37"

lemmas sys_numbers = SYS_NOOP_def SYS_PUTCH_def SYS_REQ_MEM_def SYS_REQ_PMEM_def SYS_REQ_FIXMEM_def SYS_REQ_PAGE_def
  SYS_REQ_SHAREDMEM_def SYS_REF_SHAREDMEM_def SYS_FREE_MEM_def SYS_TIMEBASE_def SYS_TICKS_def SYS_REQ_REL_TIMER_def
  SYS_REQ_ABS_TIMER_def SYS_FREE_TIMER_def SYS_IPC_REQ_def SYS_IPC_FWD_def SYS_IPC_TAIL_def SYS_IPC_KICK_def
  SYS_IPC_RESP_def SYS_IPC_NOTIFY_def SYS_CREATE_def SYS_FORK_def SYS_EXEC_def SYS_SPAWN_def SYS_SWAP_def
  SYS_SET_CONF_def SYS_GET_CONF_def SYS_SET_CAP_def SYS_GET_CAP_def SYS_CLEAR_CAP_def SYS_POWEROFF_def SYS_SLEEP_def
  SYS_IRQ_REQ_def SYS_FREE_IRQ_def SYS_SET_HANDLER_def SYS_EXIT_def SYS_DETACH_def SYS_NUM_def

text \<open>A handler of a part of the system as a step of the whole, by whether it can leave for user space.\<close>

definition on_kern :: "system \<Rightarrow> kernel_state option \<Rightarrow> (flow \<times> system) option" where
  "on_kern s r = map_option (\<lambda>k. (Back, set_kst s k)) r"

definition on_flow :: "system \<Rightarrow> (flow \<times> kernel_state) option \<Rightarrow> (flow \<times> system) option" where
  "on_flow s r = map_option (\<lambda>(fl, k). (fl, set_kst s k)) r"

definition on_timing :: "system \<Rightarrow> timer_state option \<Rightarrow> (flow \<times> system) option" where
  "on_timing s r = map_option (\<lambda>x. (Back, s\<lparr>timing := x\<rparr>)) r"

definition on_devices :: "system \<Rightarrow> (devmem \<times> kernel_state) option \<Rightarrow> (flow \<times> system) option" where
  "on_devices s r = map_option (\<lambda>(d, k). (Back, (set_kst s k)\<lparr>devices := d\<rparr>)) r"

lemmas on_defs = on_kern_def on_flow_def on_timing_def on_devices_def

definition run_syscall :: "system \<Rightarrow> u64 \<Rightarrow> u64 \<Rightarrow> u64 \<Rightarrow> u64 \<Rightarrow> u64 \<Rightarrow> u64 \<Rightarrow> ptr \<Rightarrow> (flow \<times> system) option" where
  "run_syscall s syscall a b c d e t =
     (let k = kst s;
          x = timing s
      in if syscall = SYS_NOOP then on_kern s (Some (sys_noop k t))
         else if syscall = SYS_PUTCH then on_kern s (Some (sys_putch k t a))
         else if syscall = SYS_REQ_MEM then on_kern s (sys_req_mem k t a b)
         else if syscall = SYS_REQ_PMEM then on_devices s (sys_req_pmem k (devices s) t a b c)
         else if syscall = SYS_REQ_PAGE then on_kern s (sys_req_page k t a b)
         else if syscall = SYS_REQ_FIXMEM then on_kern s (sys_req_fixmem k t a b c)
         else if syscall = SYS_REQ_SHAREDMEM then on_kern s (sys_req_sharedmem k t a b)
         else if syscall = SYS_REF_SHAREDMEM then on_kern s (sys_ref_sharedmem k t a b c)
         else if syscall = SYS_FREE_MEM then on_devices s (sys_free_mem k (devices s) t a)
         else if syscall = SYS_TIMEBASE then on_timing s (Some (sys_timebase x t))
         else if syscall = SYS_TICKS then on_timing s (Some (sys_ticks x t))
         else if syscall = SYS_REQ_REL_TIMER then on_timing s (sys_req_rel_timer x t a b)
         else if syscall = SYS_REQ_ABS_TIMER then on_timing s (sys_req_abs_timer x t a b)
         else if syscall = SYS_FREE_TIMER then on_timing s (sys_free_timer x t a)
         else if syscall = SYS_IPC_REQ then on_flow s (sys_ipc_req k t a b c d e)
         else if syscall = SYS_IPC_FWD then on_flow s (sys_ipc_fwd k t a b c d e)
         else if syscall = SYS_IPC_TAIL then on_flow s (sys_ipc_tail k t a b c d e)
         else if syscall = SYS_IPC_KICK then on_flow s (sys_ipc_kick k t a b c d e)
         else if syscall = SYS_IPC_RESP then on_flow s (sys_ipc_resp k t a b c d)
         else if syscall = SYS_IPC_NOTIFY then on_flow s (sys_ipc_notify k t a)
         else if syscall = SYS_SET_HANDLER then on_kern s (Some (sys_set_handler k t a b))
         else if syscall = SYS_CREATE then on_kern s (sys_create k t a b c d e)
         else if syscall = SYS_FORK then on_kern s (sys_fork k t)
         else if syscall = SYS_EXEC then on_kern s (sys_exec k t a b)
         else if syscall = SYS_SPAWN then on_kern s (sys_spawn k t a b)
         else if syscall = SYS_SWAP then on_flow s (sys_swap k t a)
         else if syscall = SYS_SET_CONF then on_kern s (sys_set_conf k t a b)
         else if syscall = SYS_GET_CONF then on_kern s (Some (sys_get_conf k t a b))
         else if syscall = SYS_SET_CAP then on_kern s (Some (sys_set_cap k t a b))
         else if syscall = SYS_GET_CAP then on_kern s (Some (sys_get_cap k t a))
         else if syscall = SYS_CLEAR_CAP then on_kern s (Some (sys_clear_cap k t a b))
         else if syscall = SYS_POWEROFF then on_kern s (Some (sys_poweroff k t a))
         else if syscall = SYS_SLEEP then on_kern s (sys_sleep k t)
         else if syscall = SYS_IRQ_REQ then on_timing s (Some (sys_irq_req x t a))
         else if syscall = SYS_FREE_IRQ then on_timing s (sys_free_irq x t a)
         else if syscall = SYS_DETACH then on_kern s (sys_detach k t a)
         else if syscall = SYS_EXIT then on_flow s (sys_exit k t a)
         else on_kern s (Some (set_args1 k t (arg_of ERR_INVAL))))"

definition handle_syscall :: "system \<Rightarrow> u64 \<Rightarrow> u64 \<Rightarrow> u64 \<Rightarrow> u64 \<Rightarrow> u64 \<Rightarrow> u64 \<Rightarrow> ptr \<Rightarrow> (flow \<times> system) option" where
  "handle_syscall s syscall a b c d e t =
     (let s = set_kst s (adjust_syscall (kst s) t)
      in do {
           (fl, s) \<leftarrow> run_syscall s syscall a b c d e t;
           if fl \<noteq> Back then Some (fl, s)
           else if check_canary (kst s) t then Some (Back, set_kst s (set_canary (kst s) t))
           else Some (Back, s)
         })"

definition dispatch :: "system \<Rightarrow> u64 \<Rightarrow> u64 \<Rightarrow> u64 \<Rightarrow> u64 \<Rightarrow> u64 \<Rightarrow> u64 \<Rightarrow> (flow \<times> system) option" where
  "dispatch s a b c d e f =
     do {
       k \<leftarrow> bkl_lock (kst s);
       (fl, s) \<leftarrow> handle_syscall (set_kst s k) a b c d e f (cur_tcb k);
       if fl \<noteq> Back then Some (fl, s)
       else Some (Back, set_kst s (bkl_unlock (kst s)))
     }"

end
