(* ===== verification/Syscalls.thy ===== *)
theory Syscalls
  imports Uapi Rpc
begin

text \<open>
  What holds of all system calls and interrupt handlers: a call without the capability it needs only reports that, and
  the kernel lock is free again when the kernel is left.
\<close>

section \<open>Frames\<close>

lemma adjust_syscall_simps [simp]:
  "t_caps (tcb_at (adjust_syscall k t) x) = t_caps (tcb_at k x)"
  "t_tid (tcb_at (adjust_syscall k t) x) = t_tid (tcb_at k x)"
  "t_pid (tcb_at (adjust_syscall k t) x) = t_pid (tcb_at k x)"
  "t_eid (tcb_at (adjust_syscall k t) x) = t_eid (tcb_at k x)"
  "tcb_slot (adjust_syscall k t) = tcb_slot k" "num_tcbs (adjust_syscall k t) = num_tcbs k"
  by (simp_all add: adjust_syscall_def upd_tcb_def)

lemma get_tcb_adjust [simp]: "get_tcb (adjust_syscall k t) i = get_tcb k i"
  by (simp add: get_tcb_def tid_index_def Let_def)

lemma has_cap_adjust [simp]: "has_cap (adjust_syscall k t) x c = has_cap k x c"
  by (simp add: has_cap_def)

lemma kst_set [simp]: "kst (set_kst s k) = k" "set_kst (set_kst s k) k' = set_kst s k'"
  "kern (set_kern x k) = k" "devices (set_kst s k) = devices s" "s\<lparr>timing := set_kern (timing s) k\<rparr> = set_kst s k"
  "timing (set_kst s k) = set_kern (timing s) k" "set_kern (set_kern x k) k' = set_kern x k'"
  by (simp_all add: set_kst_def set_kern_def)

section \<open>Capabilities\<close>

text \<open>The access policy: the control block that needs a capability for a system call, and the capability.\<close>

definition cap_policy :: "kernel_state \<Rightarrow> ptr \<Rightarrow> u64 \<Rightarrow> (ptr \<times> u32) option" where
  "cap_policy k t syscall =
     (if syscall \<in> {SYS_SET_CAP, SYS_CLEAR_CAP} then Some (t, CAP_CAPS)
      else if syscall = SYS_SET_CONF then Some (t, CAP_CONF)
      else if syscall \<in> {SYS_POWEROFF, SYS_SLEEP} then Some (t, CAP_POWER)
      else if syscall \<in> {SYS_IRQ_REQ, SYS_FREE_IRQ} then Some (t, CAP_IRQ)
      else if syscall = SYS_SET_HANDLER then Some (t, CAP_SIGNAL)
      else if syscall \<in> {SYS_REQ_SHAREDMEM, SYS_REF_SHAREDMEM} then Some (get_cproc k t, CAP_SHARED)
      else if syscall \<in> {SYS_CREATE, SYS_FORK, SYS_SWAP, SYS_DETACH} then Some (get_cproc k t, CAP_PROC)
      else if syscall \<in> {SYS_SPAWN, SYS_EXIT} then Some (get_eproc k t, CAP_PROC)
      else None)"

lemma cap_policy_adjust [simp]: "cap_policy (adjust_syscall k t) u n = cap_policy k u n"
  by (simp add: cap_policy_def)

lemma cap_policy_cases:
  assumes "cap_policy k t n = Some (h, cap)"
  shows "(n = SYS_SET_CAP \<or> n = SYS_CLEAR_CAP) \<and> h = t \<and> cap = CAP_CAPS \<or>
    n = SYS_SET_CONF \<and> h = t \<and> cap = CAP_CONF \<or>
    (n = SYS_POWEROFF \<or> n = SYS_SLEEP) \<and> h = t \<and> cap = CAP_POWER \<or>
    (n = SYS_IRQ_REQ \<or> n = SYS_FREE_IRQ) \<and> h = t \<and> cap = CAP_IRQ \<or>
    n = SYS_SET_HANDLER \<and> h = t \<and> cap = CAP_SIGNAL \<or>
    (n = SYS_REQ_SHAREDMEM \<or> n = SYS_REF_SHAREDMEM) \<and> h = get_cproc k t \<and> cap = CAP_SHARED \<or>
    (n = SYS_CREATE \<or> n = SYS_FORK \<or> n = SYS_SWAP \<or> n = SYS_DETACH) \<and> h = get_cproc k t \<and> cap = CAP_PROC \<or>
    (n = SYS_SPAWN \<or> n = SYS_EXIT) \<and> h = get_eproc k t \<and> cap = CAP_PROC"
  using assms unfolding cap_policy_def by (simp split: if_splits)

lemmas guarded_calls = sys_set_cap_def sys_clear_cap_def sys_set_conf_def sys_poweroff_def sys_sleep_def sys_irq_req_def
  sys_free_irq_def sys_set_handler_def sys_req_sharedmem_def sys_ref_sharedmem_def sys_create_def sys_fork_def
  sys_swap_def sys_detach_def sys_spawn_def sys_exit_def

lemma run_syscall_denied:
  assumes "cap_policy (kst s) t syscall = Some (h, cap)" "h \<noteq> NULL" "\<not> has_cap (kst s) h cap"
  shows "run_syscall s syscall a b c d e t = Some (Back, set_kst s (set_args1 (kst s) t (arg_of ERR_PERM)))"
  using cap_policy_cases [OF assms(1)] assms(2,3)
  by (elim disjE conjE; hypsubst)
    (simp_all add: run_syscall_def sys_numbers on_defs guarded_calls has_cap_def)


text \<open>(C4) A system call without the capability the policy asks for has no effect but the error: the
  program counter is moved past the call, the result registers say \<^verbatim>\<open>ERR_PERM\<close>, and the stack canary is put back
  when it was overwritten. This is so for all sixteen guarded calls and all arguments.\<close>

theorem syscall_denied_only_reports:
  assumes "cap_policy (kst s) t syscall = Some (h, cap)" "h \<noteq> NULL" "\<not> has_cap (kst s) h cap"
  shows "handle_syscall s syscall a b c d e t = Some (Back, set_kst s
    (let k = set_args1 (adjust_syscall (kst s) t) t (arg_of ERR_PERM)
     in if check_canary k t then set_canary k t else k))"
proof -
  have "run_syscall (set_kst s (adjust_syscall (kst s) t)) syscall a b c d e t =
      Some (Back, set_kst s (set_args1 (adjust_syscall (kst s) t) t (arg_of ERR_PERM)))"
    using run_syscall_denied [of "set_kst s (adjust_syscall (kst s) t)" t syscall h cap] assms by simp
  then show ?thesis by (simp add: handle_syscall_def Let_def)
qed

section \<open>The kernel lock\<close>

text \<open>A result that leaves for user space has the lock released.\<close>

definition exits_unlocked :: "(flow \<times> kernel_state) option \<Rightarrow> bool" where
  "exits_unlocked r \<longleftrightarrow> (case r of Some (fl, k) \<Rightarrow> fl \<noteq> Back \<longrightarrow> \<not> bkl k | None \<Rightarrow> True)"

named_theorems exit_lemmas

lemma exits_simps [simp]:
  "exits_unlocked None" "exits_unlocked (Some (Back, k))" "exits_unlocked (Some (fl, bkl_unlock k))"
  "exits_unlocked (map_option (\<lambda>k. (Back, f k)) r)" "exits_unlocked (map_option (\<lambda>k. (fl, bkl_unlock (g k))) r)"
  by (auto simp: exits_unlocked_def bkl_unlock_def split: option.splits)

lemma exits_bind: "(\<And>x. exits_unlocked (f x)) \<Longrightarrow> exits_unlocked (Option.bind r f)"
  by (cases r) auto

lemma exits_bind_pair: "(\<And>x y. exits_unlocked (f x y)) \<Longrightarrow> exits_unlocked (Option.bind r (\<lambda>(x, y). f x y))"
  by (cases r) auto

text \<open>Where a call that may leave is followed by the rest of the function.\<close>

lemma exits_seq:
  assumes "exits_unlocked r" "\<And>k. exits_unlocked (f k)"
  shows "exits_unlocked (Option.bind r (\<lambda>(fl, k). if fl \<noteq> Back then Some (fl, k) else f k))"
  using assms by (cases r) (auto simp: exits_unlocked_def)

lemma run_notify_exits [exit_lemmas]: "exits_unlocked (run_notify k t r)"
  unfolding run_notify_def Let_def by (auto split: prod.splits intro!: exits_bind)

lemma notify_exits [exit_lemmas]: "exits_unlocked (notify k t flags)"
  unfolding notify_def Let_def by (simp add: run_notify_exits)

lemma unorphanize_exits [exit_lemmas]: "exits_unlocked (unorphanize k t)"
  unfolding unorphanize_def Let_def by simp

lemma maybe_notify_exits: "exits_unlocked (if P then notify k t 0 else Some (Back, k))"
  by (simp add: notify_exits)

lemma maybe_unorphanize_exits: "exits_unlocked (if P then unorphanize k t else Some (Back, k))"
  by (simp add: unorphanize_exits)

lemma leave_rpc_exits [exit_lemmas]: "exits_unlocked (leave_rpc k t a)"
  unfolding leave_rpc_def Let_def
  by (rule exits_bind, rule exits_bind, rule exits_bind_pair, rule exits_seq, rule maybe_unorphanize_exits,
      rule exits_bind, rule exits_seq, rule maybe_notify_exits, simp)

lemma do_ipc_exits [exit_lemmas]: "exits_unlocked (do_ipc k t pid d0 d1 d2 d3 flags)"
  unfolding do_ipc_def Let_def by simp

lemma swap_exits [exit_lemmas]: "exits_unlocked (swap k t s)"
proof -
  have "exits_unlocked (Option.bind (if P then notify k' s 0 else Some (Back, k'))
      (\<lambda>(fl, k). if fl \<noteq> Back then Some (fl, k) else Some (Back, set_ret k s 6 (get_ret k s))))" for P k'
    by (rule exits_seq [OF maybe_notify_exits]) simp
  then show ?thesis unfolding swap_def Let_def by (simp only: unorphanize_exits if_split) simp
qed

lemma sys_exit_exits [exit_lemmas]: "exits_unlocked (sys_exit k t tid)"
proof -
  have "exits_unlocked (Option.bind (if P then swap k t s else Some (Back, k))
      (\<lambda>(fl, k). if fl \<noteq> Back then Some (fl, k) else Option.bind (destroy_thread k t)
        (\<lambda>(_, k). if tid = 0 then Some (Back, snd (sleep (enable_irqs k))) else Some (Back, k))))" for P s
    by (rule exits_seq) (auto simp: swap_exits intro: exits_bind_pair)
  then show ?thesis unfolding sys_exit_def Let_def by (simp only: exits_simps if_split) simp
qed

lemma ipc_calls_exit [exit_lemmas]:
  "exits_unlocked (sys_ipc_req k t pid d0 d1 d2 d3)" "exits_unlocked (sys_ipc_fwd k t pid d0 d1 d2 d3)"
  "exits_unlocked (sys_ipc_tail k t pid d0 d1 d2 d3)" "exits_unlocked (sys_ipc_kick k t pid d0 d1 d2 d3)"
  "exits_unlocked (sys_ipc_resp k t d0 d1 d2 d3)" "exits_unlocked (sys_ipc_notify k t tid)" "exits_unlocked (sys_swap k t tid)"
  by (auto simp: sys_ipc_req_def sys_ipc_fwd_def sys_ipc_tail_def sys_ipc_kick_def sys_ipc_resp_def sys_ipc_notify_def
      sys_swap_def Let_def exit_lemmas intro!: exits_bind)

text \<open>A step of the whole system.\<close>

definition step_unlocked :: "(flow \<times> system) option \<Rightarrow> bool" where
  "step_unlocked r \<longleftrightarrow> exits_unlocked (map_option (\<lambda>(fl, s). (fl, kst s)) r)"

lemma step_simps [simp]:
  "step_unlocked (on_kern s r)" "step_unlocked (on_timing s x)" "step_unlocked (on_devices s y)"
  "step_unlocked (on_flow s q) = exits_unlocked q"
  by (auto simp: step_unlocked_def on_defs option.map_comp o_def split_beta exits_unlocked_def split: option.splits)

lemma run_syscall_exits: "step_unlocked (run_syscall s n a b c d e t)"
  unfolding run_syscall_def Let_def by (simp add: exit_lemmas)

lemma handle_syscall_exits:
  assumes "handle_syscall s n a b c d e t = Some (fl, s')" "fl \<noteq> Back"
  shows "\<not> bkl (kst s')"
  using assms run_syscall_exits [of "set_kst s (adjust_syscall (kst s) t)" n a b c d e t]
  by (auto simp: handle_syscall_def Let_def step_unlocked_def exits_unlocked_def split: option.splits if_splits bind_splits)

lemma notified_unlocks:
  assumes "notified s r = Some (fl, s')" "exits_unlocked r"
  shows "\<not> bkl (kern s')"
  using assms by (auto simp: notified_def exits_unlocked_def bkl_unlock_def split: option.splits if_splits)

lemma notify_unlocks: "notified s (notify k t flags) = Some (fl, s') \<Longrightarrow> \<not> bkl (kern s')"
  by (erule notified_unlocks) (rule notify_exits)

lemma dispatch_unlocks:
  assumes "dispatch s n a b c d e = Some (fl, s')"
  shows "\<not> bkl (kst s')"
proof -
  obtain k s1 fl1 where h: "handle_syscall (set_kst s k) n a b c d e (cur_tcb k) = Some (fl1, s1)"
    and r: "(fl, s') = (if fl1 \<noteq> Back then (fl1, s1) else (Back, set_kst s1 (bkl_unlock (kst s1))))"
    using assms by (auto simp: dispatch_def split: bind_splits if_splits)
  show ?thesis
  proof (cases "fl1 = Back")
    case True
    then show ?thesis using r by (simp add: bkl_unlock_def)
  next
    case False
    then show ?thesis using r handle_syscall_exits [OF h] by simp
  qed
qed

lemma handle_timer_unlocks:
  assumes "handle_timer s = Some (fl, s')"
  shows "\<not> bkl (kern s')"
  using assms
  by (auto simp: handle_timer_def Let_def bkl_unlock_def exit_lemmas split: bind_splits if_splits dest: notify_unlocks)

lemma handle_ipi_unlocks:
  assumes "handle_ipi s = Some (fl, s')"
  shows "\<not> bkl (kern s')"
  using assms
  by (auto simp: handle_ipi_def Let_def bkl_unlock_def exit_lemmas split: bind_splits if_splits dest: notify_unlocks)

lemma exception_unlocks:
  assumes "riscv_handle_exception s addr ident = Some s'"
  shows "\<not> bkl (kern s')"
  using assms by (auto simp: riscv_handle_exception_def bkl_unlock_def split: bind_splits if_splits)



text \<open>(C25) An interrupt that nobody registered for comes back with the kernel lock still taken, after which no entry
  to the kernel gets past the lock: neither a system call nor a timer, a second interrupt, or one from another processor.\<close>

theorem unregistered_irq_keeps_lock:
  assumes "\<not> bkl (kern x)" "0 < max_irq x" "irq_map x 0 = 0"
  shows "\<exists>x'. handle_irq x = Some (Back, x') \<and> bkl (kern x') \<and> handle_irq x' = None \<and> handle_timer x' = None \<and> handle_ipi x' = None \<and>
    (\<forall>s n a b c d e. timing s = x' \<longrightarrow> dispatch s n a b c d e = None)"
  using assms
  by (simp add: handle_irq_def bkl_lock_def get_irq_def Let_def handle_timer_def handle_ipi_def dispatch_def)

section \<open>Examples\<close>

text \<open>The two processes of \<open>rpc_example\<close>, neither of them with any capability, no timers and no interrupts.\<close>

definition sys_example :: system where
  "sys_example = \<lparr>timing = \<lparr>kern = rpc_example\<lparr>bkl := False\<rparr>, ticks_per_sec = 10000000, timer_root = (\<lambda>_. NULL),
       timer_at = (\<lambda>_. \<lparr>ti_tid = 0, ti_cid = 0, ti_ticks = 0\<rparr>), timer_links = sp_zero,
       timer_nodes = kroot arena_example, irq_map = (\<lambda>_. 0), max_irq = 1024\<rparr>,
     devices = \<lparr>pre_ram = uv_region (t_uvmem zero_tcb), post_ram = uv_region (t_uvmem zero_tcb)\<rparr>\<rparr>"

lemma sys_example_simps:
  "kst sys_example = rpc_example\<lparr>bkl := False\<rparr>" "tcb_at rpc_example 0x100 = rpc_thread" "t_caps rpc_thread = 0"
  by (simp_all add: sys_example_def rpc_example_def rpc_thread_def zero_tcb_def)

theorem syscall_denied_only_reports_witness:
  "\<exists>s'. handle_syscall sys_example SYS_SET_CAP 1 0xff 0 0 0 0x100 = Some (Back, s') \<and>
     t_caps (tcb_at (kst s') 0x100) = 0 \<and> s_s (get_ret (kst s') 0x100) = arg_of ERR_PERM"
proof -
  have "cap_policy (kst sys_example) 0x100 SYS_SET_CAP = Some (0x100, CAP_CAPS)"
    "\<not> has_cap (kst sys_example) 0x100 CAP_CAPS"
    by (simp_all add: cap_policy_def has_cap_def sys_example_simps is_set_def)
  from syscall_denied_only_reports [OF this(1) _ this(2), of 1 "0xff" 0 0 0] show ?thesis
    by (simp add: sys_example_simps adjust_syscall_def upd_tcb_def set_args1_def set_ret_def upd_frame_def set_canary_def get_ret_def
        phys_frame_def physical_regs_def Let_def)
qed


theorem unregistered_irq_keeps_lock_witness:
  "\<exists>x'. handle_irq (timing sys_example) = Some (Back, x') \<and> bkl (kern x') \<and> handle_timer x' = None"
  using unregistered_irq_keeps_lock [of "timing sys_example"] by (auto simp: sys_example_def)

end
