(* ===== verification/Timer_Order.thy ===== *)
theory Timer_Order
  imports Timer Rpc Sp_Remove
begin

text \<open>
  The order of the timers of a processor (\<^verbatim>\<open>src/timer.c\<close>): what \<open>__insert_timer\<close> keeps of it, and what \<open>find_timer\<close> makes of it.
\<close>

abbreviation cid :: "timer_state \<Rightarrow> ptr \<Rightarrow> id_t" where "cid s n \<equiv> ti_cid (timer_at s n)"

abbreviation cids :: "timer_state \<Rightarrow> ptr list \<Rightarrow> id_t list" where "cids s xs \<equiv> map (cid s) xs"

definition set_cid :: "timer_state \<Rightarrow> ptr \<Rightarrow> id_t \<Rightarrow> timer_state" where
  "set_cid s ti c = s\<lparr>timer_at := (timer_at s)(ti := (timer_at s ti)\<lparr>ti_cid := c\<rparr>)\<rparr>"

lemma set_cid_simps [simp]:
  "timer_links (set_cid s ti c) = timer_links s" "timer_root (set_cid s ti c) = timer_root s" "kern (set_cid s ti c) = kern s"
  "cid (set_cid s ti c) n = (if n = ti then c else cid s n)" "set_cid (set_cid s ti c) ti c' = set_cid s ti c'"
  "cpu_timers (set_cid s ti c) = cpu_timers s" "set_cid s ti (cid s ti) = s"
  by (simp_all add: set_cid_def cpu_timers_def)

section \<open>Finding\<close>

text \<open>The search turns to the smaller side of a timer for a larger identifier and the other way round.\<close>

lemma find_timer_goes_left:
  assumes "tree_at (timer_links s) p n t" "\<forall>x \<in> set_tree t. cid s x < c"
  shows "find_timer_from s c n = Some NULL"
  using assms
proof (induction t arbitrary: p n)
  case (Node l x r)
  then show ?case by (subst find_timer_from.simps) auto
qed (simp add: find_timer_from.simps)

lemma find_timer_goes_right:
  assumes "tree_at (timer_links s) p n t" "\<forall>x \<in> set_tree t. c < cid s x"
  shows "find_timer_from s c n = Some NULL"
  using assms
proof (induction t arbitrary: p n)
  case (Node l x r)
  then show ?case by (subst find_timer_from.simps) auto
qed (simp add: find_timer_from.simps)

text \<open>(C23) In a tree of timers that is in order, \<open>find_timer\<close> returns but finds no timer other than the one at the root of the
  tree.\<close>

theorem find_timer_only_root:
  assumes "sp_seq (timer_links s) root xs" "root = timer_root s (cpu_timers s)" "sorted_wrt (<) (cids s xs)"
  shows "find_timer s c = Some (if root \<noteq> NULL \<and> cid s root = c then timer_of root else NULL)"
proof -
  obtain t where t: "tree_at (timer_links s) NULL root t" "inorder t = xs" using assms(1) by (auto simp: sp_seq_def)
  show ?thesis
  proof (cases t)
    case Leaf
    then show ?thesis using t(1) by (simp add: find_timer_def assms(2) [symmetric] find_timer_from.simps)
  next
    case (Node l x r)
    then have x: "x = root" "root \<noteq> NULL" "tree_at (timer_links s) root (sp_left (timer_links s root)) l"
        "tree_at (timer_links s) root (sp_right (timer_links s root)) r"
      using t(1) by auto
    have "xs = inorder l @ root # inorder r" using t(2) Node x(1) by simp
    then have "\<forall>y \<in> set_tree l. cid s y < cid s root" "\<forall>y \<in> set_tree r. cid s root < cid s y"
      using assms(3) by (auto simp: sorted_wrt_append simp flip: set_inorder)
    then have "cid s root < c \<Longrightarrow> find_timer_from s c (sp_left (timer_links s root)) = Some NULL"
      "c < cid s root \<Longrightarrow> find_timer_from s c (sp_right (timer_links s root)) = Some NULL"
      using find_timer_goes_left [OF x(3)] find_timer_goes_right [OF x(4)] by (metis less_trans)+
    then have "find_timer_from s c root = Some (if cid s root = c then timer_of root else NULL)" using x(2)
      by (subst find_timer_from.simps) auto
    then show ?thesis using x(2) by (simp add: find_timer_def assms(2) [symmetric])
  qed
qed

section \<open>Inserting\<close>

text \<open>
  The walk ends below a node \<open>p\<close> with room on the side \<open>d\<close>, with an identifier \<open>c\<close> that is the one asked for or the successor of
  one in the tree.
\<close>

definition walk_end :: "timer_state \<Rightarrow> ptr list \<Rightarrow> id_t \<Rightarrow> ptr \<Rightarrow> sp_dir \<Rightarrow> id_t \<Rightarrow> bool" where
  "walk_end s zs c0 p d c \<longleftrightarrow> (\<exists>xs ys. zs = xs @ p # ys \<and> sp_room (timer_links s) p d \<and> c0 \<le> c \<and>
     (c = c0 \<or> (\<exists>x \<in> set zs. c = cid s x + 1)) \<and>
     (\<forall>x \<in> set xs. cid s x < c) \<and> (\<forall>y \<in> set ys. c \<le> cid s y) \<and>
     (case d of SP_LEFT \<Rightarrow> c < cid s p | SP_RIGHT \<Rightarrow> cid s p < c))"

lemma walk_end_left:
  assumes "walk_end s (inorder l) c0 p d c" "c0 < cid s n" "sorted_wrt (<) (cids s (inorder l @ n # zs))"
  shows "walk_end s (inorder l @ n # zs) c0 p d c"
proof -
  obtain xs ys where w: "inorder l = xs @ p # ys" "sp_room (timer_links s) p d" "c0 \<le> c"
      "c = c0 \<or> (\<exists>x \<in> set (inorder l). c = cid s x + 1)" "\<forall>x \<in> set xs. cid s x < c" "\<forall>y \<in> set ys. c \<le> cid s y"
      "case d of SP_LEFT \<Rightarrow> c < cid s p | SP_RIGHT \<Rightarrow> cid s p < c"
    using assms(1) unfolding walk_end_def by blast
  have "\<forall>x \<in> set (inorder l). cid s x < cid s n" "\<forall>z \<in> set zs. cid s n < cid s z"
    using assms(3) by (auto simp: sorted_wrt_append)
  moreover from this have "c \<le> cid s n" using w(4) assms(2) by auto
  ultimately have "\<forall>y \<in> set (ys @ n # zs). c \<le> cid s y" using w(6) by force
  then show ?thesis unfolding walk_end_def using w by (intro exI [of _ xs] exI [of _ "ys @ n # zs"]) auto
qed

lemma walk_end_right:
  assumes "walk_end s (inorder r) c1 p d c" "cid s n < c1" "c0 \<le> c1" "c1 = c0 \<or> c1 = cid s n + 1"
    "sorted_wrt (<) (cids s (zs @ n # inorder r))"
  shows "walk_end s (zs @ n # inorder r) c0 p d c"
proof -
  obtain xs ys where w: "inorder r = xs @ p # ys" "sp_room (timer_links s) p d" "c1 \<le> c"
      "c = c1 \<or> (\<exists>x \<in> set (inorder r). c = cid s x + 1)" "\<forall>x \<in> set xs. cid s x < c" "\<forall>y \<in> set ys. c \<le> cid s y"
      "case d of SP_LEFT \<Rightarrow> c < cid s p | SP_RIGHT \<Rightarrow> cid s p < c"
    using assms(1) unfolding walk_end_def by blast
  have "\<forall>z \<in> set zs. cid s z < cid s n" using assms(5) by (auto simp: sorted_wrt_append)
  then have "\<forall>x \<in> set (zs @ n # xs). cid s x < c" using w(3,5) assms(2) by force
  moreover have "c = c0 \<or> (\<exists>x \<in> set (zs @ n # inorder r). c = cid s x + 1)" using w(4) assms(4) by auto
  ultimately show ?thesis unfolding walk_end_def using w assms(3)
    by (intro exI [of _ "zs @ n # xs"] exI [of _ ys]) auto
qed

lemma insert_walk_places:
  assumes "tree_at (timer_links s) q n t" "t \<noteq> Leaf" "ti \<notin> set_tree t"
    and "sorted_wrt (<) (cids s (inorder t))" "\<forall>x \<in> set_tree t. cid s x < INT_MAX" "c0 \<le> INT_MAX"
  shows "\<exists>p d c. insert_walk (set_cid s ti c0) ti n p0 d0 = Some (p, d, set_cid s ti c) \<and> walk_end s (inorder t) c0 p d c"
  using assms
proof (induction t arbitrary: q n c0 p0 d0)
  case (Node l x r)
  let ?h = "timer_links s"
  have x: "x = n" "n \<noteq> NULL" "tree_at ?h n (sp_left (?h n)) l" "tree_at ?h n (sp_right (?h n)) r" "n \<noteq> ti"
    using Node.prems by auto
  define c1 where "c1 = (if c0 = cid s n then c0 + 1 else c0)"
  have c1: "c0 \<le> c1" "c1 = c0 \<or> c1 = cid s n + 1" "c1 \<le> INT_MAX" "c1 \<noteq> cid s n"
    using Node.prems(5,6) x(1) by (auto simp: c1_def)
  have sorted: "sorted_wrt (<) (cids s (inorder l @ n # inorder r))" using Node.prems(4) x(1) by simp
  have step: "insert_walk (set_cid s ti c0) ti n p0 d0 =
      (if c1 < cid s n then insert_walk (set_cid s ti c1) ti (sp_left (?h n)) n SP_LEFT
       else insert_walk (set_cid s ti c1) ti (sp_right (?h n)) n SP_RIGHT)"
    using x(2,5) c1(3) Node.prems(6)
    by (subst insert_walk.simps) (auto simp: Let_def c1_def, simp_all add: set_cid_def)
  show ?case
  proof (cases "c1 < cid s n")
    case less: True
    then have c: "c1 = c0" using c1(2) by auto
    show ?thesis
    proof (cases "l = Leaf")
      case True
      then have "sp_left (?h n) = NULL" using x(3) by simp
      then have "insert_walk (set_cid s ti c0) ti n p0 d0 = Some (n, SP_LEFT, set_cid s ti c1)"
        using step less by (simp add: insert_walk.simps)
      moreover have "walk_end s (inorder (Node l x r)) c0 n SP_LEFT c1"
        unfolding walk_end_def using True x c less sorted \<open>sp_left (?h n) = NULL\<close>
        by (intro exI [of _ "[]"] exI [of _ "inorder r"]) (auto simp: sp_room_def)
      ultimately show ?thesis by blast
    next
      case False
      have "sorted_wrt (<) (cids s (inorder l))" using sorted by (simp add: sorted_wrt_append)
      then obtain p d c' where "insert_walk (set_cid s ti c0) ti (sp_left (?h n)) n SP_LEFT = Some (p, d, set_cid s ti c')"
          "walk_end s (inorder l) c0 p d c'"
        using Node.IH(1) [OF x(3) False, of c0 n SP_LEFT] Node.prems by auto
      then show ?thesis using step less c walk_end_left [OF _ _ sorted] x(1) by auto
    qed
  next
    case more: False
    then have n: "cid s n < c1" using c1(4) by simp
    show ?thesis
    proof (cases "r = Leaf")
      case True
      then have "sp_right (?h n) = NULL" using x(4) by simp
      then have "insert_walk (set_cid s ti c0) ti n p0 d0 = Some (n, SP_RIGHT, set_cid s ti c1)"
        using step more by (simp add: insert_walk.simps)
      moreover have "walk_end s (inorder (Node l x r)) c0 n SP_RIGHT c1"
        unfolding walk_end_def using True x n c1 sorted \<open>sp_right (?h n) = NULL\<close>
        by (intro exI [of _ "inorder l"] exI [of _ "[]"]) (auto simp: sp_room_def sorted_wrt_append)
      ultimately show ?thesis by blast
    next
      case False
      have "sorted_wrt (<) (cids s (inorder r))" using sorted by (simp add: sorted_wrt_append)
      then obtain p d c' where "insert_walk (set_cid s ti c1) ti (sp_right (?h n)) n SP_RIGHT = Some (p, d, set_cid s ti c')"
          "walk_end s (inorder r) c1 p d c'"
        using Node.IH(2) [OF x(4) False, of c1 n SP_RIGHT] Node.prems c1(3) by auto
      then show ?thesis using step more walk_end_right [OF _ n c1(1,2) sorted] x(1) by auto
    qed
  qed
qed simp



text \<open>The identifiers need not stay different: the walk steps over an identifier it meets, but not over that of a node it has already passed.\<close>

definition timer_example :: timer_state where
  "timer_example = \<lparr>kern = rpc_example, ticks_per_sec = 0, timer_root = (\<lambda>_. 0x10),
     timer_at = (\<lambda>n. \<lparr>ti_tid = 0, ti_cid = (if n = 0x10 then 7 else 6), ti_ticks = 0\<rparr>),
     timer_links = (\<lambda>n. if n = 0x10 then \<lparr>sp_left = 0x20, sp_right = NULL, sp_paren = NULL, hint = 1\<rparr>
        else \<lparr>sp_left = NULL, sp_right = NULL, sp_paren = (if n = 0x20 then 0x10 else NULL), hint = 0\<rparr>),
     timer_nodes = \<lparr>node_size = 0, max_nodes = 0, bitmap_off = 0, first_node = 0, nr_head = NULL, av_head = NULL\<rparr>,
     irq_map = (\<lambda>_. 0), max_irq = 0\<rparr>"

lemma timer_example_seq:
  "sp_seq (timer_links timer_example) (timer_root timer_example c) [0x20, 0x10]"
  "cids timer_example [0x20, 0x10] = [6, 7]" "cid timer_example 0x30 = 6" "sp_blank (timer_links timer_example) 0x30"
  by (auto simp: sp_seq_def timer_example_def sp_blank_def intro!: exI [of _ "Node (Node Leaf 0x20 Leaf) 0x10 Leaf"])

lemma insert_timer_collides:
  "\<exists>s. insert_walk timer_example 0x30 0x10 NULL SP_LEFT = Some (0x20, SP_RIGHT, s) \<and> cid s 0x30 = 7 \<and> cid s 0x10 = 7"
  by (simp add: insert_walk.simps timer_example_def Let_def INT_MAX_def)


theorem find_timer_only_root_witness:
  "find_timer timer_example 7 = Some (timer_of 0x10) \<and> find_timer timer_example 6 = Some NULL \<and> cid timer_example 0x20 = 6"
proof -
  have "sorted_wrt (<) (cids timer_example [0x20, 0x10])" unfolding timer_example_seq by simp
  note f = find_timer_only_root [OF timer_example_seq(1) refl this]
  have "timer_root timer_example c = 0x10" "cid timer_example 0x10 = 7" "cid timer_example 0x20 = 6" for c
    by (simp_all add: timer_example_def)
  then show ?thesis using f [of 7] f [of 6] by simp
qed


end
