(* ===== verification/Printf.thy ===== *)
theory Printf
  imports Utils Bits "HOL-Library.Monad_Syntax"
begin

text \<open>
  Formatted output of \<^verbatim>\<open>src/debug.c\<close> onto the serial line. The format is the list of characters before the terminator, and reading at its end gives the
  terminator. The variable arguments are a list of typed values; taking one of another type, or one that is not there,
  is \<open>None\<close>, as are overflows of signed integers. The wait for the serial device to be ready is taken to end.
\<close>

section \<open>The serial line\<close>

definition UART_8250 :: int where "UART_8250 = 0"

record dbg_info =
  d_base :: u64
  d_shift :: u64
  d_dev :: int
  d_addr :: u64

text \<open>What has been sent, and what \<^verbatim>\<open>%n\<close> stored where.\<close>

record console =
  dbg_dev :: dbg_info
  serial :: "u8 list"
  stored :: "(ptr \<times> u32) list"

definition uart_putchar :: "console \<Rightarrow> u8 \<Rightarrow> console" where
  "uart_putchar s c = (if d_base (dbg_dev s) = 0 then s else s\<lparr>serial := serial s @ [c]\<rparr>)"

definition putchar_raw :: "console \<Rightarrow> u8 \<Rightarrow> console" where
  "putchar_raw s c = (if d_dev (dbg_dev s) = UART_8250 then uart_putchar s c else s)"

definition putchar :: "console \<Rightarrow> u8 \<Rightarrow> console" where
  "putchar s c = putchar_raw (if c = 0x0a then putchar_raw s 0x0d else s) c"

fun puts :: "console \<Rightarrow> u8 list \<Rightarrow> console" where
  "puts s [] = s"
| "puts s (c # cs) = puts (putchar s c) cs"

section \<open>Numbers\<close>

definition LEFT_FLAG :: u64 where "LEFT_FLAG = 0x1"
definition SIGN_FLAG :: u64 where "SIGN_FLAG = 0x2"
definition HASH_FLAG :: u64 where "HASH_FLAG = 0x4"
definition ZERO_FLAG :: u64 where "ZERO_FLAG = 0x8"
definition FMT_FLAG :: u64 where "FMT_FLAG = 0x10"
definition SPACE_FLAG :: u64 where "SPACE_FLAG = 0x20"
definition LONG_FLAG :: u64 where "LONG_FLAG = 0x40"
definition LLONG_FLAG :: u64 where "LLONG_FLAG = 0x80"
definition SHORT_FLAG :: u64 where "SHORT_FLAG = 0x100"
definition CHAR_FLAG :: u64 where "CHAR_FLAG = 0x200"
definition PRECS_FLAG :: u64 where "PRECS_FLAG = 0x800"
definition UNSIGN_FLAG :: u64 where "UNSIGN_FLAG = 0x1000"
definition WIDTH_FLAG :: u64 where "WIDTH_FLAG = 0x2000"
definition PAD_FLAG :: u64 where "PAD_FLAG = 0x4000"

lemmas flag_values = LEFT_FLAG_def SIGN_FLAG_def HASH_FLAG_def ZERO_FLAG_def FMT_FLAG_def SPACE_FLAG_def LONG_FLAG_def
  LLONG_FLAG_def SHORT_FLAG_def CHAR_FLAG_def PRECS_FLAG_def UNSIGN_FLAG_def WIDTH_FLAG_def PAD_FLAG_def

definition is_digit :: "u8 \<Rightarrow> bool" where "is_digit c \<longleftrightarrow> 0x30 \<le> c \<and> c \<le> 0x39"

text \<open>The number at the start of a string, as an unsigned 32-bit sum that is returned as a signed one.\<close>

fun atoi_from :: "u8 list \<Rightarrow> u32 \<Rightarrow> u32" where
  "atoi_from [] i = i"
| "atoi_from (c # cs) i = (if is_digit c then atoi_from cs (i * 10 + ucast (c - 0x30)) else i)"

definition atoi :: "u8 list \<Rightarrow> int" where "atoi s = sint (atoi_from s 0)"

text \<open>A value at the signed and at the unsigned type that the length flags select.\<close>

definition signed_as :: "u64 \<Rightarrow> int \<Rightarrow> int" where
  "signed_as flags v =
     (if is_set flags LLONG_FLAG \<or> is_set flags LONG_FLAG then sint (word_of_int v :: u64)
      else if is_set flags SHORT_FLAG then sint (word_of_int v :: u16)
      else if is_set flags CHAR_FLAG then sint (word_of_int v :: u8)
      else sint (word_of_int v :: u32))"

definition unsigned_as :: "u64 \<Rightarrow> int \<Rightarrow> int" where
  "unsigned_as flags v =
     (if is_set flags LLONG_FLAG \<or> is_set flags LONG_FLAG then uint (word_of_int v :: u64)
      else if is_set flags SHORT_FLAG then uint (word_of_int v :: u16)
      else if is_set flags CHAR_FLAG then uint (word_of_int v :: u8)
      else uint (word_of_int v :: u32))"

definition read_as :: "u64 \<Rightarrow> int \<Rightarrow> int" where
  "read_as flags v = (if is_set flags UNSIGN_FLAG then unsigned_as flags v else signed_as flags v)"

definition digit_char :: "int \<Rightarrow> int \<Rightarrow> u8" where
  "digit_char b c = word_of_int (if b = 16 \<and> c > 9 then c + (0x61 - 10) else c + 0x30)"

text \<open>C's division, which truncates.\<close>

definition quot :: "int \<Rightarrow> int \<Rightarrow> int" where "quot v b = (if v < 0 then - (\<bar>v\<bar> div b) else v div b)"

lemma sint_between:
  fixes w :: "'a::len word"
  assumes "0 \<le> q \<and> q \<le> sint w \<or> sint w \<le> q \<and> q \<le> 0"
  shows "sint (word_of_int q :: 'a word) = q"
proof -
  have "- (2 ^ (LENGTH('a) - 1)) \<le> sint w" "sint w < 2 ^ (LENGTH('a) - 1)"
    by (rule sint_ge, rule sint_lt)
  moreover have "(0::int) < 2 ^ (LENGTH('a) - 1)" by simp
  ultimately have "- (2 ^ (LENGTH('a) - 1)) \<le> q" "q < 2 ^ (LENGTH('a) - 1)" using assms by linarith+
  then show ?thesis by (simp add: sint_sbintrunc' signed_take_bit_int_eq_self)
qed

lemma uint_between:
  fixes w :: "'a::len word"
  assumes "0 \<le> q" "q \<le> uint w"
  shows "uint (word_of_int q :: 'a word) = q"
  using assms le_less_trans [OF assms(2) uint_lt2p] by (simp add: uint_word_of_int_eq take_bit_int_eq_self_iff)

lemma read_as_between:
  assumes "0 \<le> q \<and> q \<le> read_as flags v \<or> read_as flags v \<le> q \<and> q \<le> 0"
  shows "read_as flags q = q"
proof (cases "is_set flags UNSIGN_FLAG")
  case True
  then have "0 \<le> read_as flags v" by (simp add: read_as_def unsigned_as_def)
  then have "0 \<le> q" "q \<le> unsigned_as flags v" using assms True by (auto simp: read_as_def)
  then show ?thesis using True by (auto simp: read_as_def unsigned_as_def intro: uint_between split: if_splits)
next
  case False
  then have "0 \<le> q \<and> q \<le> signed_as flags v \<or> signed_as flags v \<le> q \<and> q \<le> 0" using assms by (simp add: read_as_def)
  then show ?thesis using False by (auto simp: read_as_def signed_as_def intro: sint_between split: if_splits)
qed

lemma quot_between:
  assumes "2 \<le> b"
  shows "0 \<le> quot v b \<and> quot v b \<le> v \<or> v \<le> quot v b \<and> quot v b \<le> 0" "v \<noteq> 0 \<Longrightarrow> \<bar>quot v b\<bar> < \<bar>v\<bar>"
proof -
  have less: "x div b < x" if "0 < x" for x using that assms by (simp add: int_div_less_self)
  have nonneg: "0 \<le> x div b" "x div b \<le> x" if "0 \<le> x" for x using that assms less [of x]
    by (simp add: pos_imp_zdiv_nonneg_iff, cases "x = 0") auto
  show "0 \<le> quot v b \<and> quot v b \<le> v \<or> v \<le> quot v b \<and> quot v b \<le> 0"
    using nonneg [of v] nonneg [of "- v"] by (auto simp: quot_def)
  show "\<bar>quot v b\<bar> < \<bar>v\<bar>" if "v \<noteq> 0"
    using less [of v] less [of "- v"] nonneg [of v] nonneg [of "- v"] that by (auto simp: quot_def)
qed

text \<open>\<open>__integral_val\<close>: the characters it prints; their number is what it returns. The base is 2, 8, 10 or 16.\<close>

function integral_val :: "int \<Rightarrow> int \<Rightarrow> u64 \<Rightarrow> u8 list" where
  "integral_val value b flags =
     (if b < 2 then []
      else
        let v = read_as flags value;
            c = \<bar>v\<bar> mod b;
            value = quot v b
        in (if value \<noteq> 0 then integral_val value b flags else []) @ [digit_char b c])"
  by pat_completeness auto
termination
proof (relation "measure (\<lambda>(value, b, flags). nat \<bar>read_as flags value\<bar>)")
  fix x b flags v c q
  assume b: "\<not> b < (2::int)" and v: "v = read_as flags x" and q: "q = quot v b" "q \<noteq> 0"
  have "v \<noteq> 0" using q by (auto simp: quot_def)
  then have "\<bar>q\<bar> < \<bar>v\<bar>" using quot_between(2) b q(1) by simp
  moreover have "read_as flags q = q" using quot_between(1) [of b v] b v q(1) by (intro read_as_between) simp
  ultimately show "((q, b, flags), x, b, flags) \<in> measure (\<lambda>(value, b, flags). nat \<bar>read_as flags value\<bar>)" using v by simp
qed simp

declare integral_val.simps [simp del]

section \<open>Fields\<close>

text \<open>Functions that print return the number of characters with the new console.\<close>

definition print_list :: "console \<Rightarrow> u8 list \<Rightarrow> u64 \<times> console" where
  "print_list s cs = (of_nat (length cs), puts s cs)"

definition print_prefix :: "console \<Rightarrow> int \<Rightarrow> u64 \<times> console" where
  "print_prefix s b =
     (if b = 16 then print_list s [0x30, 0x78]
      else if b = 8 then print_list s [0x30]
      else if b = 2 then print_list s [0x30, 0x62]
      else (0, s))"

definition print_padding :: "console \<Rightarrow> u64 \<Rightarrow> u8 \<Rightarrow> u64 \<times> console" where
  "print_padding s pad pad_char = print_list s (replicate (unat pad) pad_char)"

definition print_sign :: "console \<Rightarrow> int \<Rightarrow> u64 \<Rightarrow> u64 \<times> console" where
  "print_sign s val flags =
     (let val = signed_as flags val
      in if val < 0 then print_list s [0x2d]
         else if is_set flags SIGN_FLAG then print_list s [0x2b]
         else (0, s))"

text \<open>A part that is printed under a condition, after what was printed before.\<close>

definition andalso :: "bool \<Rightarrow> (console \<Rightarrow> u64 \<times> console) \<Rightarrow> u64 \<times> console \<Rightarrow> u64 \<times> console" where
  "andalso cond f = (\<lambda>(ret, s). if cond then (let (n, s) = f s in (ret + n, s)) else (ret, s))"

definition print_integral :: "console \<Rightarrow> u64 \<Rightarrow> int \<Rightarrow> u64 \<Rightarrow> u64 \<Rightarrow> u64 \<times> console" where
  "print_integral s val b flags width =
     (let v = sint val;
          raw_len = of_nat (length (integral_val v b flags));
          pad = (if is_set flags PAD_FLAG then width - raw_len else 0);
          wide = sint pad > 0;
          left = is_set flags LEFT_FLAG;
          sign = andalso (\<not> is_set flags UNSIGN_FLAG) (\<lambda>s. print_sign s v flags);
          prefix = andalso (is_set flags HASH_FLAG) (\<lambda>s. print_prefix s b);
          r = (if is_set flags ZERO_FLAG then
                 andalso (wide \<and> \<not> left) (\<lambda>s. print_padding s pad 0x30) (prefix (sign (0, s)))
               else if is_set flags SPACE_FLAG then
                 prefix (sign (andalso (wide \<and> \<not> left) (\<lambda>s. print_padding s pad 0x20) (0, s)))
               else prefix (sign (0, s)));
          r = andalso True (\<lambda>s. print_list s (integral_val v b flags)) r
      in if is_set flags ZERO_FLAG then andalso (wide \<and> left) (\<lambda>s. print_padding s pad 0x30) r
         else if is_set flags SPACE_FLAG then andalso (wide \<and> left) (\<lambda>s. print_padding s pad 0x20) r
         else r)"

section \<open>Directives\<close>

datatype varg = Va_Int u32 | Va_Long u64 | Va_Str "u8 list" | Va_Ptr u64

fun va_int :: "varg list \<Rightarrow> (int \<times> varg list) option" where
  "va_int (Va_Int w # vl) = Some (sint w, vl)"
| "va_int _ = None"

fun va_long :: "varg list \<Rightarrow> (int \<times> varg list) option" where
  "va_long (Va_Long w # vl) = Some (sint w, vl)"
| "va_long _ = None"

fun va_str :: "varg list \<Rightarrow> (u8 list \<times> varg list) option" where
  "va_str (Va_Str cs # vl) = Some (takeWhile (\<lambda>c. c \<noteq> 0) cs, vl)"
| "va_str _ = None"

fun va_ptr :: "varg list \<Rightarrow> (u64 \<times> varg list) option" where
  "va_ptr (Va_Ptr p # vl) = Some (p, vl)"
| "va_ptr _ = None"

fun peek :: "u8 list \<Rightarrow> u8" where
  "peek [] = 0"
| "peek (c # cs) = c"

fun check_flags :: "u8 list \<Rightarrow> u64 \<Rightarrow> u8 list \<times> u64" where
  "check_flags [] flags = ([], flags)"
| "check_flags (c # fmt) flags =
     (if c = 0x20 then check_flags fmt (set_bits_mask flags SPACE_FLAG)
      else if c = 0x2d then check_flags fmt (set_bits_mask flags LEFT_FLAG)
      else if c = 0x2b then check_flags fmt (set_bits_mask flags SIGN_FLAG)
      else if c = 0x23 then check_flags fmt (set_bits_mask flags HASH_FLAG)
      else if c = 0x30 then check_flags fmt (set_bits_mask flags ZERO_FLAG)
      else if c = 0x27 then check_flags fmt (set_bits_mask flags FMT_FLAG)
      else (c # fmt, flags))"

text \<open>Only the first digit of a width or of a precision is stepped over.\<close>

definition check_width :: "u8 list \<Rightarrow> u64 \<Rightarrow> varg list \<Rightarrow> (u64 \<times> u8 list \<times> u64 \<times> varg list) option" where
  "check_width fmt flags vl =
     (let padded = (\<lambda>flags. set_bits_mask flags (WIDTH_FLAG OR PAD_FLAG OR SPACE_FLAG))
      in if is_digit (peek fmt) then Some (word_of_int (atoi fmt), tl fmt, padded flags, vl)
         else if peek fmt = 0x2a then do {
           (w, vl) \<leftarrow> va_int vl;
           if w = - 0x80000000 then None
           else if w < 0 then Some (word_of_int (- w), tl fmt, padded (set_bits_mask flags LEFT_FLAG), vl)
           else Some (word_of_int w, tl fmt, padded flags, vl)
         }
         else Some (0, fmt, flags, vl))"

definition check_precision :: "u8 list \<Rightarrow> u64 \<Rightarrow> varg list \<Rightarrow> (u64 \<times> u8 list \<times> u64 \<times> varg list) option" where
  "check_precision fmt flags vl =
     (if peek fmt = 0x2e then
        let fmt = tl fmt;
            flags = set_bits_mask flags (PRECS_FLAG OR PAD_FLAG OR ZERO_FLAG)
        in if is_digit (peek fmt) then Some (word_of_int (atoi fmt), tl fmt, flags, vl)
           else if peek fmt = 0x2a then map_option (\<lambda>(w, vl). (word_of_int w, tl fmt, flags, vl)) (va_int vl)
           else Some (0, fmt, flags, vl)
      else Some (0, fmt, flags, vl))"

definition check_length :: "u8 list \<Rightarrow> u64 \<Rightarrow> u8 list \<times> u64" where
  "check_length fmt flags =
     (if peek fmt = 0x6c then
        (if peek (tl fmt) = 0x6c then (tl (tl fmt), set_bits_mask flags LLONG_FLAG)
         else (tl fmt, set_bits_mask flags LONG_FLAG))
      else if peek fmt = 0x68 then
        (if peek (tl fmt) = 0x68 then (tl (tl fmt), set_bits_mask flags CHAR_FLAG)
         else (tl fmt, set_bits_mask flags SHORT_FLAG))
      else if peek fmt \<in> {0x6a, 0x7a, 0x74} then (tl fmt, set_bits_mask flags LONG_FLAG)
      else (fmt, flags))"

text \<open>The loop of \<^verbatim>\<open>%s\<close>, which counts down from the precision or from -1.\<close>

fun print_string :: "console \<Rightarrow> u8 list \<Rightarrow> int \<Rightarrow> u64 \<Rightarrow> (u64 \<times> console) option" where
  "print_string s [] i n = Some (n, s)"
| "print_string s (c # cs) i n =
     (if i = 0 then Some (n, s)
      else if i = - 0x80000000 then None
      else print_string (putchar s c) cs (i - 1) (n + 1))"

definition base_of :: "u8 \<Rightarrow> int" where
  "base_of c = (if c = 0x78 then 16 else if c = 0x58 then 2 else if c = 0x6f then 8 else 10)"

text \<open>The state of the loop: console, characters written, rest of the format, arguments left.\<close>

type_synonym fmt_state = "console \<times> u64 \<times> u8 list \<times> varg list"

definition print_number :: "console \<Rightarrow> u64 \<Rightarrow> u8 list \<Rightarrow> u64 \<Rightarrow> u64 \<Rightarrow> u64 \<Rightarrow> varg list \<Rightarrow> fmt_state option" where
  "print_number s written fmt flags width precision vl =
     (let c = peek fmt;
          b = base_of c;
          flags = (if b = 10 then clear_bits flags HASH_FLAG else flags);
          width = (if is_set flags PRECS_FLAG then precision else width);
          flags = (if c \<noteq> 0x69 \<and> c \<noteq> 0x64 then set_bits_mask (clear_bits flags SIGN_FLAG) UNSIGN_FLAG else flags)
      in do {
           (v, vl) \<leftarrow> (if is_set flags LLONG_FLAG \<or> is_set flags LONG_FLAG then va_long vl else va_int vl);
           let (n, s) = print_integral s (word_of_int v) b flags width
           in Some (s, written + n, tl fmt, vl)
         })"

definition directive :: "console \<Rightarrow> u64 \<Rightarrow> u8 list \<Rightarrow> varg list \<Rightarrow> fmt_state option" where
  "directive s written fmt vl =
     (let (fmt, flags) = check_flags fmt 0
      in do {
           (width, fmt, flags, vl) \<leftarrow> check_width fmt flags vl;
           (precision, fmt, flags, vl) \<leftarrow> check_precision fmt flags vl;
           let (fmt, flags) = check_length fmt flags;
               c = peek fmt
           in if c \<in> {0x64, 0x69, 0x75, 0x78, 0x58, 0x6f, 0x62} then print_number s written fmt flags width precision vl
              else if c = 0x63 then do {
                (v, vl) \<leftarrow> va_int vl;
                Some (putchar s (word_of_int v), written + 1, tl fmt, vl)
              }
              else if c = 0x73 then do {
                (cs, vl) \<leftarrow> va_str vl;
                (n, s) \<leftarrow> print_string s cs (if is_set flags PRECS_FLAG then sint (ucast precision :: u32) else -1) 0;
                Some (s, written + n, tl fmt, vl)
              }
              else if c = 0x70 then do {
                (p, vl) \<leftarrow> va_ptr vl;
                let flags = set_bits_mask (set_bits_mask flags (UNSIGN_FLAG OR HASH_FLAG)) LONG_FLAG;
                    (n, s) = print_integral s p 16 flags width
                in Some (s, written + n, tl fmt, vl)
              }
              else if c = 0x6e then do {
                (p, vl) \<leftarrow> va_ptr vl;
                Some (s\<lparr>stored := stored s @ [(p, ucast written)]\<rparr>, written, tl fmt, vl)
              }
              else Some (s, written, fmt, vl)
         })"

partial_function (option) dbg_from :: "console \<Rightarrow> u64 \<Rightarrow> u8 list \<Rightarrow> varg list \<Rightarrow> console option" where
  "dbg_from s written fmt vl =
     (case fmt of
        [] \<Rightarrow> Some s
      | c # fmt \<Rightarrow>
          if c \<noteq> 0x25 then dbg_from (putchar s c) (written + 1) fmt vl
          else if peek fmt = 0x25 then dbg_from (putchar s 0x25) (written + 1) (tl fmt) vl
          else do {
            (s, written, fmt, vl) \<leftarrow> directive s written fmt vl;
            dbg_from s written fmt vl
          })"

definition dbg :: "console \<Rightarrow> u8 list \<Rightarrow> varg list \<Rightarrow> console option" where
  "dbg s fmt vl = dbg_from s 0 fmt vl"

section \<open>Printed numbers\<close>

text \<open>A console whose device is known and mapped.\<close>

definition line_up :: "console \<Rightarrow> bool" where
  "line_up s \<longleftrightarrow> d_base (dbg_dev s) \<noteq> 0 \<and> d_dev (dbg_dev s) = UART_8250"

lemma puts_line_up:
  assumes "line_up s" "0x0a \<notin> set cs"
  shows "puts s cs = s\<lparr>serial := serial s @ cs\<rparr>"
  using assms
proof (induction cs arbitrary: s)
  case (Cons c cs)
  have "putchar s c = s\<lparr>serial := serial s @ [c]\<rparr>"
    using Cons.prems by (auto simp: putchar_def putchar_raw_def uart_putchar_def line_up_def)
  moreover have "line_up (s\<lparr>serial := serial s @ [c]\<rparr>)" using Cons.prems(1) by (simp add: line_up_def)
  ultimately show ?case using Cons.IH [of "s\<lparr>serial := serial s @ [c]\<rparr>"] Cons.prems(2) by simp
qed simp

lemma asciinum_digit_char:
  assumes "0 \<le> c" "c < b" "b = 10 \<or> b = 16"
  shows "asciinum (digit_char b c) = c" "digit_char b c \<noteq> 0x0a"
proof -
  have "c < 16" using assms by auto
  with assms(1) have "c = 0 \<or> c = 1 \<or> c = 2 \<or> c = 3 \<or> c = 4 \<or> c = 5 \<or> c = 6 \<or> c = 7 \<or> c = 8 \<or> c = 9 \<or>
      c = 10 \<or> c = 11 \<or> c = 12 \<or> c = 13 \<or> c = 14 \<or> c = 15" by arith
  then show "asciinum (digit_char b c) = c" "digit_char b c \<noteq> 0x0a"
    using assms(2,3) by (elim disjE; simp add: digit_char_def asciinum_def)+
qed

abbreviation digit_value :: "int \<Rightarrow> u8 list \<Rightarrow> int" where
  "digit_value b ds \<equiv> foldl (\<lambda>a d. a * b + asciinum d) 0 ds"

lemma integral_val_reads_back:
  assumes "b = 10 \<or> b = 16"
  shows "digit_value b (integral_val v b flags) = \<bar>read_as flags v\<bar> \<and> 0x0a \<notin> set (integral_val v b flags)"
  using assms
proof (induction v b flags rule: integral_val.induct)
  case (1 v b flags)
  define r q where "r = read_as flags v" and "q = quot r b"
  have b: "2 \<le> b" using "1.prems" by auto
  have q: "\<bar>q\<bar> = \<bar>r\<bar> div b" using b by (auto simp: q_def quot_def pos_imp_zdiv_nonneg_iff)
  have rq: "read_as flags q = q" using quot_between(1) [OF b, of r] by (intro read_as_between) (simp add: q_def r_def)
  have d: "asciinum (digit_char b (\<bar>r\<bar> mod b)) = \<bar>r\<bar> mod b" "digit_char b (\<bar>r\<bar> mod b) \<noteq> 0x0a"
    using asciinum_digit_char [of "\<bar>r\<bar> mod b" b] "1.prems" b by auto
  have eq: "integral_val v b flags = (if q \<noteq> 0 then integral_val q b flags else []) @ [digit_char b (\<bar>r\<bar> mod b)]"
    using b by (subst integral_val.simps) (simp add: Let_def r_def q_def)
  have "digit_value b (if q \<noteq> 0 then integral_val q b flags else []) = \<bar>q\<bar> \<and>
      0x0a \<notin> set (if q \<noteq> 0 then integral_val q b flags else [])"
    using "1.IH" [OF _ r_def refl q_def _ "1.prems"] b rq by auto
  then show ?case unfolding eq using d q b by (auto simp: r_def)
qed

lemma digit_value_word: "foldl (\<lambda>a d. a * of_int b + of_int (asciinum d)) (0::u64) ds = of_int (digit_value b ds)"
  by (induction ds rule: rev_induct) simp_all

lemma convnum_digits: "convnum ((!) ds) (length ds) (of_int b) = of_int (digit_value b ds)"
proof -
  have "foldl (\<lambda>a k. a * of_int b + of_int (asciinum (ds ! k))) 0 [0..<length ds] =
      foldl (\<lambda>a d. a * of_int b + of_int (asciinum d)) (0::u64) (map ((!) ds) [0..<length ds])"
    by (simp only: foldl_map)
  then show ?thesis by (simp only: map_nth digit_value_word convnum_def convnum_from_eq) simp
qed

text \<open>(C21) An unsigned long printed with \<^verbatim>\<open>%lu\<close> or \<^verbatim>\<open>%lx\<close> appears on the serial line as digits that \<open>convnum\<close> reads back as the same number in base
  10 or 16, and nothing else appears.\<close>

theorem printed_numbers_read_back:
  assumes "line_up s" "(c, b) = (0x75, 10) \<or> (c, b) = (0x78, 16)"
  shows "\<exists>ds. dbg s [0x25, 0x6c, c] [Va_Long v] = Some (s\<lparr>serial := serial s @ ds\<rparr>) \<and> convnum ((!) ds) (length ds) b = v"
proof -
  define flags where "flags = set_bits_mask (clear_bits LONG_FLAG SIGN_FLAG) UNSIGN_FLAG"
  define ds where "ds = integral_val (sint v) (uint b) flags"
  have f: "is_set flags UNSIGN_FLAG" "\<not> is_set flags PRECS_FLAG" "\<not> is_set flags PAD_FLAG" "\<not> is_set flags ZERO_FLAG" "\<not> is_set flags SPACE_FLAG"
      "\<not> is_set flags HASH_FLAG" "is_set flags LONG_FLAG"
    by (simp_all add: flags_def is_set_def set_bits_mask_def clear_bits_def flag_values)
  have long: "clear_bits LONG_FLAG HASH_FLAG = LONG_FLAG" "\<not> is_set LONG_FLAG PRECS_FLAG"
    by (simp_all add: clear_bits_def is_set_def flag_values)
  have b: "uint b = 10 \<or> uint b = 16" using assms(2) by auto
  have "read_as flags (sint v) = uint v" by (simp add: read_as_def f unsigned_as_def)
  with integral_val_reads_back [OF b, of "sint v" flags] have ds: "digit_value (uint b) ds = uint v" "0x0a \<notin> set ds"
    by (simp_all add: ds_def)
  have "convnum ((!) ds) (length ds) b = v" using convnum_digits [of ds "uint b"] ds(1) by simp
  moreover have "print_integral s v (uint b) flags 0 = (of_nat (length ds), s\<lparr>serial := serial s @ ds\<rparr>)"
    using puts_line_up [OF assms(1) ds(2)] by (simp add: print_integral_def Let_def f andalso_def print_list_def ds_def)
  then have num: "print_number s 0 [c] LONG_FLAG 0 0 [Va_Long v] = Some (s\<lparr>serial := serial s @ ds\<rparr>, of_nat (length ds), [], [])"
    using assms(2) long by (auto simp: print_number_def base_of_def Let_def f flags_def [symmetric])
  have parse: "check_flags [0x6c, c] 0 = ([0x6c, c], 0)" "check_width [0x6c, c] 0 vl = Some (0, [0x6c, c], 0, vl)"
      "check_precision [0x6c, c] 0 vl = Some (0, [0x6c, c], 0, vl)" "check_length [0x6c, c] 0 = ([c], LONG_FLAG)" for vl
    using assms(2) by (auto simp: check_width_def check_precision_def check_length_def is_digit_def Let_def set_bits_mask_def)
  have "directive s 0 [0x6c, c] [Va_Long v] = Some (s\<lparr>serial := serial s @ ds\<rparr>, of_nat (length ds), [], [])"
    using assms(2) by (auto simp: directive_def parse num Let_def)
  then have "dbg s [0x25, 0x6c, c] [Va_Long v] = Some (s\<lparr>serial := serial s @ ds\<rparr>)"
    unfolding dbg_def by (subst dbg_from.simps) (simp add: dbg_from.simps [of _ _ "[]"])
  ultimately show ?thesis by blast
qed

definition console_example :: console where
  "console_example = \<lparr>dbg_dev = \<lparr>d_base = 0x10000000, d_shift = 0, d_dev = UART_8250, d_addr = 0x10000000\<rparr>, serial = [], stored = []\<rparr>"

theorem printed_numbers_read_back_witness:
  "\<exists>ds. dbg console_example [0x25, 0x6c, 0x78] [Va_Long 0xbeef] = Some (console_example\<lparr>serial := ds\<rparr>) \<and>
     convnum ((!) ds) (length ds) 16 = 0xbeef"
  using printed_numbers_read_back [of console_example "0x78" 16 "0xbeef"]
  by (simp add: line_up_def console_example_def UART_8250_def)

text \<open>A width of two digits: \<^verbatim>\<open>%10d\<close> is printed as the characters behind the first digit, and the argument is not.\<close>

lemma two_digit_width_is_text:
  "map_option serial (dbg console_example [0x25, 0x31, 0x30, 0x64] [Va_Int 5]) = Some [0x30, 0x64]"
  by (simp add: dbg_def dbg_from.simps directive_def check_width_def check_precision_def check_length_def is_digit_def Let_def
      putchar_def putchar_raw_def uart_putchar_def console_example_def)

end
