(* ===== verification/Initrd.thy ===== *)
theory Initrd
  imports Strings Mem
begin

text \<open>
  The ramdisk of \<^verbatim>\<open>src/initrd.c\<close>, a cpio archive in the newc format in memory. Its base address comes from the device tree and is an
  argument, as are the addresses of the two string literals of the source.
\<close>

definition sizeof_cpio_header :: u64 where "sizeof_cpio_header = 110"

text \<open>The offsets of the two fields that are read, both of eight hexadecimal digits.\<close>

definition c_filesize :: u64 where "c_filesize = 54"
definition c_namesize :: u64 where "c_namesize = 94"

definition cpio_number :: "memory \<Rightarrow> ptr \<Rightarrow> u64 \<Rightarrow> u64" where
  "cpio_number m cp off = convnum (\<lambda>i. m (cp + off + of_nat i)) 8 16"

definition next_entry :: "memory \<Rightarrow> ptr \<Rightarrow> ptr" where
  "next_entry m cp =
     (let blen = align_up (sizeof_cpio_header + cpio_number m cp c_namesize) 4;
          tlen = align_up (cpio_number m cp c_filesize) 4
      in cp + blen + tlen)"

partial_function (option) find_file :: "memory \<Rightarrow> ptr \<Rightarrow> ptr \<Rightarrow> ptr \<Rightarrow> u64 \<Rightarrow> ptr option" where
  "find_file m tailer cp fname fname_len =
     (if cp = NULL then Some NULL
      else
        let namelen = cpio_number m cp c_namesize
        in if namelen = 0 then Some NULL
           else if namelen < fname_len then find_file m tailer (next_entry m cp) fname fname_len
           else
             let name = cp + sizeof_cpio_header
             in do {
                  last \<leftarrow> strcmp m name tailer;
                  if last = 0 then Some NULL
                  else
                    let name = (if m fname \<noteq> 0x2f then name + (namelen - (fname_len + 1)) else name)
                    in do {
                         diff \<leftarrow> strncmp m name fname fname_len;
                         if diff = 0 then Some cp
                         else find_file m tailer (next_entry m cp) fname fname_len
                       }
                })"

definition init_nlen :: u64 where "init_nlen = 4"

definition get_initrdsize :: "u64 \<Rightarrow> u64 \<Rightarrow> u64" where "get_initrdsize start stop = stop - start"

text \<open>A missing program is a read through \<^verbatim>\<open>NULL\<close>, \<open>None\<close>.\<close>

definition get_init_base :: "memory \<Rightarrow> ptr \<Rightarrow> ptr \<Rightarrow> u64 \<Rightarrow> ptr option" where
  "get_init_base m tailer init_n initrd_base =
     do {
       cp \<leftarrow> find_file m tailer (va initrd_base) init_n init_nlen;
       if cp = NULL then None
       else Some (cp + align_up (sizeof_cpio_header + cpio_number m cp c_namesize) 4)
     }"

section \<open>Walking the archive\<close>

lemma aligned_add: "take_bit 2 (x :: u64) = 0 \<Longrightarrow> take_bit 2 y = 0 \<Longrightarrow> take_bit 2 (x + y) = 0"
proof -
  assume "take_bit 2 x = 0" "take_bit 2 y = 0"
  then have "take_bit 2 (uint x) = 0" "take_bit 2 (uint y) = 0"
    by (simp_all flip: unsigned_take_bit_eq)
  then have "take_bit 2 (uint (x + y)) = 0"
    using take_bit_add [of 2 "uint x" "uint y"] by (simp add: uint_word_arith_bintrs(1))
  then show ?thesis by (simp add: word_uint_eq_iff unsigned_take_bit_eq)
qed

lemma aligned_up: "take_bit 2 (align_up (x :: u64) 4) = 0"
proof -
  have p: "is_powerof2 (4 :: u64)" by (simp add: is_powerof2_def)
  have four: "take_bit 2 (4 :: u64) = 0" by (simp add: take_bit_eq_mask mask_eq_exp_minus_1)
  have "(3 :: u64) = mask 2" by (simp add: mask_eq_exp_minus_1)
  then have "take_bit 2 (x AND NOT 3) = 0" by (auto simp: bit_eq_iff bit_simps)
  then have "take_bit 2 (align_down x 4) = 0" by (simp add: align_down_def p)
  then show ?thesis using aligned_add four by (simp add: align_up_def Let_def) metis
qed

text \<open>The headers of an archive that starts at a multiple of four are all at multiples of four.\<close>

lemma next_entry_aligned: "take_bit 2 cp = 0 \<Longrightarrow> take_bit 2 (next_entry m cp) = 0"
  unfolding next_entry_def Let_def by (intro aligned_add aligned_up)

end
